(* ===== verification/Lynne_Prelude.thy ===== *)
theory Lynne_Prelude
  imports Main "HOL-Library.Word" "HOL-Library.Char_ord" "HOL-Library.List_Lexorder"
begin

text \<open>
  Shared vocabulary of the development: the outcomes a C++ function of the repository can have
  (a value, one of the exceptions the code can meet, or undefined behaviour), and the parts of
  the C++ standard library the sources call on \<open>std::string\<close> (\<open>find\<close>, \<open>substr\<close>,
  \<open>std::to_string\<close>, \<open>std::stoi\<close>), with the lemmas all components share.
  A \<open>std::string\<close> is a list of bytes, HOL's \<open>string\<close>; an \<open>int\<close> is a 32-bit word read
  with \<open>sint\<close>.
\<close>

named_theorems res_simps "rewriting of results"
named_theorems str_simps "facts on std::string operations"

subsection \<open>Outcomes\<close>

text \<open>
  The exceptions that can arise: the numbered ones of \<open>nlohmann::json\<close>, those of
  \<open>std::stoi\<close>, \<open>std::bad_function_call\<close> (an empty \<open>std::function\<close> is invoked),
  \<open>std::filesystem::filesystem_error\<close>, \<open>std::ios_base::failure\<close>, one thrown by a
  callback of the caller, and one of another library (\<open>spdlog_ex\<close>). \<open>Undefined\<close> is not an exception: it stands for
  undefined behaviour or a failed \<open>assert\<close>, which no \<open>catch\<close> clause stops.
\<close>

datatype exn =
    JsonTypeError nat
  | JsonOutOfRange nat
  | JsonParseError
  | StdInvalidArgument
  | StdOutOfRange
  | BadFunctionCall
  | FilesystemError
  | IosFailure
  | UserException
  | LibraryException
  | Undefined

type_synonym 'a result = "exn + 'a"

type_synonym int32 = "32 word"
type_synonym u64 = "64 word"

definition is_exception :: "exn \<Rightarrow> bool" where
  "is_exception e \<longleftrightarrow> e \<noteq> Undefined"

definition bind_res :: "'a result \<Rightarrow> ('a \<Rightarrow> 'b result) \<Rightarrow> 'b result" where
  "bind_res r f = (case r of Inl e \<Rightarrow> Inl e | Inr x \<Rightarrow> f x)"

lemma bind_res_simps [simp, res_simps]:
  "bind_res (Inl e) f = Inl e"
  "bind_res (Inr x) f = f x"
  by (simp_all add: bind_res_def)

lemma bind_res_Inr_iff: "bind_res r f = Inr y \<longleftrightarrow> (\<exists>x. r = Inr x \<and> f x = Inr y)"
  by (cases r) auto

lemma bind_res_Inl_iff:
  "bind_res r f = Inl e \<longleftrightarrow> r = Inl e \<or> (\<exists>x. r = Inr x \<and> f x = Inl e)"
  by (cases r) auto

lemma bind_res_assoc: "bind_res (bind_res r f) g = bind_res r (\<lambda>x. bind_res (f x) g)"
  by (cases r) auto

lemma bind_res_cong [fundef_cong]:
  "r = r' \<Longrightarrow> (\<And>x. r' = Inr x \<Longrightarrow> f x = g x) \<Longrightarrow> bind_res r f = bind_res r' g"
  by (cases r') auto

text \<open>A loop whose body may throw: the first exception ends it.\<close>

fun map_res :: "('a \<Rightarrow> 'b result) \<Rightarrow> 'a list \<Rightarrow> 'b list result" where
  "map_res f [] = Inr []"
| "map_res f (x # xs) = bind_res (f x) (\<lambda>y. bind_res (map_res f xs) (\<lambda>ys. Inr (y # ys)))"

lemma map_res_cong [fundef_cong]:
  "xs = ys \<Longrightarrow> (\<And>x. x \<in> set ys \<Longrightarrow> f x = g x) \<Longrightarrow> map_res f xs = map_res g ys"
  by (induction ys arbitrary: xs) (auto intro: bind_res_cong)

lemma map_res_InrI:
  "(\<And>x. x \<in> set xs \<Longrightarrow> f x = Inr (g x)) \<Longrightarrow> map_res f xs = Inr (map g xs)"
  by (induction xs) auto

lemma map_res_map: "map_res f (map g xs) = map_res (\<lambda>x. f (g x)) xs"
  by (induction xs) auto

lemma map_res_Inr_length: "map_res f xs = Inr ys \<Longrightarrow> length ys = length xs"
  by (induction xs arbitrary: ys) (auto simp: bind_res_Inr_iff)

lemma map_res_ok: "(\<And>x. x \<in> set xs \<Longrightarrow> \<exists>y. f x = Inr y) \<Longrightarrow> \<exists>ys. map_res f xs = Inr ys"
proof (induction xs)
  case (Cons x xs)
  then obtain y ys where "f x = Inr y" "map_res f xs = Inr ys" by force
  then show ?case by simp
qed simp

text \<open>A range-based \<open>for\<close> that updates a state.\<close>

fun for_res :: "('a \<Rightarrow> 'r \<Rightarrow> 'r result) \<Rightarrow> 'a list \<Rightarrow> 'r \<Rightarrow> 'r result" where
  "for_res f [] r = Inr r"
| "for_res f (x # xs) r = bind_res (f x r) (for_res f xs)"

lemma for_res_append: "for_res f (xs @ ys) r = bind_res (for_res f xs r) (for_res f ys)"
  by (induction xs arbitrary: r) (auto simp: bind_res_def split: sum.split)

lemma for_res_foldl:
  "(\<And>x r. x \<in> set xs \<Longrightarrow> f x r = Inr (g r x)) \<Longrightarrow> for_res f xs r = Inr (foldl g r xs)"
  by (induction xs arbitrary: r) auto

subsection \<open>Searching strings\<close>

definition starts_with :: "string \<Rightarrow> string \<Rightarrow> bool" where
  "starts_with p s \<longleftrightarrow> take (length p) s = p"

lemma starts_with_append [simp, str_simps]: "starts_with p (p @ s)"
  by (simp add: starts_with_def)

lemma starts_with_Nil [simp]: "starts_with [] s"
  by (simp add: starts_with_def)

lemma starts_with_Cons [simp]:
  "starts_with (c # p) s \<longleftrightarrow> (case s of [] \<Rightarrow> False | d # t \<Rightarrow> c = d \<and> starts_with p t)"
  by (cases s) (auto simp: starts_with_def)

lemma starts_with_iff: "starts_with p s \<longleftrightarrow> (\<exists>t. s = p @ t)"
  by (metis append_take_drop_id starts_with_append starts_with_def)

text \<open>\<open>s.find(p)\<close>: the first position where \<open>p\<close> occurs, \<open>npos\<close> as \<open>None\<close>.\<close>

fun str_find :: "string \<Rightarrow> string \<Rightarrow> nat option" where
  "str_find p [] = (if p = [] then Some 0 else None)"
| "str_find p (c # s) = (if starts_with p (c # s) then Some 0 else map_option Suc (str_find p s))"

text \<open>\<open>s.find(c)\<close> for a character.\<close>

fun char_find :: "char \<Rightarrow> string \<Rightarrow> nat option" where
  "char_find c [] = None"
| "char_find c (d # s) = (if c = d then Some 0 else map_option Suc (char_find c s))"

text \<open>\<open>s.find(c, pos)\<close> and \<open>s.find_first_of(cs, pos)\<close>.\<close>

definition char_find_from :: "char \<Rightarrow> nat \<Rightarrow> string \<Rightarrow> nat option" where
  "char_find_from c pos s = map_option (\<lambda>i. pos + i) (char_find c (drop pos s))"

fun find_first_of :: "string \<Rightarrow> string \<Rightarrow> nat option" where
  "find_first_of cs [] = None"
| "find_first_of cs (d # s) = (if d \<in> set cs then Some 0 else map_option Suc (find_first_of cs s))"

definition find_first_of_from :: "string \<Rightarrow> nat \<Rightarrow> string \<Rightarrow> nat option" where
  "find_first_of_from cs pos s = map_option (\<lambda>i. pos + i) (find_first_of cs (drop pos s))"

lemma char_find_None_iff [str_simps]: "char_find c s = None \<longleftrightarrow> c \<notin> set s"
  by (induction s) auto

lemma char_find_append [str_simps]: "c \<notin> set s \<Longrightarrow> char_find c (s @ c # t) = Some (length s)"
  by (induction s) auto

lemma char_find_SomeD:
  "char_find c s = Some i \<Longrightarrow> i < length s \<and> s ! i = c \<and> c \<notin> set (take i s)"
  by (induction s arbitrary: i) (auto split: if_splits)

lemma char_find_split:
  "char_find c s = Some i \<Longrightarrow> s = take i s @ c # drop (Suc i) s \<and> c \<notin> set (take i s)"
  by (metis char_find_SomeD id_take_nth_drop)

lemma find_first_of_None_iff [str_simps]: "find_first_of cs s = None \<longleftrightarrow> set s \<inter> set cs = {}"
  by (induction s) auto

lemma find_first_of_append [str_simps]:
  "set s \<inter> set cs = {} \<Longrightarrow> d \<in> set cs \<Longrightarrow> find_first_of cs (s @ d # t) = Some (length s)"
  by (induction s) auto

lemma str_find_prefix: "starts_with p s \<Longrightarrow> str_find p s = Some 0"
  by (cases s) (auto simp: starts_with_def)

lemma str_find_SomeD: "str_find p s = Some i \<Longrightarrow> starts_with p (drop i s)"
proof (induction s arbitrary: i)
  case Nil
  then show ?case by (auto split: if_splits)
next
  case (Cons c s)
  show ?case
  proof (cases "starts_with p (c # s)")
    case True
    with Cons.prems have "i = 0" by simp
    with True show ?thesis by simp
  next
    case False
    with Cons.prems obtain j where "str_find p s = Some j" "i = Suc j"
      by (auto simp del: starts_with_Cons)
    with Cons.IH show ?thesis by simp
  qed
qed

subsection \<open>\<open>substr\<close>\<close>

text \<open>
  \<open>s.substr(pos)\<close> and \<open>s.substr(pos, n)\<close> throw \<open>std::out_of_range\<close> when \<open>pos\<close> is past the
  end; \<open>n\<close> is cut to what is left.
\<close>

definition substr_from :: "nat \<Rightarrow> string \<Rightarrow> string result" where
  "substr_from pos s = (if pos \<le> length s then Inr (drop pos s) else Inl StdOutOfRange)"

definition substr :: "nat \<Rightarrow> nat \<Rightarrow> string \<Rightarrow> string result" where
  "substr pos n s = (if pos \<le> length s then Inr (take n (drop pos s)) else Inl StdOutOfRange)"

subsection \<open>Decimal numerals\<close>

definition is_digit :: "char \<Rightarrow> bool" where
  "is_digit c \<longleftrightarrow> 48 \<le> (of_char c :: nat) \<and> (of_char c :: nat) \<le> 57"

definition digit_val :: "char \<Rightarrow> nat" where
  "digit_val c = of_char c - 48"

definition digit_char :: "nat \<Rightarrow> char" where
  "digit_char n = char_of (48 + n)"

text \<open>\<open>std::to_string\<close> of an unsigned value; \<open>int_str\<close> of a signed one.\<close>

fun nat_str :: "nat \<Rightarrow> string" where
  "nat_str n = (if n < 10 then [digit_char n] else nat_str (n div 10) @ [digit_char (n mod 10)])"

declare nat_str.simps [simp del]

definition int_str :: "int \<Rightarrow> string" where
  "int_str i = (if i < 0 then ''-'' @ nat_str (nat (- i)) else nat_str (nat i))"

definition dec_val :: "string \<Rightarrow> nat" where
  "dec_val s = foldl (\<lambda>n c. n * 10 + digit_val c) 0 s"

lemma digit_char_props [simp]:
  assumes "n < 10"
  shows "is_digit (digit_char n)" "digit_val (digit_char n) = n"
  using assms by (simp_all add: is_digit_def digit_val_def digit_char_def of_char_of)

lemma dec_val_snoc: "dec_val (s @ [c]) = dec_val s * 10 + digit_val c"
  by (simp add: dec_val_def)

lemma dec_val_nat_str [simp, str_simps]: "dec_val (nat_str n) = n"
proof (induction n rule: nat_str.induct)
  case (1 n)
  show ?case
  proof (cases "n < 10")
    case True
    then show ?thesis by (simp add: nat_str.simps [of n] dec_val_def)
  next
    case False
    with 1 show ?thesis by (simp add: nat_str.simps [of n] dec_val_snoc)
  qed
qed

lemma nat_str_digits [str_simps]: "c \<in> set (nat_str n) \<Longrightarrow> is_digit c"
proof (induction n rule: nat_str.induct)
  case (1 n)
  then show ?case by (cases "n < 10") (auto simp: nat_str.simps [of n])
qed

lemma nat_str_nonempty [simp]: "nat_str n \<noteq> []"
  by (subst nat_str.simps) simp

lemma nat_str_inject [simp]: "nat_str m = nat_str n \<longleftrightarrow> m = n"
  by (metis dec_val_nat_str)

lemma nat_str_takeWhile:
  "t = [] \<or> \<not> is_digit (hd t) \<Longrightarrow> takeWhile is_digit (nat_str n @ t) = nat_str n"
  by (cases t) (auto simp: takeWhile_append nat_str_digits)

lemma nat_str_hd_digit [simp]: "is_digit (hd (nat_str n))"
  using nat_str_digits [of "hd (nat_str n)" n] by simp

lemma not_digit_chars [simp]:
  "\<not> is_digit (CHR ''-'')" "\<not> is_digit (CHR ''+'')" "\<not> is_digit (CHR '':'')"
  "\<not> is_digit (CHR ''/'')" "\<not> is_digit (CHR ''.'')" "\<not> is_digit (CHR ''_'')"
  by (simp_all add: is_digit_def)

lemma int_str_inject [simp]: "int_str i = int_str j \<longleftrightarrow> i = j"
proof -
  have "int_str i \<noteq> int_str j" if "i < 0" "\<not> j < 0" for i j
  proof
    assume "int_str i = int_str j"
    with that have "hd (nat_str (nat j)) = CHR ''-''" by (simp add: int_str_def) (metis list.sel(1))
    with nat_str_hd_digit [of "nat j"] show False by simp
  qed
  from this [of i j] this [of j i] show ?thesis by (auto simp: int_str_def split: if_splits)
qed

subsection \<open>\<open>std::stoi\<close>\<close>

text \<open>\<open>isspace\<close> in the C locale.\<close>

definition is_space :: "char \<Rightarrow> bool" where
  "is_space c \<longleftrightarrow> (of_char c :: nat) = 32 \<or> 9 \<le> (of_char c :: nat) \<and> (of_char c :: nat) \<le> 13"

text \<open>
  \<open>std::stoi\<close>: leading white space, an optional sign, then the longest run of digits; what
  follows is ignored. No digit at all throws \<open>std::invalid_argument\<close>, a value that does not fit
  \<open>int\<close> throws \<open>std::out_of_range\<close>.
\<close>

definition stoi :: "string \<Rightarrow> int32 result" where
  "stoi s =
     (let s1 = dropWhile is_space s;
          neg = (s1 \<noteq> [] \<and> hd s1 = CHR ''-'');
          s2 = (if s1 \<noteq> [] \<and> (hd s1 = CHR ''-'' \<or> hd s1 = CHR ''+'') then tl s1 else s1);
          ds = takeWhile is_digit s2;
          v = (if neg then - int (dec_val ds) else int (dec_val ds))
      in if ds = [] then Inl StdInvalidArgument
         else if v < - (2 ^ 31) \<or> v \<ge> 2 ^ 31 then Inl StdOutOfRange
         else Inr (word_of_int v))"

lemma is_digit_not_space: "is_digit c \<Longrightarrow> \<not> is_space c"
  by (auto simp: is_digit_def is_space_def)

lemma stoi_nat_str [str_simps]:
  assumes "n < 2 ^ 31" and "t = [] \<or> \<not> is_digit (hd t)"
  shows "stoi (nat_str n @ t) = Inr (word_of_nat n)"
proof -
  obtain c s where cs: "nat_str n = c # s" by (cases "nat_str n") auto
  have c: "is_digit c" using nat_str_digits [of c n] cs by simp
  have d: "dropWhile is_space (nat_str n @ t) = nat_str n @ t"
    using cs is_digit_not_space [OF c] by simp
  have sg: "c \<noteq> CHR ''-''" "c \<noteq> CHR ''+''" using c by auto
  have tw: "takeWhile is_digit (s @ t) = s"
    using cs c nat_str_takeWhile [OF assms(2), of n] by simp
  have dv: "dec_val (c # s) = n" using cs dec_val_nat_str [of n] by simp
  show ?thesis
    unfolding stoi_def Let_def d using assms(1) by (simp add: cs c sg tw dv)
qed

lemma stoi_no_digits: "(\<forall>c \<in> set s. \<not> is_digit c) \<Longrightarrow> stoi s = Inl StdInvalidArgument"
proof -
  assume a: "\<forall>c \<in> set s. \<not> is_digit c"
  have none: "takeWhile is_digit u = []" if "set u \<subseteq> set s" for u
    using a that by (cases u) auto
  have "set (dropWhile is_space s) \<subseteq> set s" by (auto dest: set_dropWhileD)
  moreover have "set (tl (dropWhile is_space s)) \<subseteq> set s"
    by (metis calculation list.set_sel(2) subset_eq tl_Nil)
  ultimately show ?thesis by (simp add: stoi_def Let_def none)
qed

end
