(* ===== verification/Std_Map.thy ===== *)
theory Std_Map
  imports Lynne_Prelude
begin

text \<open>
  \<open>std::map\<close> as the sources use it (JSON objects, the scheduler's timers, the pending CDP
  requests, the event handlers, the browser contexts): an association list kept in strictly
  ascending key order, which is also its iteration order. \<open>mput\<close> is \<open>m[k] = v\<close>, \<open>map_of\<close> is
  \<open>find\<close>, \<open>merase\<close> is \<open>erase\<close>. The locale \<open>ordered_map\<close> states the contract the other
  components rely on; its interpretation discharges it for these definitions.
\<close>

type_synonym ('k, 'v) smap = "('k \<times> 'v) list"

fun mput :: "'k::linorder \<Rightarrow> 'v \<Rightarrow> ('k, 'v) smap \<Rightarrow> ('k, 'v) smap" where
  "mput k v [] = [(k, v)]"
| "mput k v ((k', v') # m) =
     (if k < k' then (k, v) # (k', v') # m
      else if k = k' then (k, v) # m
      else (k', v') # mput k v m)"

definition merase :: "'k \<Rightarrow> ('k, 'v) smap \<Rightarrow> ('k, 'v) smap" where
  "merase k m = filter (\<lambda>kv. fst kv \<noteq> k) m"

definition msorted :: "('k::linorder, 'v) smap \<Rightarrow> bool" where
  "msorted m \<longleftrightarrow> sorted_wrt (<) (map fst m)"

definition map_list :: "('k::linorder \<times> 'v) list \<Rightarrow> ('k, 'v) smap" where
  "map_list kvs = foldl (\<lambda>m (k, v). mput k v m) [] kvs"

lemma msorted_Nil [simp]: "msorted []"
  by (simp add: msorted_def)

lemma msorted_Cons [simp]: "msorted ((k, v) # m) \<longleftrightarrow> (\<forall>k' \<in> fst ` set m. k < k') \<and> msorted m"
  by (auto simp: msorted_def)

lemma map_of_mput [simp]: "map_of (mput k v m) = (map_of m)(k \<mapsto> v)"
  by (induction k v m rule: mput.induct) auto

lemma map_of_merase [simp]: "map_of (merase k m) = (map_of m)(k := None)"
  by (induction m) (auto simp: merase_def)

lemma keys_mput [simp]: "fst ` set (mput k v m) = insert k (fst ` set m)"
  by (induction k v m rule: mput.induct) auto

lemma keys_merase [simp]: "fst ` set (merase k m) = fst ` set m - {k}"
  by (auto simp: merase_def)

lemma msorted_mput [simp, intro]: "msorted m \<Longrightarrow> msorted (mput k v m)"
  by (induction k v m rule: mput.induct) auto

lemma msorted_merase [simp, intro]: "msorted m \<Longrightarrow> msorted (merase k m)"
  by (induction m) (auto simp: merase_def)

lemma set_mput: "msorted m \<Longrightarrow> set (mput k v m) = insert (k, v) {kv \<in> set m. fst kv \<noteq> k}"
  by (induction k v m rule: mput.induct) (force simp: image_iff)+

lemma map_of_Some_iff_set: "msorted m \<Longrightarrow> map_of m k = Some v \<longleftrightarrow> (k, v) \<in> set m"
proof (induction m)
  case (Cons kv m)
  then show ?case by (cases kv) (force simp: image_iff)
qed simp

lemma msorted_distinct: "msorted m \<Longrightarrow> distinct (map fst m)"
  by (auto simp: msorted_def intro: strict_sorted_imp_sorted dest: strict_sorted_iff [THEN iffD1])

lemma smap_eqI:
  assumes "msorted m" "msorted m'" "map_of m = map_of m'"
  shows "m = m'"
  using assms
proof (induction m arbitrary: m')
  case Nil
  then show ?case by (metis map_of.simps(1) map_of_eq_empty_iff)
next
  case (Cons kv m)
  obtain k v where kv: "kv = (k, v)" by (cases kv)
  obtain k' v' n where m': "m' = (k', v') # n"
    using Cons.prems(3) kv by (cases m') (auto dest: fun_cong [of _ _ k])
  have k: "k = k'"
  proof (rule ccontr)
    assume "k \<noteq> k'"
    then have "k \<in> fst ` set n" "k' \<in> fst ` set m"
      using fun_cong [OF Cons.prems(3), of k] fun_cong [OF Cons.prems(3), of k'] kv m'
      by (auto dest!: map_of_SomeD sym [of "Some _"] intro: rev_image_eqI)
    then show False using Cons.prems(1,2) kv m' by force
  qed
  with Cons.prems(3) kv m' have v: "v = v'" by (auto dest: fun_cong [of _ _ k])
  have nk: "map_of m k = None" "map_of n k = None"
    using Cons.prems(1,2) kv m' k by (force simp: map_of_eq_None_iff)+
  have "map_of m x = map_of n x" for x
    using fun_cong [OF Cons.prems(3), of x] kv m' k nk by (cases "x = k") auto
  then have "m = n" using Cons.IH [of n] Cons.prems(1,2) kv m' by auto
  with kv m' k v show ?case by simp
qed

subsection \<open>The contract of a map\<close>

locale ordered_map =
  fixes empty :: "'m"
    and find :: "'m \<Rightarrow> 'k \<Rightarrow> 'v option"
    and put :: "'k \<Rightarrow> 'v \<Rightarrow> 'm \<Rightarrow> 'm"
    and erase :: "'k \<Rightarrow> 'm \<Rightarrow> 'm"
    and inv :: "'m \<Rightarrow> bool"
  assumes find_empty: "find empty k = None"
    and find_put: "inv m \<Longrightarrow> find (put k v m) = (find m)(k \<mapsto> v)"
    and find_erase: "inv m \<Longrightarrow> find (erase k m) = (find m)(k := None)"
    and inv_empty: "inv empty"
    and inv_put: "inv m \<Longrightarrow> inv (put k v m)"
    and inv_erase: "inv m \<Longrightarrow> inv (erase k m)"
    and find_ext: "inv m \<Longrightarrow> inv m' \<Longrightarrow> find m = find m' \<Longrightarrow> m = m'"
begin

lemma erase_put_fresh: "inv m \<Longrightarrow> find m k = None \<Longrightarrow> erase k (put k v m) = m"
  by (rule find_ext) (auto simp: find_put find_erase inv_put inv_erase)

lemma erase_absent: "inv m \<Longrightarrow> find m k = None \<Longrightarrow> erase k m = m"
  by (rule find_ext) (auto simp: find_erase inv_erase)

lemma put_overwrites: "inv m \<Longrightarrow> put k w (put k v m) = put k w m"
  by (rule find_ext) (auto simp: find_put inv_put)

lemma put_commute: "inv m \<Longrightarrow> k \<noteq> k' \<Longrightarrow> put k v (put k' v' m) = put k' v' (put k v m)"
  by (rule find_ext) (auto simp: find_put inv_put)

lemma put_after_erase: "inv m \<Longrightarrow> put k v (erase k m) = put k v m"
  by (rule find_ext) (auto simp: find_put find_erase inv_put inv_erase)

lemma put_present: "inv m \<Longrightarrow> find m k = Some v \<Longrightarrow> put k v m = m"
  by (rule find_ext) (auto simp: find_put inv_put)

end

interpretation std: ordered_map "[]" map_of mput merase msorted
  by unfold_locales (auto intro: smap_eqI)

lemma map_list_Nil [simp]: "map_list [] = []"
  by (simp add: map_list_def)

lemma map_list_snoc: "map_list (kvs @ [(k, v)]) = mput k v (map_list kvs)"
  by (simp add: map_list_def)

lemma msorted_map_list [simp, intro]: "msorted (map_list kvs)"
  by (induction kvs rule: rev_induct) (auto simp: map_list_snoc)

lemma map_of_map_list: "map_of (map_list kvs) = map_of (rev kvs)"
  by (induction kvs rule: rev_induct) (auto simp: map_list_snoc)

text \<open>Inserting entries that are already in ascending order keeps the list as it is.\<close>

lemma mput_largest: "\<forall>k' \<in> fst ` set m. k' < k \<Longrightarrow> mput k v m = m @ [(k, v)]"
  by (induction m) (auto simp: not_less_iff_gr_or_eq)

lemma msorted_snoc [simp]: "msorted (m @ [(k, v)]) \<longleftrightarrow> msorted m \<and> (\<forall>k' \<in> fst ` set m. k' < k)"
  by (auto simp: msorted_def sorted_wrt_append)

lemma map_list_sorted [simp]: "msorted m \<Longrightarrow> map_list m = m"
proof (induction m rule: rev_induct)
  case (snoc kv m)
  then show ?case by (cases kv) (simp add: map_list_snoc mput_largest)
qed simp

end
