(* ===== verification/Json.thy ===== *)
theory Json
  imports Std_Map
begin

text \<open>
  The value type of \<open>nlohmann::json\<close> 3.11.3 (third_party/nlohmann/json.hpp) and the members the
  sources call on it: \<open>contains\<close>, \<open>at\<close>, \<open>operator[]\<close>, \<open>value\<close>, \<open>get<T>\<close>, \<open>size\<close>, the type
  tests and the constructors from C++ values. Integers keep the library's three kinds
  (unsigned 64 bit, signed 64 bit, IEEE double given by its bit pattern); an object is a
  \<open>std::map\<close>, so its entries are in ascending key order (\<open>wf_json\<close>). Every conversion that throws
  is a branch with the library's exception number. Binary values do not occur here.
\<close>

datatype json =
    JNull
  | JBool bool
  | JInteger u64
  | JUnsigned u64
  | JFloat u64
  | JString string
  | JArray "json list"
  | JObject "(string \<times> json) list"

fun wf_json :: "json \<Rightarrow> bool" where
  "wf_json (JArray js) = list_all wf_json js"
| "wf_json (JObject kvs) = (msorted kvs \<and> list_all (\<lambda>kv. wf_json (snd kv)) kvs)"
| "wf_json _ = True"

fun is_object :: "json \<Rightarrow> bool" where
  "is_object (JObject _) = True"
| "is_object _ = False"

fun is_array :: "json \<Rightarrow> bool" where
  "is_array (JArray _) = True"
| "is_array _ = False"

fun is_null :: "json \<Rightarrow> bool" where
  "is_null JNull = True"
| "is_null _ = False"

fun is_string :: "json \<Rightarrow> bool" where
  "is_string (JString _) = True"
| "is_string _ = False"

lemma is_object_iff: "is_object j \<longleftrightarrow> (\<exists>m. j = JObject m)"
  by (cases j) auto

lemma is_array_iff: "is_array j \<longleftrightarrow> (\<exists>xs. j = JArray xs)"
  by (cases j) auto

subsection \<open>Element access\<close>

fun json_contains :: "json \<Rightarrow> string \<Rightarrow> bool" where
  "json_contains (JObject m) k = (map_of m k \<noteq> None)"
| "json_contains _ k = False"

fun json_at :: "json \<Rightarrow> string \<Rightarrow> json result" where
  "json_at (JObject m) k =
     (case map_of m k of Some v \<Rightarrow> Inr v | None \<Rightarrow> Inl (JsonOutOfRange 403))"
| "json_at _ k = Inl (JsonTypeError 304)"

text \<open>
  The two overloads of \<open>operator[]\<close> with a key. On a const value a missing key violates
  \<open>JSON_ASSERT\<close>; on a mutable value null becomes an object and a missing key is inserted as null.
\<close>

fun json_index_const :: "json \<Rightarrow> string \<Rightarrow> json result" where
  "json_index_const (JObject m) k = (case map_of m k of Some v \<Rightarrow> Inr v | None \<Rightarrow> Inl Undefined)"
| "json_index_const _ k = Inl (JsonTypeError 305)"

fun json_index_mut :: "json \<Rightarrow> string \<Rightarrow> json result" where
  "json_index_mut JNull k = Inr JNull"
| "json_index_mut (JObject m) k = (case map_of m k of Some v \<Rightarrow> Inr v | None \<Rightarrow> Inr JNull)"
| "json_index_mut _ k = Inl (JsonTypeError 305)"

text \<open>\<open>j[k] = v\<close> on a mutable value.\<close>

fun json_assign :: "json \<Rightarrow> string \<Rightarrow> json \<Rightarrow> json result" where
  "json_assign JNull k v = Inr (JObject [(k, v)])"
| "json_assign (JObject m) k v = Inr (JObject (mput k v m))"
| "json_assign _ k v = Inl (JsonTypeError 305)"

text \<open>Iteration: the entries of an object (\<open>items()\<close>), the elements of an array.\<close>

fun json_items :: "json \<Rightarrow> (string \<times> json) list" where
  "json_items (JObject m) = m"
| "json_items _ = []"

fun json_elements :: "json \<Rightarrow> json list" where
  "json_elements (JArray xs) = xs"
| "json_elements _ = []"

fun json_size :: "json \<Rightarrow> nat" where
  "json_size JNull = 0"
| "json_size (JArray xs) = length xs"
| "json_size (JObject m) = length m"
| "json_size _ = 1"

subsection \<open>IEEE doubles, as far as the conversions need them\<close>

text \<open>
  \<open>static_cast<int>(double)\<close> truncates towards zero and is undefined when the result does not fit
  (or on a NaN or an infinity). \<open>double_trunc\<close> reads the bit pattern: sign, eleven bits of exponent,
  52 bits of fraction.
\<close>

definition double_exp :: "u64 \<Rightarrow> nat" where
  "double_exp w = (unat w div 2 ^ 52) mod 2 ^ 11"

definition double_frac :: "u64 \<Rightarrow> nat" where
  "double_frac w = unat w mod 2 ^ 52"

definition double_neg :: "u64 \<Rightarrow> bool" where
  "double_neg w \<longleftrightarrow> 2 ^ 63 \<le> unat w"

definition double_finite :: "u64 \<Rightarrow> bool" where
  "double_finite w \<longleftrightarrow> double_exp w \<noteq> 2047"

definition double_trunc :: "u64 \<Rightarrow> int option" where
  "double_trunc w =
     (let e = double_exp w; m = 2 ^ 52 + double_frac w;
          a = (if e < 1023 then 0
               else if e \<le> 1075 then m div 2 ^ (1075 - e)
               else m * 2 ^ (e - 1075))
      in if e = 2047 then None else Some (if double_neg w then - int a else int a))"

text \<open>
  \<open>static_cast<double>\<close> of a 64-bit integer, round to nearest, ties to even. \<open>bit_len n\<close> is the
  number of bits of \<open>n\<close>; a fraction that rounds up to \<open>2 ^ 53\<close> carries into the exponent.
\<close>

fun bit_len :: "nat \<Rightarrow> nat" where
  "bit_len n = (if n = 0 then 0 else Suc (bit_len (n div 2)))"

declare bit_len.simps [simp del]

definition round_shift :: "nat \<Rightarrow> nat \<Rightarrow> nat" where
  "round_shift n s =
     (let q = n div 2 ^ s; r = n mod 2 ^ s; h = 2 ^ s div 2
      in if r > h \<or> (r = h \<and> odd q) then q + 1 else q)"

definition double_of_nat :: "nat \<Rightarrow> u64" where
  "double_of_nat n =
     (if n = 0 then 0
      else let e = bit_len n - 1;
               m = (if e \<le> 52 then n * 2 ^ (52 - e) else round_shift n (e - 52))
           in word_of_nat ((e + 1023) * 2 ^ 52 + (m - 2 ^ 52)))"

definition double_of_int :: "int \<Rightarrow> u64" where
  "double_of_int i =
     (if i < 0 then double_of_nat (nat (- i)) + 2 ^ 63 else double_of_nat (nat i))"

subsection \<open>Conversions to C++ types\<close>

fun get_string :: "json \<Rightarrow> string result" where
  "get_string (JString s) = Inr s"
| "get_string _ = Inl (JsonTypeError 302)"

fun get_bool :: "json \<Rightarrow> bool result" where
  "get_bool (JBool b) = Inr b"
| "get_bool _ = Inl (JsonTypeError 302)"

text \<open>
  \<open>get<int>\<close>: the overload for arithmetic types other than the library's own takes booleans too;
  64-bit integers are truncated to 32 bits.
\<close>

fun get_int :: "json \<Rightarrow> int32 result" where
  "get_int (JUnsigned w) = Inr (ucast w)"
| "get_int (JInteger w) = Inr (ucast w)"
| "get_int (JFloat w) =
     (case double_trunc w of
        None \<Rightarrow> Inl Undefined
      | Some i \<Rightarrow> if - (2 ^ 31) \<le> i \<and> i < 2 ^ 31 then Inr (word_of_int i) else Inl Undefined)"
| "get_int (JBool b) = Inr (if b then 1 else 0)"
| "get_int _ = Inl (JsonTypeError 302)"

text \<open>\<open>get<double>\<close>: \<open>number_float_t\<close> itself, which takes numbers only.\<close>

fun get_double :: "json \<Rightarrow> u64 result" where
  "get_double (JUnsigned w) = Inr (double_of_int (uint w))"
| "get_double (JInteger w) = Inr (double_of_int (sint w))"
| "get_double (JFloat w) = Inr w"
| "get_double _ = Inl (JsonTypeError 302)"

fun get_string_vec :: "json \<Rightarrow> string list result" where
  "get_string_vec (JArray js) = map_res get_string js"
| "get_string_vec _ = Inl (JsonTypeError 302)"

text \<open>\<open>j.value(k, d)\<close>: type error 306 unless \<open>j\<close> is an object; the default when \<open>k\<close> is absent.\<close>

fun json_value :: "(json \<Rightarrow> 'a result) \<Rightarrow> json \<Rightarrow> string \<Rightarrow> 'a \<Rightarrow> 'a result" where
  "json_value g (JObject m) k d = (case map_of m k of Some v \<Rightarrow> g v | None \<Rightarrow> Inr d)"
| "json_value g _ k d = Inl (JsonTypeError 306)"

subsection \<open>Constructors from C++ values\<close>

definition json_of_int :: "int32 \<Rightarrow> json" where
  "json_of_int i = JInteger (scast i)"

definition of_string_vec :: "string list \<Rightarrow> json" where
  "of_string_vec ss = JArray (map JString ss)"

text \<open>\<open>json{{k, v}, ...}\<close>: an initializer list of pairs with string keys.\<close>

definition json_object :: "(string \<times> json) list \<Rightarrow> json" where
  "json_object kvs = JObject (map_list kvs)"

lemma get_int_json_of_int [simp]: "get_int (json_of_int i) = Inr i"
proof -
  have top: "n = 31" if "31 \<le> n" "n < 32" for n :: nat using that by simp
  have "ucast (scast i :: u64) = i"
    by (rule bit_word_eqI) (auto simp: bit_unsigned_iff bit_signed_iff min_def dest: top)
  then show ?thesis by (simp add: json_of_int_def)
qed

lemma get_string_vec_of [simp]: "get_string_vec (of_string_vec ss) = Inr ss"
proof -
  have "map_res get_string (map JString ss) = Inr ss" by (induction ss) auto
  then show ?thesis by (simp add: of_string_vec_def)
qed

lemma wf_of_string_vec [simp]: "wf_json (of_string_vec ss)"
  by (simp add: of_string_vec_def list_all_iff)

lemma wf_json_of_int [simp]: "wf_json (json_of_int i)"
  by (simp add: json_of_int_def)

lemma wf_json_mput:
  "wf_json (JObject m) \<Longrightarrow> wf_json v \<Longrightarrow> wf_json (JObject (mput k v m))"
  by (auto simp: set_mput list_all_iff)

lemma wf_json_object: "list_all (\<lambda>kv. wf_json (snd kv)) kvs \<Longrightarrow> wf_json (json_object kvs)"
proof (induction kvs rule: rev_induct)
  case (snoc kv kvs)
  then show ?case
    by (cases kv) (simp add: json_object_def map_list_snoc wf_json_mput del: wf_json.simps)
qed (simp add: json_object_def)

lemma json_value_object [simp]:
  "json_value g (json_object kvs) k d =
     (case map_of (rev kvs) k of Some v \<Rightarrow> g v | None \<Rightarrow> Inr d)"
  by (simp add: json_object_def map_of_map_list)

lemma json_contains_object [simp]: "json_contains (json_object kvs) k \<longleftrightarrow> k \<in> fst ` set kvs"
  by (simp add: json_object_def map_of_map_list map_of_eq_None_iff)

lemma json_at_object [simp]:
  "json_at (json_object kvs) k =
     (case map_of (rev kvs) k of Some v \<Rightarrow> Inr v | None \<Rightarrow> Inl (JsonOutOfRange 403))"
  by (simp add: json_object_def map_of_map_list)

lemma is_object_object [simp]: "is_object (json_object kvs)"
  by (simp add: json_object_def)

text \<open>\<open>contains\<close> guards \<open>at\<close>: the pattern of the \<open>from_json\<close> functions never throws 403 or 304.\<close>

lemma contains_at: "json_contains j k \<Longrightarrow> \<exists>v. json_at j k = Inr v"
  by (cases j) auto

subsection \<open>Reading a struct field by field\<close>

text \<open>
  The \<open>from_json\<close> functions are sequences of two kinds of statement,
  \<open>x.f = j.value("f", d)\<close> and \<open>if (j.contains("f")) x.f = j.at("f").get<T>()\<close>, run in order;
  the first exception ends the function.
\<close>

definition read_field ::
  "(json \<Rightarrow> 'a result) \<Rightarrow> json \<Rightarrow> string \<Rightarrow> 'a \<Rightarrow> ('a \<Rightarrow> 'r \<Rightarrow> 'r) \<Rightarrow> 'r \<Rightarrow> 'r result" where
  "read_field g j k d upd r = bind_res (json_value g j k d) (\<lambda>v. Inr (upd v r))"

definition read_if_contains ::
  "(json \<Rightarrow> 'a result) \<Rightarrow> json \<Rightarrow> string \<Rightarrow> ('a \<Rightarrow> 'r \<Rightarrow> 'r) \<Rightarrow> 'r \<Rightarrow> 'r result" where
  "read_if_contains g j k upd r =
     (if json_contains j k then bind_res (json_at j k) (\<lambda>v. bind_res (g v) (\<lambda>x. Inr (upd x r)))
      else Inr r)"

fun seq_res :: "('r \<Rightarrow> 'r result) list \<Rightarrow> 'r \<Rightarrow> 'r result" where
  "seq_res [] r = Inr r"
| "seq_res (f # fs) r = bind_res (f r) (seq_res fs)"

text \<open>When a field is readable: absent, or of the right type.\<close>

definition field_ok :: "(json \<Rightarrow> 'a result) \<Rightarrow> json \<Rightarrow> string \<Rightarrow> bool" where
  "field_ok g j k =
     (case j of JObject m \<Rightarrow>
        (case map_of m k of None \<Rightarrow> True
         | Some v \<Rightarrow> (case g v of Inl _ \<Rightarrow> False | Inr _ \<Rightarrow> True))
      | _ \<Rightarrow> False)"

lemma read_field_ok_iff: "(\<exists>r'. read_field g j k d upd r = Inr r') \<longleftrightarrow> field_ok g j k"
  by (cases j) (auto simp: read_field_def field_ok_def split: option.splits sum.splits)

lemma read_if_contains_ok_iff:
  "is_object j \<Longrightarrow> (\<exists>r'. read_if_contains g j k upd r = Inr r') \<longleftrightarrow> field_ok g j k"
  by (cases j) (auto simp: read_if_contains_def field_ok_def split: option.splits sum.splits)

lemma field_ok_object: "field_ok g j k \<Longrightarrow> is_object j"
  by (cases j) (auto simp: field_ok_def)

text \<open>A sequence of reads succeeds exactly when each of them does: none depends on the record.\<close>

lemma seq_res_Cons_ok_iff:
  assumes "\<And>r. (\<exists>x. f r = Inr x) \<longleftrightarrow> P"
    and "\<And>r. (\<exists>x. seq_res fs r = Inr x) \<longleftrightarrow> Q"
  shows "(\<exists>x. seq_res (f # fs) r = Inr x) \<longleftrightarrow> P \<and> Q"
proof (cases "f r")
  case (Inl e)
  with assms(1) [of r] show ?thesis by simp
next
  case (Inr r')
  with assms(1) [of r] assms(2) [of r'] show ?thesis by simp
qed

subsection \<open>Which exceptions a reader throws\<close>

text \<open>
  A conversion can only fail with type error 302 (wrong type) or, for a double that does not fit
  \<open>int\<close>, with undefined behaviour; \<open>value\<close> adds type error 306 (not an object).
\<close>

definition conv_error :: "exn \<Rightarrow> bool" where
  "conv_error e \<longleftrightarrow> e \<in> {JsonTypeError 302, JsonTypeError 306, Undefined}"

definition fails_with :: "(exn \<Rightarrow> bool) \<Rightarrow> ('r \<Rightarrow> 'a result) \<Rightarrow> bool" where
  "fails_with P f \<longleftrightarrow> (\<forall>r e. f r = Inl e \<longrightarrow> P e)"

named_theorems fails_intros "exceptions of readers, compositionally"

lemma fails_with_convs [fails_intros, intro]:
  "fails_with conv_error get_string" "fails_with conv_error get_bool"
  "fails_with conv_error get_int" "fails_with conv_error get_double" "fails_with P Inr"
  by (auto simp: fails_with_def conv_error_def split: option.splits if_splits
      elim!: get_string.elims get_bool.elims get_int.elims get_double.elims)

lemma fails_map_res: "fails_with P f \<Longrightarrow> map_res f xs = Inl e \<Longrightarrow> P e"
  by (induction xs) (auto simp: bind_res_Inl_iff fails_with_def)

lemma fails_string_vec [fails_intros]: "fails_with conv_error get_string_vec"
  unfolding fails_with_def
proof (intro allI impI)
  fix j e
  assume "get_string_vec j = Inl e"
  then show "conv_error e"
    using fails_map_res [OF fails_with_convs(1)]
    by (cases j) (auto simp: conv_error_def)
qed

lemma fails_read_field [fails_intros]:
  "fails_with conv_error g \<Longrightarrow> fails_with conv_error (read_field g j k d upd)"
  by (cases j) (auto simp: fails_with_def read_field_def bind_res_Inl_iff conv_error_def
      split: option.splits)

lemma fails_read_if_contains [fails_intros]:
  "fails_with conv_error g \<Longrightarrow> fails_with conv_error (read_if_contains g j k upd)"
  by (cases j) (auto simp: fails_with_def read_if_contains_def bind_res_Inl_iff split: option.splits)

lemma fails_seq_res [fails_intros]:
  "fails_with P (seq_res [])"
  "fails_with P f \<Longrightarrow> fails_with P (seq_res fs) \<Longrightarrow> fails_with P (seq_res (f # fs))"
  by (auto simp: fails_with_def bind_res_Inl_iff)

lemma fails_for_res [fails_intros]: "(\<And>x. fails_with P (f x)) \<Longrightarrow> fails_with P (for_res f xs)"
proof -
  assume f: "\<And>x. fails_with P (f x)"
  have "for_res f xs r = Inl e \<Longrightarrow> P e" for r e
    using f by (induction xs arbitrary: r) (auto simp: fails_with_def bind_res_Inl_iff)
  then show ?thesis by (simp add: fails_with_def)
qed

lemma fails_bind [fails_intros]:
  "fails_with P f \<Longrightarrow> (\<And>x. fails_with P (\<lambda>r. g r x)) \<Longrightarrow> fails_with P (\<lambda>r. bind_res (f r) (g r))"
  by (auto simp: fails_with_def bind_res_Inl_iff)

lemma fails_comp: "fails_with P f \<Longrightarrow> fails_with P (\<lambda>r. f (h r))"
  by (simp add: fails_with_def)

lemma fails_Inr [fails_intros]: "fails_with P (\<lambda>r. Inr (h r))"
  by (simp add: fails_with_def)

lemmas fails_get_string [fails_intros] = fails_comp [OF fails_with_convs(1)]

lemma fails_case_prod [fails_intros]:
  "(\<And>a b. fails_with P (f a b)) \<Longrightarrow> fails_with P (case x of (a, b) \<Rightarrow> f a b)"
  by (cases x) simp

lemma fails_withD: "fails_with P f \<Longrightarrow> f r = Inl e \<Longrightarrow> P e"
  by (simp add: fails_with_def)

end
