(* ===== verification/Common_Models.thy ===== *)
theory Common_Models
  imports Json
begin

text \<open>
  The shared models of src/common: \<open>UnifiedItem\<close>, one scraped post or comment with the fields the
  LLM adds, and \<open>RunStatus\<close>; with their conversions to and from JSON (src/common/models.cpp).
  The lemmas: writing and reading back gives the same item, whatever the item was before; which
  JSON values are read at all; what a missing field leaves in place.
\<close>

record unified_item =
  ui_platform :: string
  ui_item_id :: string
  ui_item_type :: string
  ui_author_id :: string
  ui_author_name :: string
  ui_content_text :: string
  ui_content_media :: "string list"
  ui_url :: string
  ui_published_at :: string
  ui_fetched_at :: string
  ui_metrics :: json
  ui_llm_relevance_score :: int32
  ui_llm_relevance_reason :: string
  ui_llm_summary :: string
  ui_llm_tags :: "string list"
  ui_llm_key_points :: "string list"

text \<open>The member initialisers of the struct.\<close>

definition default_item :: unified_item where
  "default_item =
     \<lparr>ui_platform = [], ui_item_id = [], ui_item_type = ''post'', ui_author_id = [],
      ui_author_name = [], ui_content_text = [], ui_content_media = [], ui_url = [],
      ui_published_at = [], ui_fetched_at = [], ui_metrics = JNull,
      ui_llm_relevance_score = 0, ui_llm_relevance_reason = [], ui_llm_summary = [],
      ui_llm_tags = [], ui_llm_key_points = []\<rparr>"

definition item_from_json :: "json \<Rightarrow> unified_item \<Rightarrow> unified_item result" where
  "item_from_json j = seq_res
     [read_field get_string j ''platform'' [] (\<lambda>v. ui_platform_update (\<lambda>_. v)),
      read_field get_string j ''item_id'' [] (\<lambda>v. ui_item_id_update (\<lambda>_. v)),
      read_field get_string j ''item_type'' ''post'' (\<lambda>v. ui_item_type_update (\<lambda>_. v)),
      read_field get_string j ''author_id'' [] (\<lambda>v. ui_author_id_update (\<lambda>_. v)),
      read_field get_string j ''author_name'' [] (\<lambda>v. ui_author_name_update (\<lambda>_. v)),
      read_field get_string j ''content_text'' [] (\<lambda>v. ui_content_text_update (\<lambda>_. v)),
      read_if_contains get_string_vec j ''content_media'' (\<lambda>v. ui_content_media_update (\<lambda>_. v)),
      read_field get_string j ''url'' [] (\<lambda>v. ui_url_update (\<lambda>_. v)),
      read_field get_string j ''published_at'' [] (\<lambda>v. ui_published_at_update (\<lambda>_. v)),
      read_field get_string j ''fetched_at'' [] (\<lambda>v. ui_fetched_at_update (\<lambda>_. v)),
      read_if_contains Inr j ''metrics'' (\<lambda>v. ui_metrics_update (\<lambda>_. v)),
      read_field get_int j ''llm_relevance_score'' 0 (\<lambda>v. ui_llm_relevance_score_update (\<lambda>_. v)),
      read_field get_string j ''llm_relevance_reason'' []
        (\<lambda>v. ui_llm_relevance_reason_update (\<lambda>_. v)),
      read_field get_string j ''llm_summary'' [] (\<lambda>v. ui_llm_summary_update (\<lambda>_. v)),
      read_if_contains get_string_vec j ''llm_tags'' (\<lambda>v. ui_llm_tags_update (\<lambda>_. v)),
      read_if_contains get_string_vec j ''llm_key_points''
        (\<lambda>v. ui_llm_key_points_update (\<lambda>_. v))]"

definition item_to_json :: "unified_item \<Rightarrow> json" where
  "item_to_json i = json_object
     [(''platform'', JString (ui_platform i)),
      (''item_id'', JString (ui_item_id i)),
      (''item_type'', JString (ui_item_type i)),
      (''author_id'', JString (ui_author_id i)),
      (''author_name'', JString (ui_author_name i)),
      (''content_text'', JString (ui_content_text i)),
      (''content_media'', of_string_vec (ui_content_media i)),
      (''url'', JString (ui_url i)),
      (''published_at'', JString (ui_published_at i)),
      (''fetched_at'', JString (ui_fetched_at i)),
      (''metrics'', ui_metrics i),
      (''llm_relevance_score'', json_of_int (ui_llm_relevance_score i)),
      (''llm_relevance_reason'', JString (ui_llm_relevance_reason i)),
      (''llm_summary'', JString (ui_llm_summary i)),
      (''llm_tags'', of_string_vec (ui_llm_tags i)),
      (''llm_key_points'', of_string_vec (ui_llm_key_points i))]"

record run_status =
  rs_running :: bool
  rs_current_task :: string
  rs_progress :: string

definition status_from_json :: "json \<Rightarrow> run_status \<Rightarrow> run_status result" where
  "status_from_json j = seq_res
     [read_field get_bool j ''running'' False (\<lambda>v. rs_running_update (\<lambda>_. v)),
      read_field get_string j ''current_task'' [] (\<lambda>v. rs_current_task_update (\<lambda>_. v)),
      read_field get_string j ''progress'' [] (\<lambda>v. rs_progress_update (\<lambda>_. v))]"

definition status_to_json :: "run_status \<Rightarrow> json" where
  "status_to_json s = json_object
     [(''running'', JBool (rs_running s)),
      (''current_task'', JString (rs_current_task s)),
      (''progress'', JString (rs_progress s))]"

subsection \<open>Reading back what was written\<close>

lemma item_to_json_wf: "wf_json (ui_metrics i) \<Longrightarrow> wf_json (item_to_json i)"
  unfolding item_to_json_def by (rule wf_json_object) simp

text \<open>Reading from the members of a JSON object, field by field.\<close>

lemma item_from_json_members:
  assumes "\<And>k. map_of m k = map_of (rev
     [(''platform'', JString (ui_platform i)),
      (''item_id'', JString (ui_item_id i)),
      (''item_type'', JString (ui_item_type i)),
      (''author_id'', JString (ui_author_id i)),
      (''author_name'', JString (ui_author_name i)),
      (''content_text'', JString (ui_content_text i)),
      (''content_media'', of_string_vec (ui_content_media i)),
      (''url'', JString (ui_url i)),
      (''published_at'', JString (ui_published_at i)),
      (''fetched_at'', JString (ui_fetched_at i)),
      (''metrics'', mt),
      (''llm_relevance_score'', sc),
      (''llm_relevance_reason'', JString (ui_llm_relevance_reason i)),
      (''llm_summary'', JString (ui_llm_summary i)),
      (''llm_tags'', of_string_vec (ui_llm_tags i)),
      (''llm_key_points'', of_string_vec (ui_llm_key_points i))]) k"
    and "get_int sc = Inr (ui_llm_relevance_score i)"
  shows "item_from_json (JObject m) i0 = Inr (i\<lparr>ui_metrics := mt\<rparr>)"
  unfolding item_from_json_def read_field_def read_if_contains_def by (simp add: assms)

lemma item_json_roundtrip: "item_from_json (item_to_json i) i0 = Inr i"
proof -
  have "item_from_json (item_to_json i) i0 = Inr (i\<lparr>ui_metrics := ui_metrics i\<rparr>)"
    unfolding item_to_json_def json_object_def
    by (rule item_from_json_members [OF _ get_int_json_of_int]) (simp add: map_of_map_list)
  then show ?thesis by simp
qed

lemma status_json_roundtrip: "status_from_json (status_to_json s) s0 = Inr s"
  by (simp add: status_from_json_def status_to_json_def read_field_def)

subsection \<open>Which JSON values are items\<close>

lemma seq_res_Nil_ok_iff: "(\<exists>x. seq_res [] r = Inr x) \<longleftrightarrow> True"
  by simp

lemma item_from_json_ok_iff:
  "(\<exists>i. item_from_json j i0 = Inr i) \<longleftrightarrow> is_object j \<and>
     list_all (field_ok get_string j)
       [''platform'', ''item_id'', ''item_type'', ''author_id'', ''author_name'', ''content_text'', ''url'',
        ''published_at'', ''fetched_at'', ''llm_relevance_reason'', ''llm_summary''] \<and>
     list_all (field_ok get_string_vec j) [''content_media'', ''llm_tags'', ''llm_key_points''] \<and>
     field_ok get_int j ''llm_relevance_score''"
proof (cases "is_object j")
  case True
  have metrics: "field_ok Inr j k" for k
    using True by (cases j) (auto simp: field_ok_def split: option.split)
  have "(\<exists>i. item_from_json j i0 = Inr i) \<longleftrightarrow>
     field_ok get_string j ''platform'' \<and> field_ok get_string j ''item_id'' \<and>
     field_ok get_string j ''item_type'' \<and> field_ok get_string j ''author_id'' \<and>
     field_ok get_string j ''author_name'' \<and> field_ok get_string j ''content_text'' \<and>
     field_ok get_string_vec j ''content_media'' \<and> field_ok get_string j ''url'' \<and>
     field_ok get_string j ''published_at'' \<and> field_ok get_string j ''fetched_at'' \<and>
     field_ok Inr j ''metrics'' \<and> field_ok get_int j ''llm_relevance_score'' \<and>
     field_ok get_string j ''llm_relevance_reason'' \<and> field_ok get_string j ''llm_summary'' \<and>
     field_ok get_string_vec j ''llm_tags'' \<and> field_ok get_string_vec j ''llm_key_points'' \<and> True"
    unfolding item_from_json_def
    by (rule seq_res_Cons_ok_iff read_field_ok_iff read_if_contains_ok_iff [OF True] seq_res_Nil_ok_iff)+
  with True metrics show ?thesis by auto
next
  case False
  then have "\<not> field_ok get_string j ''platform''" using field_ok_object by blast
  then have "\<not> (\<exists>i. item_from_json j i0 = Inr i)"
    using read_field_ok_iff [of get_string j "''platform''" "[]" "\<lambda>v. ui_platform_update (\<lambda>_. v)" i0]
    by (auto simp: item_from_json_def bind_res_Inr_iff)
  with False show ?thesis by simp
qed

text \<open>The same in terms of the values of the members.\<close>

lemma field_ok_member:
  "field_ok g (JObject m) k \<longleftrightarrow> (\<forall>v. map_of m k = Some v \<longrightarrow> (\<exists>x. g v = Inr x))"
  by (auto simp: field_ok_def split: option.splits sum.splits)

lemma get_string_ok: "(\<exists>s. get_string v = Inr s) \<longleftrightarrow> (\<exists>s. v = JString s)"
  by (cases v) auto

lemma map_get_string_ok: "(\<exists>ss. map_res get_string js = Inr ss) \<longleftrightarrow> (\<exists>ss. js = map JString ss)"
proof (induction js)
  case (Cons j js)
  have "(\<exists>ss. map_res get_string (j # js) = Inr ss) \<longleftrightarrow>
      (\<exists>s. get_string j = Inr s) \<and> (\<exists>ss. map_res get_string js = Inr ss)"
    by (auto simp: bind_res_Inr_iff)
  then show ?case unfolding Cons.IH get_string_ok by (auto simp: Cons_eq_map_conv)
qed simp

lemma get_string_vec_ok: "(\<exists>ss. get_string_vec v = Inr ss) \<longleftrightarrow> (\<exists>ss. v = JArray (map JString ss))"
  by (cases v) (auto simp: map_get_string_ok)

lemma get_int_ok:
  "(\<exists>i. get_int v = Inr i) \<longleftrightarrow> (\<exists>w. v = JUnsigned w) \<or> (\<exists>w. v = JInteger w) \<or> (\<exists>b. v = JBool b) \<or>
     (\<exists>d t. v = JFloat d \<and> double_trunc d = Some t \<and> - (2 ^ 31) \<le> t \<and> t < 2 ^ 31)"
  by (cases v) (auto split: option.splits if_splits)

lemma item_from_json_members_iff:
  "(\<exists>i. item_from_json j i0 = Inr i) \<longleftrightarrow> (\<exists>m. j = JObject m \<and>
     (\<forall>k \<in> {''platform'', ''item_id'', ''item_type'', ''author_id'', ''author_name'', ''content_text'', ''url'',
        ''published_at'', ''fetched_at'', ''llm_relevance_reason'', ''llm_summary''}.
        \<forall>v. map_of m k = Some v \<longrightarrow> (\<exists>s. v = JString s)) \<and>
     (\<forall>k \<in> {''content_media'', ''llm_tags'', ''llm_key_points''}.
        \<forall>v. map_of m k = Some v \<longrightarrow> (\<exists>ss. v = JArray (map JString ss))) \<and>
     (\<forall>v. map_of m ''llm_relevance_score'' = Some v \<longrightarrow>
        (\<exists>w. v = JUnsigned w) \<or> (\<exists>w. v = JInteger w) \<or> (\<exists>b. v = JBool b) \<or>
        (\<exists>d t. v = JFloat d \<and> double_trunc d = Some t \<and> - (2 ^ 31) \<le> t \<and> t < 2 ^ 31)))"
  unfolding item_from_json_ok_iff
  by (cases j) (simp_all add: field_ok_member get_string_ok get_string_vec_ok get_int_ok)

text \<open>A member that is null is not a missing member.\<close>

lemma item_null_rejected: "item_from_json (JObject [(''content_media'', JNull)]) i0 = Inl (JsonTypeError 302)"
  by (simp add: item_from_json_def read_field_def read_if_contains_def)

lemma fails_item [fails_intros]: "fails_with conv_error (item_from_json j)"
  unfolding item_from_json_def by (intro fails_intros)

lemma fails_status [fails_intros]: "fails_with conv_error (status_from_json j)"
  unfolding status_from_json_def by (intro fails_intros)

end
