(* ===== verification/Json_Dump.thy ===== *)
theory Json_Dump
  imports Json
begin

text \<open>
  The serializer of \<open>nlohmann::json\<close> (third_party/nlohmann/json.hpp, \<open>class serializer\<close>), as
  \<open>dump()\<close> and \<open>dump(2)\<close> call it: strict error handler, \<open>ensure_ascii = false\<close>. Strings are
  checked byte by byte with the library's UTF-8 automaton (\<open>decode\<close> and its table \<open>utf8d\<close>); an
  ill-formed string throws type error 316. The conversion of a finite double to text
  (\<open>detail::to_chars\<close>) and \<open>std::strtod\<close> are parameters, the record \<open>float_io\<close>.
\<close>

record float_io =
  fio_to_chars :: "u64 \<Rightarrow> string"
  fio_strtod :: "string \<Rightarrow> u64"

subsection \<open>The UTF-8 automaton\<close>

definition utf8_types :: "nat list" where
  "utf8_types =
     replicate 128 0 @ replicate 16 1 @ replicate 16 9 @ replicate 32 7 @
     replicate 2 8 @ replicate 30 2 @
     [10, 3, 3, 3, 3, 3, 3, 3, 3, 3, 3, 3, 3, 4, 3, 3] @
     [11, 6, 6, 6, 5, 8, 8, 8, 8, 8, 8, 8, 8, 8, 8, 8]"

definition utf8_states :: "nat list" where
  "utf8_states =
     [0, 1, 2, 3, 5, 8, 7, 1, 1, 1, 4, 6, 1, 1, 1, 1,
      1, 1, 1, 1, 1, 1, 1, 1, 1, 1, 1, 1, 1, 1, 1, 1,
      1, 0, 1, 1, 1, 1, 1, 0, 1, 0, 1, 1, 1, 1, 1, 1,
      1, 2, 1, 1, 1, 1, 1, 2, 1, 2, 1, 1, 1, 1, 1, 1,
      1, 1, 1, 1, 1, 1, 1, 2, 1, 1, 1, 1, 1, 1, 1, 1,
      1, 2, 1, 1, 1, 1, 1, 1, 1, 2, 1, 1, 1, 1, 1, 1,
      1, 1, 1, 1, 1, 1, 1, 3, 1, 3, 1, 1, 1, 1, 1, 1,
      1, 3, 1, 1, 1, 1, 1, 3, 1, 3, 1, 1, 1, 1, 1, 1,
      1, 3, 1, 1, 1, 1, 1, 1, 1, 1, 1, 1, 1, 1, 1, 1]"

text \<open>The 400-entry table: the type of each byte, then one row of 16 entries per state.\<close>

definition utf8d :: "nat list" where
  "utf8d = utf8_types @ utf8_states"

text \<open>
  \<open>decode\<close>: the new state and code point. \<open>(byte & 0x3f) | (codep << 6)\<close> has no bit in common and
  \<open>(0xff >> type) & byte\<close> keeps the low \<open>8 - type\<close> bits, so both are written with \<open>mod\<close>.
\<close>

definition decode :: "nat \<Rightarrow> nat \<Rightarrow> nat \<Rightarrow> nat \<times> nat" where
  "decode state codep byte =
     (let ty = utf8d ! byte;
          cp = (if state \<noteq> 0 then byte mod 64 + codep * 64 else byte mod 2 ^ (8 - ty))
      in (utf8d ! (256 + state * 16 + ty), cp))"

subsection \<open>Strings\<close>

definition hex_char :: "nat \<Rightarrow> char" where
  "hex_char n = (if n < 10 then char_of (48 + n) else char_of (87 + n))"

definition hex4 :: "nat \<Rightarrow> string" where
  "hex4 n = [hex_char (n div 4096 mod 16), hex_char (n div 256 mod 16),
             hex_char (n div 16 mod 16), hex_char (n mod 16)]"

text \<open>What is written when a code point is complete; \<open>c\<close> is its last byte.\<close>

definition dump_codepoint :: "nat \<Rightarrow> char \<Rightarrow> string" where
  "dump_codepoint cp c =
     (if cp = 8 then [CHR 0x5C, CHR ''b'']
      else if cp = 9 then [CHR 0x5C, CHR ''t'']
      else if cp = 10 then [CHR 0x5C, CHR ''n'']
      else if cp = 12 then [CHR 0x5C, CHR ''f'']
      else if cp = 13 then [CHR 0x5C, CHR ''r'']
      else if cp = 34 then [CHR 0x5C, CHR 0x22]
      else if cp = 92 then [CHR 0x5C, CHR 0x5C]
      else if cp \<le> 31 then [CHR 0x5C, CHR ''u''] @ hex4 cp
      else [c])"

fun dump_escaped_from :: "nat \<Rightarrow> nat \<Rightarrow> string \<Rightarrow> string result" where
  "dump_escaped_from st cp [] = (if st = 0 then Inr [] else Inl (JsonTypeError 316))"
| "dump_escaped_from st cp (c # s) =
     (let (st', cp') = decode st cp (of_char c)
      in if st' = 1 then Inl (JsonTypeError 316)
         else if st' = 0 then
           bind_res (dump_escaped_from st' cp' s) (\<lambda>t. Inr (dump_codepoint cp' c @ t))
         else bind_res (dump_escaped_from st' cp' s) (\<lambda>t. Inr (c # t)))"

definition dump_escaped :: "string \<Rightarrow> string result" where
  "dump_escaped s = dump_escaped_from 0 0 s"

definition dump_quoted :: "string \<Rightarrow> string result" where
  "dump_quoted s = bind_res (dump_escaped s) (\<lambda>t. Inr (CHR 0x22 # t @ [CHR 0x22]))"

subsection \<open>Numbers\<close>

definition dump_integer :: "u64 \<Rightarrow> string" where
  "dump_integer w = int_str (sint w)"

definition dump_unsigned :: "u64 \<Rightarrow> string" where
  "dump_unsigned w = nat_str (unat w)"

definition dump_float :: "float_io \<Rightarrow> u64 \<Rightarrow> string" where
  "dump_float fl w = (if double_finite w then fio_to_chars fl w else ''null'')"

subsection \<open>Values\<close>

fun join :: "string \<Rightarrow> string list \<Rightarrow> string" where
  "join sep [] = []"
| "join sep [x] = x"
| "join sep (x # y # xs) = x @ sep @ join sep (y # xs)"

definition spaces :: "nat \<Rightarrow> string" where
  "spaces n = replicate n (CHR '' '')"

definition nl :: char where
  "nl = CHR 0x0A"

fun dump_val :: "float_io \<Rightarrow> bool \<Rightarrow> nat \<Rightarrow> nat \<Rightarrow> json \<Rightarrow> string result" where
  "dump_val fl pretty step cur JNull = Inr ''null''"
| "dump_val fl pretty step cur (JBool b) = Inr (if b then ''true'' else ''false'')"
| "dump_val fl pretty step cur (JInteger w) = Inr (dump_integer w)"
| "dump_val fl pretty step cur (JUnsigned w) = Inr (dump_unsigned w)"
| "dump_val fl pretty step cur (JFloat w) = Inr (dump_float fl w)"
| "dump_val fl pretty step cur (JString s) = dump_quoted s"
| "dump_val fl pretty step cur (JArray js) =
     (if js = [] then Inr ''[]''
      else if pretty then
        bind_res (map_res (\<lambda>j. bind_res (dump_val fl pretty step (cur + step) j)
                                 (\<lambda>t. Inr (spaces (cur + step) @ t))) js)
          (\<lambda>ts. Inr (''['' @ [nl] @ join ('','' @ [nl]) ts @ [nl] @ spaces cur @ '']''))
      else bind_res (map_res (dump_val fl pretty step cur) js)
             (\<lambda>ts. Inr (''['' @ join '','' ts @ '']'')))"
| "dump_val fl pretty step cur (JObject kvs) =
     (if kvs = [] then Inr ''{}''
      else if pretty then
        bind_res (map_res (\<lambda>kv. bind_res (dump_quoted (fst kv))
                    (\<lambda>k. bind_res (dump_val fl pretty step (cur + step) (snd kv))
                      (\<lambda>t. Inr (spaces (cur + step) @ k @ '': '' @ t)))) kvs)
          (\<lambda>ts. Inr (''{'' @ [nl] @ join ('','' @ [nl]) ts @ [nl] @ spaces cur @ ''}''))
      else bind_res (map_res (\<lambda>kv. bind_res (dump_quoted (fst kv))
                    (\<lambda>k. bind_res (dump_val fl pretty step cur (snd kv))
                      (\<lambda>t. Inr (k @ '':'' @ t)))) kvs)
             (\<lambda>ts. Inr (''{'' @ join '','' ts @ ''}'')))"

text \<open>\<open>dump()\<close> and \<open>dump(indent)\<close>.\<close>

definition json_dump :: "float_io \<Rightarrow> json \<Rightarrow> string result" where
  "json_dump fl j = dump_val fl False 0 0 j"

definition json_dump_indent :: "float_io \<Rightarrow> nat \<Rightarrow> json \<Rightarrow> string result" where
  "json_dump_indent fl indent j = dump_val fl True indent 0 j"

end
