(* ===== verification/Json_Parse.thy ===== *)
theory Json_Parse
  imports Json_Dump
begin

text \<open>
  The lexer and the parser of \<open>nlohmann::json\<close> (third_party/nlohmann/json.hpp, \<open>class lexer\<close> and
  \<open>class parser\<close>), as \<open>json::parse(std::string)\<close> runs them: no comments, strict, and either with
  exceptions or (\<open>parse(s, nullptr, false)\<close>) with a discarded value on error. The lexer is a
  function on the bytes still to be read; the parser is the library's loop over an explicit stack
  of open arrays and objects.
\<close>

datatype token =
    TBeginArray | TEndArray | TBeginObject | TEndObject | TNameSep | TValueSep
  | TTrue | TFalse | TNull
  | TString string | TUnsigned u64 | TInteger u64 | TFloat u64
  | TEnd | TError

subsection \<open>Strings\<close>

definition byte :: "char \<Rightarrow> nat" where
  "byte c = of_char c"

text \<open>\<open>get_codepoint\<close>: four hexadecimal digits.\<close>

definition hex_digit :: "char \<Rightarrow> nat option" where
  "hex_digit c =
     (if 48 \<le> byte c \<and> byte c \<le> 57 then Some (byte c - 48)
      else if 65 \<le> byte c \<and> byte c \<le> 70 then Some (byte c - 55)
      else if 97 \<le> byte c \<and> byte c \<le> 102 then Some (byte c - 87)
      else None)"

fun get_codepoint :: "string \<Rightarrow> (nat \<times> string) option" where
  "get_codepoint (a # b # c # d # s) =
     (case (hex_digit a, hex_digit b, hex_digit c, hex_digit d) of
        (Some a, Some b, Some c, Some d) \<Rightarrow> Some (a * 4096 + b * 256 + c * 16 + d, s)
      | _ \<Rightarrow> None)"
| "get_codepoint _ = None"

text \<open>The bytes of a code point.\<close>

definition utf8_encode :: "nat \<Rightarrow> string" where
  "utf8_encode cp = map char_of
     (if cp < 128 then [cp]
      else if cp \<le> 2047 then [192 + cp div 64, 128 + cp mod 64]
      else if cp \<le> 65535 then [224 + cp div 4096, 128 + cp div 64 mod 64, 128 + cp mod 64]
      else [240 + cp div 262144, 128 + cp div 4096 mod 64, 128 + cp div 64 mod 64,
            128 + cp mod 64])"

text \<open>\<open>\u\<close> escapes: a high surrogate must be followed by a low one.\<close>

definition scan_unicode :: "string \<Rightarrow> (string \<times> string) option" where
  "scan_unicode s =
     (case get_codepoint s of
        None \<Rightarrow> None
      | Some (cp1, s1) \<Rightarrow>
          if 55296 \<le> cp1 \<and> cp1 \<le> 56319 then
            (if starts_with [CHR 0x5C, CHR ''u''] s1 then
               (case get_codepoint (drop 2 s1) of
                  None \<Rightarrow> None
                | Some (cp2, s2) \<Rightarrow>
                    if 56320 \<le> cp2 \<and> cp2 \<le> 57343
                    then Some (utf8_encode (cp1 * 1024 + cp2 - 56613888), s2)
                    else None)
             else None)
          else if 56320 \<le> cp1 \<and> cp1 \<le> 57343 then None
          else Some (utf8_encode cp1, s1))"

definition scan_escape :: "string \<Rightarrow> (string \<times> string) option" where
  "scan_escape s =
     (case s of
        [] \<Rightarrow> None
      | c # t \<Rightarrow>
          if c = CHR 0x22 then Some ([CHR 0x22], t)
          else if c = CHR 0x5C then Some ([CHR 0x5C], t)
          else if c = CHR ''/'' then Some (''/'', t)
          else if c = CHR ''b'' then Some ([CHR 0x08], t)
          else if c = CHR ''f'' then Some ([CHR 0x0C], t)
          else if c = CHR ''n'' then Some ([CHR 0x0A], t)
          else if c = CHR ''r'' then Some ([CHR 0x0D], t)
          else if c = CHR ''t'' then Some ([CHR 0x09], t)
          else if c = CHR ''u'' then scan_unicode t
          else None)"

text \<open>
  The byte ranges that must follow a leading byte (the \<open>next_byte_in_range\<close> arguments of
  \<open>scan_string\<close>); \<open>None\<close> for a byte that may not start a character.
\<close>

definition utf8_follow :: "nat \<Rightarrow> (nat \<times> nat) list option" where
  "utf8_follow b =
     (if 32 \<le> b \<and> b \<le> 127 then Some []
      else if 194 \<le> b \<and> b \<le> 223 then Some [(128, 191)]
      else if b = 224 then Some [(160, 191), (128, 191)]
      else if 225 \<le> b \<and> b \<le> 236 \<or> b = 238 \<or> b = 239 then Some [(128, 191), (128, 191)]
      else if b = 237 then Some [(128, 159), (128, 191)]
      else if b = 240 then Some [(144, 191), (128, 191), (128, 191)]
      else if 241 \<le> b \<and> b \<le> 243 then Some [(128, 191), (128, 191), (128, 191)]
      else if b = 244 then Some [(128, 143), (128, 191), (128, 191)]
      else None)"

fun next_bytes_in_range :: "(nat \<times> nat) list \<Rightarrow> string \<Rightarrow> (string \<times> string) option" where
  "next_bytes_in_range [] s = Some ([], s)"
| "next_bytes_in_range (r # rs) [] = None"
| "next_bytes_in_range ((lo, hi) # rs) (c # s) =
     (if lo \<le> byte c \<and> byte c \<le> hi
      then map_option (\<lambda>(t, u). (c # t, u)) (next_bytes_in_range rs s) else None)"

lemma get_codepoint_length: "get_codepoint s = Some (cp, t) \<Longrightarrow> length t < length s"
  by (induction s rule: get_codepoint.induct) (auto split: option.splits)

lemma scan_unicode_length: "scan_unicode s = Some (x, t) \<Longrightarrow> length t < length s"
  by (auto simp: scan_unicode_def split: option.splits if_splits dest!: get_codepoint_length)

lemma scan_escape_length: "scan_escape s = Some (x, t) \<Longrightarrow> length t < length s"
  by (auto simp: scan_escape_def split: list.splits if_splits dest: scan_unicode_length)

lemma next_bytes_length: "next_bytes_in_range rs s = Some (x, t) \<Longrightarrow> length t \<le> length s"
  by (induction rs s arbitrary: x t rule: next_bytes_in_range.induct)
    (fastforce split: if_splits)+

text \<open>\<open>scan_string\<close> after the opening quote: the decoded bytes and what follows the closing quote.\<close>

function (sequential) scan_string :: "string \<Rightarrow> (string \<times> string) option" where
  "scan_string [] = None"
| "scan_string (c # s) =
     (if c = CHR 0x22 then Some ([], s)
      else if c = CHR 0x5C then
        (case scan_escape s of
           None \<Rightarrow> None
         | Some (x, s1) \<Rightarrow> map_option (\<lambda>(t, u). (x @ t, u)) (scan_string s1))
      else
        (case utf8_follow (byte c) of
           None \<Rightarrow> None
         | Some rs \<Rightarrow>
             (case next_bytes_in_range rs s of
                None \<Rightarrow> None
              | Some (x, s1) \<Rightarrow> map_option (\<lambda>(t, u). (c # x @ t, u)) (scan_string s1))))"
  by pat_completeness auto
termination
  by (relation "measure length") (auto dest: scan_escape_length next_bytes_length)

lemma scan_string_length: "scan_string s = Some (x, t) \<Longrightarrow> length t < length s"
proof (induction s arbitrary: x t rule: scan_string.induct)
  case (2 c s)
  then show ?case
    by (fastforce split: if_splits option.splits dest: scan_escape_length next_bytes_length)
qed simp

subsection \<open>Numbers\<close>

datatype number_type = NUnsigned | NInteger | NFloat

text \<open>
  The states of \<open>scan_number\<close>, one function per label; each returns the number's type, its text and
  what is left, or \<open>None\<close> where the code returns \<open>parse_error\<close>.
\<close>

definition digits_of :: "string \<Rightarrow> string \<times> string" where
  "digits_of s = (takeWhile is_digit s, dropWhile is_digit s)"

definition scan_exponent :: "string \<Rightarrow> (string \<times> string) option" where
  "scan_exponent s =
     (let (sign, s1) = (case s of c # t \<Rightarrow> if c = CHR ''+'' \<or> c = CHR ''-'' then ([c], t) else ([], s)
                        | [] \<Rightarrow> ([], s));
          (ds, s2) = digits_of s1
      in if ds = [] then None else Some (sign @ ds, s2))"

text \<open>After the integer part: an optional fraction, then an optional exponent.\<close>

definition is_exp_char :: "char \<Rightarrow> bool" where
  "is_exp_char c \<longleftrightarrow> c = CHR ''e'' \<or> c = CHR ''E''"

definition scan_opt_exponent ::
  "number_type \<Rightarrow> string \<Rightarrow> string \<Rightarrow> (number_type \<times> string \<times> string) option" where
  "scan_opt_exponent ty buf s =
     (case s of
        c # t \<Rightarrow>
          if is_exp_char c
          then map_option (\<lambda>(x, u). (NFloat, buf @ c # x, u)) (scan_exponent t)
          else Some (ty, buf, s)
      | [] \<Rightarrow> Some (ty, buf, s))"

definition scan_fraction ::
  "number_type \<Rightarrow> string \<Rightarrow> string \<Rightarrow> (number_type \<times> string \<times> string) option" where
  "scan_fraction ty buf s =
     (case s of
        c # t \<Rightarrow>
          if c = CHR ''.'' then
            (let (ds, s1) = digits_of t
             in if ds = [] then None else scan_opt_exponent NFloat (buf @ ''.'' @ ds) s1)
          else scan_opt_exponent ty buf s
      | [] \<Rightarrow> scan_opt_exponent ty buf s)"

text \<open>A leading zero is a complete integer part (state \<open>zero\<close>), otherwise the digits go on (\<open>any1\<close>).\<close>

definition scan_int_part ::
  "number_type \<Rightarrow> string \<Rightarrow> string \<Rightarrow> (number_type \<times> string \<times> string) option" where
  "scan_int_part ty buf s =
     (case s of
        [] \<Rightarrow> None
      | c # t \<Rightarrow>
          if c = CHR ''0'' then scan_fraction ty (buf @ [c]) t
          else if is_digit c then
            (let (ds, s1) = digits_of t in scan_fraction ty (buf @ c # ds) s1)
          else None)"

definition scan_number_text :: "string \<Rightarrow> (number_type \<times> string \<times> string) option" where
  "scan_number_text s =
     (if starts_with ''-'' s then scan_int_part NInteger ''-'' (tl s)
      else scan_int_part NUnsigned [] s)"

text \<open>
  \<open>scan_number_done\<close>: \<open>strtoull\<close> and \<open>strtoll\<close> set \<open>errno\<close> when the value does not fit 64 bits; then,
  and for a text with a fraction or an exponent, the number is read as a double.
\<close>

definition number_token :: "float_io \<Rightarrow> number_type \<Rightarrow> string \<Rightarrow> token" where
  "number_token fl ty buf =
     (case ty of
        NUnsigned \<Rightarrow>
          if dec_val buf < 2 ^ 64 then TUnsigned (word_of_nat (dec_val buf))
          else TFloat (fio_strtod fl buf)
      | NInteger \<Rightarrow>
          if dec_val (tl buf) \<le> 2 ^ 63 then TInteger (- word_of_nat (dec_val (tl buf)))
          else TFloat (fio_strtod fl buf)
      | NFloat \<Rightarrow> TFloat (fio_strtod fl buf))"

definition scan_number :: "float_io \<Rightarrow> string \<Rightarrow> token \<times> string" where
  "scan_number fl s =
     (case scan_number_text s of
        None \<Rightarrow> (TError, [])
      | Some (ty, buf, u) \<Rightarrow> (number_token fl ty buf, u))"

subsection \<open>Tokens\<close>

definition is_ws :: "char \<Rightarrow> bool" where
  "is_ws c \<longleftrightarrow> c = CHR '' '' \<or> c = CHR 0x09 \<or> c = CHR 0x0A \<or> c = CHR 0x0D"

definition scan_literal :: "string \<Rightarrow> token \<Rightarrow> string \<Rightarrow> token \<times> string" where
  "scan_literal lit t s =
     (if starts_with lit s then (t, drop (length lit) s) else (TError, []))"

text \<open>
  \<open>scan\<close> (the byte order mark is skipped by \<open>skip_bom\<close> below). After an error nothing more is read,
  so the rest is left empty there. A NUL byte counts as the end of the input.
\<close>

fun structural_token :: "char \<Rightarrow> token option" where
  "structural_token c =
     (if c = CHR ''['' then Some TBeginArray
      else if c = CHR '']'' then Some TEndArray
      else if c = CHR ''{'' then Some TBeginObject
      else if c = CHR ''}'' then Some TEndObject
      else if c = CHR '':'' then Some TNameSep
      else if c = CHR '','' then Some TValueSep
      else None)"

definition scan_token :: "float_io \<Rightarrow> char \<Rightarrow> string \<Rightarrow> token \<times> string" where
  "scan_token fl c s =
     (case structural_token c of
        Some t \<Rightarrow> (t, s)
      | None \<Rightarrow>
          if c = CHR ''t'' then scan_literal ''true'' TTrue (c # s)
          else if c = CHR ''f'' then scan_literal ''false'' TFalse (c # s)
          else if c = CHR ''n'' then scan_literal ''null'' TNull (c # s)
          else if c = CHR 0x22 then
            (case scan_string s of None \<Rightarrow> (TError, []) | Some (x, u) \<Rightarrow> (TString x, u))
          else if c = CHR ''-'' \<or> is_digit c then scan_number fl (c # s)
          else if c = CHR 0x00 then (TEnd, s)
          else (TError, []))"

definition scan :: "float_io \<Rightarrow> string \<Rightarrow> token \<times> string" where
  "scan fl s0 = (case dropWhile is_ws s0 of [] \<Rightarrow> (TEnd, []) | c # s \<Rightarrow> scan_token fl c s)"

definition skip_bom :: "string \<Rightarrow> string option" where
  "skip_bom s =
     (case s of
        [] \<Rightarrow> Some s
      | c # _ \<Rightarrow>
          if byte c = 239 then
            (if starts_with [CHR 0xEF, CHR 0xBB, CHR 0xBF] s then Some (drop 3 s) else None)
          else Some s)"

lemma digits_of_length:
  assumes "digits_of s = (ds, t)"
  shows "length t \<le> length s"
  using assms by (auto simp: digits_of_def intro: length_dropWhile_le)

lemma scan_exponent_length: "scan_exponent s = Some (x, t) \<Longrightarrow> length t \<le> length s"
  by (auto simp: scan_exponent_def Let_def digits_of_def split: list.splits if_splits
      intro: le_SucI length_dropWhile_le)

lemma scan_opt_exponent_length:
  "scan_opt_exponent ty buf s = Some (ty', b, t) \<Longrightarrow> length t \<le> length s"
  by (auto simp: scan_opt_exponent_def split: list.splits if_splits
      dest!: scan_exponent_length)

lemma scan_fraction_length:
  "scan_fraction ty buf s = Some (ty', b, t) \<Longrightarrow> length t \<le> length s"
  by (auto simp: scan_fraction_def Let_def digits_of_def split: list.splits if_splits
      dest!: scan_opt_exponent_length intro: le_SucI order_trans [OF _ length_dropWhile_le])

lemma scan_int_part_length:
  "scan_int_part ty buf s = Some (ty', b, t) \<Longrightarrow> length t < length s"
  by (auto simp: scan_int_part_def Let_def digits_of_def less_Suc_eq_le split: list.splits if_splits
      dest!: scan_fraction_length intro: order_trans [OF _ length_dropWhile_le])

lemma scan_number_text_length:
  "scan_number_text s = Some (ty, b, t) \<Longrightarrow> length t < length s"
  by (cases s) (auto simp: scan_number_text_def split: if_splits
      dest!: scan_int_part_length)

lemma scan_literal_le: "lit \<noteq> [] \<Longrightarrow> scan_literal lit t s = (t', u) \<Longrightarrow> length u \<le> length s - 1"
  by (cases lit) (auto simp: scan_literal_def split: if_splits)

lemma scan_number_le: "scan_number fl s = (t, u) \<Longrightarrow> length u \<le> length s - 1"
  by (auto simp: scan_number_def split: option.splits dest!: scan_number_text_length)

text \<open>Every token takes the byte it starts with; only the end of the input takes none.\<close>

lemma scan_token_le:
  assumes "scan_token fl c s = (t, u)"
  shows "length u \<le> length s"
proof (cases "structural_token c")
  case (Some t')
  with assms show ?thesis by (simp add: scan_token_def del: structural_token.simps)
next
  case None
  note eq = assms [unfolded scan_token_def None option.case]
  consider (lit) lit t' where "lit \<noteq> []" "scan_literal lit t' (c # s) = (t, u)"
    | (str) "(case scan_string s of None \<Rightarrow> (TError, []) | Some (x, u) \<Rightarrow> (TString x, u)) = (t, u)"
    | (num) "scan_number fl (c # s) = (t, u)"
    | (nul) "u = s"
    | (err) "u = []"
    using eq by (metis list.distinct(1) prod.inject)
  then show ?thesis
  proof cases
    case lit
    then show ?thesis using scan_literal_le [OF lit] by simp
  next
    case str
    then show ?thesis by (auto split: option.splits dest: scan_string_length)
  next
    case num
    then show ?thesis using scan_number_le [OF num] by simp
  qed auto
qed

lemma scan_less_or_end: "scan fl s = (t, u) \<Longrightarrow> length u < length s \<or> t = TEnd \<and> u = []"
  using length_dropWhile_le [of is_ws s]
  by (auto simp: scan_def split: list.splits dest: scan_token_le)

lemma scan_shrinks: "scan fl s = (t, u) \<Longrightarrow> t \<noteq> TEnd \<Longrightarrow> length u < length s"
  using scan_less_or_end by blast

lemma scan_le: "scan fl s = (t, u) \<Longrightarrow> length u \<le> length s"
  using scan_less_or_end [of fl s t u] by auto

subsection \<open>The parser\<close>

text \<open>
  The stack of open containers (\<open>states\<close> together with the DOM builder's \<open>ref_stack\<close>): an array
  with the elements so far, or an object with the members so far and the key being read. Storing
  a member under a key already present replaces it.
\<close>

datatype frame = FArray "json list" | FObject "(string \<times> json) list" string

text \<open>
  \<open>sax_parse_internal\<close>: \<open>parse_value\<close> is one iteration of the loop entered with the token just read,
  \<open>after_value\<close> the state evaluation after a complete value.
\<close>

function (sequential)
  parse_value :: "float_io \<Rightarrow> frame list \<Rightarrow> token \<Rightarrow> string \<Rightarrow> (json \<times> string) result" and
  after_value :: "float_io \<Rightarrow> frame list \<Rightarrow> json \<Rightarrow> string \<Rightarrow> (json \<times> string) result"
where
  "parse_value fl st tok s =
     (case tok of
        TBeginObject \<Rightarrow>
          (case scan fl s of
             (TEndObject, s1) \<Rightarrow> after_value fl st (JObject []) s1
           | (TString k, s1) \<Rightarrow>
               (case scan fl s1 of
                  (TNameSep, s2) \<Rightarrow>
                    (case scan fl s2 of (t, s3) \<Rightarrow> parse_value fl (FObject [] k # st) t s3)
                | _ \<Rightarrow> Inl JsonParseError)
           | _ \<Rightarrow> Inl JsonParseError)
      | TBeginArray \<Rightarrow>
          (case scan fl s of
             (t, s1) \<Rightarrow> if t = TEndArray then after_value fl st (JArray []) s1
                         else parse_value fl (FArray [] # st) t s1)
      | TFloat w \<Rightarrow>
          if double_finite w then after_value fl st (JFloat w) s else Inl (JsonOutOfRange 406)
      | TFalse \<Rightarrow> after_value fl st (JBool False) s
      | TNull \<Rightarrow> after_value fl st JNull s
      | TTrue \<Rightarrow> after_value fl st (JBool True) s
      | TInteger w \<Rightarrow> after_value fl st (JInteger w) s
      | TString x \<Rightarrow> after_value fl st (JString x) s
      | TUnsigned w \<Rightarrow> after_value fl st (JUnsigned w) s
      | _ \<Rightarrow> Inl JsonParseError)"
| "after_value fl [] v s = Inr (v, s)"
| "after_value fl (FArray xs # st) v s =
     (case scan fl s of
        (TValueSep, s1) \<Rightarrow> (case scan fl s1 of (t, s2) \<Rightarrow> parse_value fl (FArray (xs @ [v]) # st) t s2)
      | (TEndArray, s1) \<Rightarrow> after_value fl st (JArray (xs @ [v])) s1
      | _ \<Rightarrow> Inl JsonParseError)"
| "after_value fl (FObject m k # st) v s =
     (case scan fl s of
        (TValueSep, s1) \<Rightarrow>
          (case scan fl s1 of
             (TString k', s2) \<Rightarrow>
               (case scan fl s2 of
                  (TNameSep, s3) \<Rightarrow>
                    (case scan fl s3 of
                       (t, s4) \<Rightarrow> parse_value fl (FObject (mput k v m) k' # st) t s4)
                | _ \<Rightarrow> Inl JsonParseError)
           | _ \<Rightarrow> Inl JsonParseError)
      | (TEndObject, s1) \<Rightarrow> after_value fl st (JObject (mput k v m)) s1
      | _ \<Rightarrow> Inl JsonParseError)"
  by pat_completeness auto

text \<open>Each round reads at least one token, so what is left gets shorter.\<close>

definition parse_measure ::
  "(float_io \<times> frame list \<times> token \<times> string) + (float_io \<times> frame list \<times> json \<times> string) \<Rightarrow> nat" where
  "parse_measure x =
     (case x of
        Inl (_, _, t, s) \<Rightarrow> if t = TEnd then 0 else 2 * length s + 1
      | Inr (_, _, _, s) \<Rightarrow> 2 * length s)"

lemma scan_shrinks_sym:
  "(t, u) = scan fl s \<Longrightarrow> t \<noteq> TEnd \<Longrightarrow> length u < length s"
  by (rule scan_shrinks [OF sym])

lemma scan_measure:
  "(case scan fl s of (t, u) \<Rightarrow> if t = TEnd then 0 else 2 * length u + 1)
     \<le> 2 * length s"
  using scan_shrinks [of fl s] by (fastforce split: prod.splits)

lemma scan_measure_trans:
  "2 * length s < n \<Longrightarrow>
     (case scan fl s of (t, u) \<Rightarrow> if t = TEnd then 0 else 2 * length u + 1) < n"
  by (rule le_less_trans [OF scan_measure])

lemma scan_shrinks_known:
  "(TEndArray, u) = scan fl s \<Longrightarrow> length u < length s"
  "(TEndObject, u) = scan fl s \<Longrightarrow> length u < length s"
  "(TValueSep, u) = scan fl s \<Longrightarrow> length u < length s"
  "(TNameSep, u) = scan fl s \<Longrightarrow> length u < length s"
  "(TString x, u) = scan fl s \<Longrightarrow> length u < length s"
  by (drule scan_shrinks_sym; simp)+

termination parse_value
  apply (relation "measure parse_measure")
                      apply (simp_all only: parse_measure_def in_measure wf_measure sum.case prod.case)
                     apply (safe, simp_all)
         apply (fastforce dest: scan_shrinks_known intro: scan_measure_trans)+
  done

text \<open>
  \<open>json::parse(s)\<close>: in strict mode the next token must be the end of the input.
  \<open>json_parse_noexc\<close> is \<open>parse(s, nullptr, false)\<close>, a discarded value being \<open>None\<close>.
\<close>

definition json_parse :: "float_io \<Rightarrow> string \<Rightarrow> json result" where
  "json_parse fl s =
     (case skip_bom s of
        None \<Rightarrow> Inl JsonParseError
      | Some s0 \<Rightarrow>
          (case scan fl s0 of
             (t, s1) \<Rightarrow>
               bind_res (parse_value fl [] t s1)
                 (\<lambda>(j, s2). if fst (scan fl s2) = TEnd then Inr j else Inl JsonParseError)))"

definition json_parse_noexc :: "float_io \<Rightarrow> string \<Rightarrow> json option" where
  "json_parse_noexc fl s = (case json_parse fl s of Inl _ \<Rightarrow> None | Inr j \<Rightarrow> Some j)"

subsection \<open>What parsing throws and gives\<close>

definition parse_error :: "exn \<Rightarrow> bool" where
  "parse_error e \<longleftrightarrow> e \<in> {JsonParseError, JsonOutOfRange 406}"

lemma parse_error_simps [simp]: "parse_error JsonParseError" "parse_error (JsonOutOfRange 406)"
  by (simp_all add: parse_error_def)

definition frame_wf :: "frame \<Rightarrow> bool" where
  "frame_wf f \<longleftrightarrow>
     (case f of FArray xs \<Rightarrow> list_all wf_json xs
      | FObject m k \<Rightarrow> msorted m \<and> list_all (\<lambda>kv. wf_json (snd kv)) m)"

lemma frame_wf_simps [simp]:
  "frame_wf (FArray xs) = list_all wf_json xs"
  "frame_wf (FObject m k) = (msorted m \<and> list_all (\<lambda>kv. wf_json (snd kv)) m)"
  by (simp_all add: frame_wf_def)

lemma all_wf_mput:
  "list_all (\<lambda>kv. wf_json (snd kv)) m \<Longrightarrow> wf_json v \<Longrightarrow> list_all (\<lambda>kv. wf_json (snd kv)) (mput k v m)"
  by (induction k v m rule: mput.induct) auto

text \<open>The result of a run of the parser that starts from well-formed open containers.\<close>

definition parsed_ok :: "(json \<times> string) result \<Rightarrow> bool" where
  "parsed_ok r = (case r of Inl e \<Rightarrow> parse_error e | Inr (j, s) \<Rightarrow> wf_json j)"

lemma parsed_ok_simps [simp]:
  "parsed_ok (Inl e) = parse_error e" "parsed_ok (Inr (j, s)) = wf_json j"
  by (simp_all add: parsed_ok_def)

lemma parser_ok:
  "list_all frame_wf st \<Longrightarrow> parsed_ok (parse_value fl st tok s)"
  "list_all frame_wf st \<Longrightarrow> wf_json v \<Longrightarrow> parsed_ok (after_value fl st v s)"
proof (induction fl st tok s and fl st v s rule: parse_value_after_value.induct)
  case (1 fl st tok s)
  then show ?case
    by (subst parse_value.simps) (auto split: token.split prod.split)
next
  case (2 fl v s)
  then show ?case by simp
next
  case (3 fl xs st v s)
  then show ?case by (auto split: token.split prod.split)
next
  case (4 fl m k st v s)
  then show ?case by (auto split: token.split prod.split simp: all_wf_mput msorted_mput)
qed

lemma json_parse_cases: "case json_parse fl s of Inl e \<Rightarrow> parse_error e | Inr j \<Rightarrow> wf_json j"
proof (cases "skip_bom s")
  case None
  then show ?thesis by (simp add: json_parse_def)
next
  case (Some s0)
  obtain t s1 where t: "scan fl s0 = (t, s1)" by fastforce
  have ok: "parsed_ok (parse_value fl [] t s1)" by (rule parser_ok(1)) simp
  show ?thesis
  proof (cases "parse_value fl [] t s1")
    case (Inl e)
    with ok Some t show ?thesis by (simp add: json_parse_def del: parse_value.simps)
  next
    case (Inr r)
    with ok Some t show ?thesis
      by (cases r) (simp add: json_parse_def del: parse_value.simps)
  qed
qed

lemma json_parse_error: "json_parse fl s = Inl e \<Longrightarrow> parse_error e"
  using json_parse_cases [of fl s] by simp

lemma json_parse_wf: "json_parse fl s = Inr j \<Longrightarrow> wf_json j"
  using json_parse_cases [of fl s] by simp

end
