(* ===== verification/Json_Strings.thy ===== *)
theory Json_Strings
  imports Json_Parse
begin

text \<open>
  What the serializer and the lexer agree on for strings: the serializer's UTF-8 automaton accepts
  exactly the strings the byte ranges of the lexer describe (\<open>utf8_valid\<close>), its output has no
  control character (so no newline), and the lexer reads it back unchanged.
\<close>

subsection \<open>The automaton's table\<close>

lemma length_utf8_types: "length utf8_types = 256"
  by (simp add: utf8_types_def)

definition byte_type :: "nat \<Rightarrow> nat" where
  "byte_type b =
     (if b < 128 then 0 else if b < 144 then 1 else if b < 160 then 9 else if b < 192 then 7
      else if b < 194 then 8 else if b < 224 then 2 else if b = 224 then 10 else if b = 237 then 4
      else if b < 240 then 3 else if b = 240 then 11 else if b < 244 then 6
      else if b = 244 then 5 else 8)"

lemma utf8d_type_all: "\<forall>b \<in> set [0..<256]. utf8d ! b = byte_type b"
  by code_simp

lemma utf8d_type: "b < 256 \<Longrightarrow> utf8d ! b = byte_type b"
  using utf8d_type_all by simp

lemma utf8d_state: "utf8d ! (256 + n) = utf8_states ! n"
  by (simp add: utf8d_def nth_append length_utf8_types)

text \<open>The byte ranges still expected in each of the automaton's states.\<close>

definition expect :: "nat \<Rightarrow> (nat \<times> nat) list" where
  "expect st =
     (if st = 2 then [(128, 191)]
      else if st = 3 then [(128, 191), (128, 191)]
      else if st = 4 then [(160, 191), (128, 191)]
      else if st = 5 then [(128, 159), (128, 191)]
      else if st = 6 then [(144, 191), (128, 191), (128, 191)]
      else if st = 7 then [(128, 191), (128, 191), (128, 191)]
      else if st = 8 then [(128, 143), (128, 191), (128, 191)]
      else [])"

text \<open>A lower bound on the code point collected so far: no overlong form, so never below 128 at the end.\<close>

definition cp_ok :: "nat \<Rightarrow> nat \<Rightarrow> bool" where
  "cp_ok st cp \<longleftrightarrow> (if st = 2 then 2 \<le> cp else if st \<in> {3, 5, 7, 8} then 1 \<le> cp else True)"

lemma byte_less [simp]: "byte c < 256"
  by (simp add: byte_def)

lemma decode_eq:
  "b < 256 \<Longrightarrow> decode st cp b =
     (utf8_states ! (st * 16 + byte_type b),
      if st \<noteq> 0 then b mod 64 + cp * 64 else b mod 2 ^ (8 - byte_type b))"
  by (simp add: decode_def utf8d_type add.assoc utf8d_state Let_def)

lemma decode_start_ascii: "b < 128 \<Longrightarrow> decode 0 cp b = (0, b)"
  by (simp add: decode_eq byte_type_def utf8_states_def)

text \<open>
  The first byte of a longer sequence: the state it leads to expects exactly the ranges the lexer
  expects after it; a byte the lexer rejects leads to the reject state.
\<close>

definition start_ok :: "nat \<Rightarrow> nat \<times> nat \<Rightarrow> bool" where
  "start_ok b d =
     (case d of (st, cp) \<Rightarrow>
        (case utf8_follow b of
           None \<Rightarrow> st = 1
         | Some rs \<Rightarrow> 2 \<le> st \<and> st \<le> 8 \<and> expect st = rs \<and> cp_ok st cp))"

lemma decode_start_all: "list_all (\<lambda>b. start_ok b (decode 0 0 b)) [128..<256]"
  by code_simp

lemma decode_start_indep: "decode 0 cp b = decode 0 0 b"
  by (simp add: decode_def)

lemma decode_start_multi:
  assumes "128 \<le> b" "b < 256"
  shows "start_ok b (decode 0 cp b)"
proof -
  have "b \<in> set [128..<256]" using assms by (simp only: set_upt atLeastLessThan_iff)
  then show ?thesis
    using decode_start_all unfolding decode_start_indep [of cp] list_all_iff by blast
qed

text \<open>Each expected range is a union of byte types.\<close>

definition types_of :: "nat \<times> nat \<Rightarrow> nat list" where
  "types_of r =
     (if r = (128, 191) then [1, 9, 7] else if r = (160, 191) then [7]
      else if r = (128, 159) then [1, 9] else if r = (144, 191) then [9, 7] else [1])"

lemma in_range_iff_type:
  "expect st = (lo, hi) # rs \<Longrightarrow> lo \<le> b \<and> b \<le> hi \<longleftrightarrow> byte_type b \<in> set (types_of (lo, hi))"
  by (auto simp: expect_def types_of_def byte_type_def split: if_splits)

definition next_ok :: "nat \<Rightarrow> nat \<Rightarrow> bool" where
  "next_ok st ty =
     (let st' = utf8_states ! (st * 16 + ty)
      in if ty \<in> set (types_of (hd (expect st)))
         then (if tl (expect st) = [] then st' = 0
               else 2 \<le> st' \<and> st' \<le> 8 \<and> expect st' = tl (expect st))
         else st' = 1)"

lemma next_ok_all: "list_all (\<lambda>st. list_all (next_ok st) [0..<12]) [2..<9]"
  by code_simp

lemma next_ok: "2 \<le> st \<Longrightarrow> st \<le> 8 \<Longrightarrow> ty < 12 \<Longrightarrow> next_ok st ty"
  using next_ok_all unfolding list_all_iff set_upt by auto

lemma byte_type_less: "byte_type b < 12"
  by (simp add: byte_type_def)

lemma expect_cp:
  assumes "expect st = (lo, hi) # rs" "lo \<le> b" "b \<le> hi" "cp_ok st cp"
  shows "rs = [] \<Longrightarrow> 128 \<le> b mod 64 + cp * 64"
    and "expect st' = rs \<Longrightarrow> rs \<noteq> [] \<Longrightarrow> cp_ok st' (b mod 64 + cp * 64)"
proof -
  have m: "b mod 64 = b - 128" if "128 \<le> b" "b \<le> 191"
    using that by (simp add: mod_nat_eqI)
  show "rs = [] \<Longrightarrow> 128 \<le> b mod 64 + cp * 64"
    using assms by (auto simp: expect_def cp_ok_def split: if_splits)
  show "cp_ok st' (b mod 64 + cp * 64)" if "expect st' = rs" "rs \<noteq> []"
    using assms that m by (auto simp: expect_def cp_ok_def split: if_splits)
qed

lemma decode_next:
  assumes "2 \<le> st" "st \<le> 8" "b < 256" "cp_ok st cp" "expect st = (lo, hi) # rs"
    and "decode st cp b = (st', cp')"
  shows "if lo \<le> b \<and> b \<le> hi
         then (st' = 0 \<and> rs = [] \<and> 128 \<le> cp' \<or> 2 \<le> st' \<and> st' \<le> 8 \<and> expect st' = rs \<and> cp_ok st' cp')
         else st' = 1"
proof -
  have d: "st' = utf8_states ! (st * 16 + byte_type b)" "cp' = b mod 64 + cp * 64"
    using assms(1,3,6) by (auto simp: decode_eq)
  note n = next_ok [OF assms(1,2) byte_type_less, of b, unfolded next_ok_def Let_def d(1) [symmetric]
      assms(5) list.sel in_range_iff_type [OF assms(5), symmetric]]
  show ?thesis
    using n expect_cp [OF assms(5) _ _ assms(4), of b] d(2) by (auto split: if_splits)
qed

subsection \<open>Which strings can be serialized\<close>

text \<open>
  Well-formed UTF-8, stated with the lexer's ranges: an ASCII byte, or a leading byte followed by
  bytes in the ranges it asks for.
\<close>

function (sequential) utf8_valid :: "string \<Rightarrow> bool" where
  "utf8_valid [] = True"
| "utf8_valid (c # s) =
     (if byte c < 128 then utf8_valid s
      else (case utf8_follow (byte c) of
              None \<Rightarrow> False
            | Some rs \<Rightarrow>
                (case next_bytes_in_range rs s of None \<Rightarrow> False | Some (x, s1) \<Rightarrow> utf8_valid s1)))"
  by pat_completeness auto
termination
  by (relation "measure length") (auto dest: next_bytes_length)

lemma next_bytes_split:
  "next_bytes_in_range rs s = Some (x, u) \<Longrightarrow>
     s = x @ u \<and> length x = length rs \<and> (\<forall>v. next_bytes_in_range rs (x @ v) = Some (x, v))"
proof (induction rs s arbitrary: x u rule: next_bytes_in_range.induct)
  case (3 lo hi rs c s)
  then obtain y where y: "next_bytes_in_range rs s = Some (y, u)" "x = c # y"
    and r: "lo \<le> byte c \<and> byte c \<le> hi"
    by (auto split: if_splits)
  from "3.IH" [OF r y(1)] y(2) r show ?case by simp
qed auto

text \<open>Inside a sequence the automaton reads exactly the bytes the ranges allow.\<close>

lemma dump_escaped_multi:
  assumes "2 \<le> st" "st \<le> 8" "cp_ok st cp"
  shows "case next_bytes_in_range (expect st) s of
           None \<Rightarrow> dump_escaped_from st cp s = Inl (JsonTypeError 316)
         | Some (x, s1) \<Rightarrow>
             (\<exists>cp'. dump_escaped_from st cp s =
                bind_res (dump_escaped_from 0 cp' s1) (\<lambda>t. Inr (x @ t)))"
  using assms
proof (induction s arbitrary: st cp)
  case Nil
  have "expect st \<noteq> []" using Nil.prems by (auto simp: expect_def)
  then obtain r rs where "expect st = r # rs" by (cases "expect st") auto
  with Nil.prems show ?case by simp
next
  case (Cons c s)
  have "expect st \<noteq> []" using Cons.prems by (auto simp: expect_def)
  then obtain lo hi rs where e: "expect st = (lo, hi) # rs" by (cases "expect st") auto
  obtain st' cp' where d: "decode st cp (byte c) = (st', cp')" by fastforce
  note n = decode_next [OF Cons.prems(1,2) byte_less Cons.prems(3) e d]
  show ?case
  proof (cases "lo \<le> byte c \<and> byte c \<le> hi")
    case False
    with n have "st' = 1" by auto
    with d e False show ?thesis by (auto simp: byte_def)
  next
    case True
    with n consider "st' = 0" "rs = []" "128 \<le> cp'"
      | "2 \<le> st'" "st' \<le> 8" "expect st' = rs" "cp_ok st' cp'" by auto
    then show ?thesis
    proof cases
      case 1
      then have "dump_codepoint cp' c = [c]" by (simp add: dump_codepoint_def)
      with 1 d e True show ?thesis by (auto simp: byte_def)
    next
      case 2
      note ih = Cons.IH [OF 2(1,2,4)]
      have s: "dump_escaped_from st cp (c # s) =
          bind_res (dump_escaped_from st' cp' s) (\<lambda>t. Inr (c # t))"
        using 2(1,2) d by (simp add: byte_def)
      show ?thesis
        using ih s e True 2(3) by (auto split: option.splits simp: bind_res_assoc)
    qed
  qed
qed

lemma dump_escaped_ascii:
  "byte c < 128 \<Longrightarrow> dump_escaped_from 0 cp (c # s) =
     bind_res (dump_escaped_from 0 (byte c) s) (\<lambda>t. Inr (dump_codepoint (byte c) c @ t))"
  using decode_start_ascii [of "byte c" cp] by (simp add: byte_def)

lemma dump_escaped_lead:
  assumes "\<not> byte c < 128"
  shows "case utf8_follow (byte c) of
           None \<Rightarrow> dump_escaped_from 0 cp (c # s) = Inl (JsonTypeError 316)
         | Some rs \<Rightarrow>
             (case next_bytes_in_range rs s of
                None \<Rightarrow> dump_escaped_from 0 cp (c # s) = Inl (JsonTypeError 316)
              | Some (x, s1) \<Rightarrow>
                  (\<exists>cp'. dump_escaped_from 0 cp (c # s) =
                     bind_res (dump_escaped_from 0 cp' s1) (\<lambda>t. Inr (c # x @ t))))"
proof -
  obtain st' cp' where d: "decode 0 cp (byte c) = (st', cp')" by fastforce
  with decode_start_multi [of "byte c" cp] assms have ok: "start_ok (byte c) (st', cp')"
    by (metis byte_less linorder_not_less)
  show ?thesis
  proof (cases "utf8_follow (byte c)")
    case None
    with ok have "st' = 1" by (simp add: start_ok_def)
    with None d show ?thesis by (simp add: byte_def)
  next
    case (Some rs)
    with ok have st: "2 \<le> st'" "st' \<le> 8" "expect st' = rs" "cp_ok st' cp'"
      by (auto simp: start_ok_def)
    have s: "dump_escaped_from 0 cp (c # s) =
        bind_res (dump_escaped_from st' cp' s) (\<lambda>t. Inr (c # t))"
      using st(1) d by (simp add: byte_def)
    show ?thesis
      using dump_escaped_multi [OF st(1,2,4), of s] s st(3) Some
      by (auto split: option.splits simp: bind_res_assoc)
  qed
qed

lemma dump_escaped_from_ok_iff: "(\<exists>t. dump_escaped_from 0 cp s = Inr t) \<longleftrightarrow> utf8_valid s"
proof (induction s arbitrary: cp rule: utf8_valid.induct)
  case (2 c s)
  show ?case
  proof (cases "byte c < 128")
    case True
    with "2.IH"(1) show ?thesis
      by (auto simp: dump_escaped_ascii bind_res_Inr_iff simp del: dump_escaped_from.simps)
  next
    case False
    note lead = dump_escaped_lead [OF False, of cp s]
    show ?thesis
    proof (cases "utf8_follow (byte c)")
      case None
      with lead False show ?thesis by (simp del: dump_escaped_from.simps)
    next
      case (Some rs)
      note rs = Some
      show ?thesis
      proof (cases "next_bytes_in_range rs s")
        case None
        with lead rs False show ?thesis by (simp del: dump_escaped_from.simps)
      next
        case (Some xu)
        obtain x u where xu: "xu = (x, u)" by (cases xu)
        with lead rs Some obtain cp' where
          "dump_escaped_from 0 cp (c # s) =
             bind_res (dump_escaped_from 0 cp' u) (\<lambda>t. Inr (c # x @ t))"
          by (auto simp del: dump_escaped_from.simps)
        with "2.IH"(2) [OF False rs Some xu [symmetric]] False rs Some xu show ?thesis
          by (simp add: bind_res_Inr_iff del: dump_escaped_from.simps)
      qed
    qed
  qed
qed simp

subsection \<open>Reading a serialized string\<close>

lemma byte_eq_iff: "byte c = n \<longleftrightarrow> n < 256 \<and> c = char_of n"
proof
  assume "byte c = n"
  then show "n < 256 \<and> c = char_of n" using byte_less [of c] by (auto simp: byte_def)
qed (simp add: byte_def of_char_of)

lemma byte_Char:
  "byte (Char b0 b1 b2 b3 b4 b5 b6 b7) = of_char (Char b0 b1 b2 b3 b4 b5 b6 b7)"
  by (simp only: byte_def)

lemma byte_special:
  "byte c = 8 \<longleftrightarrow> c = CHR 0x08" "byte c = 9 \<longleftrightarrow> c = CHR 0x09" "byte c = 10 \<longleftrightarrow> c = CHR 0x0A"
  "byte c = 12 \<longleftrightarrow> c = CHR 0x0C" "byte c = 13 \<longleftrightarrow> c = CHR 0x0D"
  "byte c = 34 \<longleftrightarrow> c = CHR 0x22" "byte c = 92 \<longleftrightarrow> c = CHR 0x5C"
  by (simp_all add: byte_eq_iff char_of_def bit_Suc_0_iff)

lemma byte_numeral:
  "byte (CHR 0x08) = 8" "byte (CHR 0x09) = 9" "byte (CHR 0x0A) = 10" "byte (CHR 0x0C) = 12"
  "byte (CHR 0x0D) = 13" "byte (CHR 0x22) = 34" "byte (CHR 0x5C) = 92"
  by (simp_all add: byte_def)

lemma byte_char_of [simp]: "byte (char_of n) = n mod 256"
  by (simp add: byte_def)

lemma byte_hex_char: "n < 16 \<Longrightarrow> byte (hex_char n) = (if n < 10 then 48 + n else 87 + n)"
  by (simp add: hex_char_def del: of_char_mod_256)

lemma hex_digit_hex_char: "n < 16 \<Longrightarrow> hex_digit (hex_char n) = Some n"
proof (cases "n < 10")
  case True
  then have "byte (hex_char n) = 48 + n" by (simp only: byte_hex_char if_True)
  with True show ?thesis by (simp add: hex_digit_def)
next
  case False
  moreover assume "n < 16"
  ultimately have "byte (hex_char n) = 87 + n" by (simp only: byte_hex_char if_False)
  with False \<open>n < 16\<close> show ?thesis by (simp add: hex_digit_def)
qed

lemma get_codepoint_hex4:
  assumes "n < 65536"
  shows "get_codepoint (hex4 n @ s) = Some (n, s)"
proof -
  have "n div 4096 mod 16 * 4096 + n div 256 mod 16 * 256 + n div 16 mod 16 * 16 + n mod 16 = n"
  proof -
    have q: "n div 256 = n div 16 div 16" "n div 4096 = n div 16 div 16 div 16"
      by (simp_all add: div_mult2_eq [symmetric])
    have "n div 16 div 16 div 16 < 16" using assms by (simp add: div_mult2_eq [symmetric])
    then have "n div 16 div 16 div 16 mod 16 = n div 16 div 16 div 16" by simp
    moreover have "n = n div 16 * 16 + n mod 16"
      "n div 16 = n div 16 div 16 * 16 + n div 16 mod 16"
      "n div 16 div 16 = n div 16 div 16 div 16 * 16 + n div 16 div 16 mod 16"
      by simp_all
    ultimately show ?thesis unfolding q by linarith
  qed
  then show ?thesis
    by (simp only: hex4_def append.simps get_codepoint.simps hex_digit_hex_char
        mod_less_divisor zero_less_numeral option.case prod.case)
qed

lemma scan_string_control:
  assumes "n \<le> 31"
  shows "scan_string ([CHR 0x5C, CHR ''u''] @ hex4 n @ s) =
           map_option (\<lambda>(t, u). (char_of n # t, u)) (scan_string s)"
  using assms
  by (simp add: scan_escape_def scan_unicode_def get_codepoint_hex4 utf8_encode_def)

lemma scan_string_plain:
  assumes "32 \<le> byte c" "byte c < 128" "c \<noteq> CHR 0x22" "c \<noteq> CHR 0x5C"
  shows "scan_string (c # s) = map_option (\<lambda>(t, u). (c # t, u)) (scan_string s)"
  using assms by (simp add: utf8_follow_def)

lemma scan_string_codepoint:
  assumes "byte c < 128"
  shows "scan_string (dump_codepoint (byte c) c @ s) =
           map_option (\<lambda>(t, u). (c # t, u)) (scan_string s)"
proof -
  consider "byte c \<in> {8, 9, 10, 12, 13, 34, 92}"
    | "byte c \<notin> {8, 9, 10, 12, 13, 34, 92}" "byte c \<le> 31"
    | "byte c \<notin> {34, 92}" "32 \<le> byte c" by fastforce
  then show ?thesis
  proof cases
    case 1
    then show ?thesis
      by (elim insertE emptyE)
        (simp_all add: byte_special dump_codepoint_def scan_escape_def byte_numeral)
  next
    case 2
    then have "dump_codepoint (byte c) c = [CHR 0x5C, CHR ''u''] @ hex4 (byte c)"
      by (simp add: dump_codepoint_def)
    then show ?thesis
      using scan_string_control [OF 2(2), of s] by (simp add: byte_def del: scan_string.simps)
  next
    case 3
    then have "dump_codepoint (byte c) c = [c]" "c \<noteq> CHR 0x22" "c \<noteq> CHR 0x5C"
      by (auto simp: dump_codepoint_def byte_def)
    with scan_string_plain [OF 3(2) assms] show ?thesis by simp
  qed
qed

lemma scan_string_lead:
  assumes "\<not> byte c < 128" "utf8_follow (byte c) = Some rs"
    and "\<forall>v. next_bytes_in_range rs (x @ v) = Some (x, v)"
  shows "scan_string (c # x @ s) = map_option (\<lambda>(t, u). (c # x @ t, u)) (scan_string s)"
proof -
  have "c \<noteq> CHR 0x22" "c \<noteq> CHR 0x5C" using assms(1) by (auto simp: byte_def)
  with assms(2,3) show ?thesis by simp
qed

text \<open>
  The two steps of the serializer on a string it accepts: an ASCII byte, or a whole multi-byte
  sequence copied as it is.
\<close>

lemma dump_escaped_cases:
  assumes "dump_escaped_from 0 cp (c # s) = Inr t"
  obtains (ascii) t' where "byte c < 128" "t = dump_codepoint (byte c) c @ t'"
      "dump_escaped_from 0 (byte c) s = Inr t'"
    | (multi) rs x s1 cp' t' where "\<not> byte c < 128" "utf8_follow (byte c) = Some rs"
      "s = x @ s1" "\<forall>v. next_bytes_in_range rs (x @ v) = Some (x, v)"
      "next_bytes_in_range rs s = Some (x, s1)"
      "t = c # x @ t'" "dump_escaped_from 0 cp' s1 = Inr t'"
proof (cases "byte c < 128")
  case True
  with assms show ?thesis
    by (auto simp: dump_escaped_ascii bind_res_Inr_iff simp del: dump_escaped_from.simps intro: ascii)
next
  case False
  note lead = dump_escaped_lead [OF False, of cp s]
  then obtain rs where rs: "utf8_follow (byte c) = Some rs"
    using assms by (cases "utf8_follow (byte c)") (auto simp del: dump_escaped_from.simps)
  then obtain x s1 where x: "next_bytes_in_range rs s = Some (x, s1)"
    using assms lead by (cases "next_bytes_in_range rs s") (auto simp del: dump_escaped_from.simps)
  with lead rs obtain cp' where
    "dump_escaped_from 0 cp (c # s) = bind_res (dump_escaped_from 0 cp' s1) (\<lambda>t. Inr (c # x @ t))"
    by (auto simp del: dump_escaped_from.simps)
  with assms obtain t' where "dump_escaped_from 0 cp' s1 = Inr t'" "t = c # x @ t'"
    by (auto simp: bind_res_Inr_iff simp del: dump_escaped_from.simps)
  with multi [OF False rs _ _ x] next_bytes_split [OF x] show ?thesis by blast
qed

lemma scan_string_dump:
  "dump_escaped_from 0 cp s = Inr t \<Longrightarrow> scan_string (t @ CHR 0x22 # u) = Some (s, u)"
proof (induction "length s" arbitrary: s cp t rule: less_induct)
  case less
  show ?case
  proof (cases s)
    case Nil
    with less.prems show ?thesis by simp
  next
    case (Cons c s')
    from less.prems [unfolded Cons] show ?thesis
    proof (cases rule: dump_escaped_cases)
      case (ascii t')
      with less.hyps [of s'] Cons show ?thesis
        by (simp add: scan_string_codepoint del: scan_string.simps dump_escaped_from.simps)
    next
      case (multi rs x s1 cp' t')
      with less.hyps [of s1] Cons show ?thesis
        by (simp add: scan_string_lead [OF multi(1,2,4)] del: scan_string.simps dump_escaped_from.simps)
    qed
  qed
qed

text \<open>No byte below 32 is written, so no newline: one serialized value is one line.\<close>

lemma next_bytes_high:
  "utf8_follow b = Some rs \<Longrightarrow> next_bytes_in_range rs s = Some (x, s1) \<Longrightarrow> c \<in> set x \<Longrightarrow> 128 \<le> byte c"
proof -
  have "(\<forall>r \<in> set rs. 128 \<le> fst r) \<Longrightarrow> next_bytes_in_range rs s = Some (x, s1) \<Longrightarrow>
          \<forall>c \<in> set x. 128 \<le> byte c"
    by (induction rs s arbitrary: x s1 rule: next_bytes_in_range.induct)
      (fastforce split: if_splits)+
  moreover assume "utf8_follow b = Some rs" "next_bytes_in_range rs s = Some (x, s1)" "c \<in> set x"
  moreover from this(1) have "\<forall>r \<in> set rs. 128 \<le> fst r"
    by (auto simp: utf8_follow_def split: if_splits)
  ultimately show ?thesis by blast
qed

lemma dump_codepoint_printable: "byte c < 128 \<Longrightarrow> d \<in> set (dump_codepoint (byte c) c) \<Longrightarrow> 32 \<le> byte d"
  by (auto simp: dump_codepoint_def hex4_def byte_hex_char byte_Char split: if_splits)

lemma dump_escaped_printable:
  "dump_escaped_from 0 cp s = Inr t \<Longrightarrow> d \<in> set t \<Longrightarrow> 32 \<le> byte d"
proof (induction "length s" arbitrary: s cp t rule: less_induct)
  case less
  show ?case
  proof (cases s)
    case Nil
    with less.prems show ?thesis by simp
  next
    case (Cons c s')
    from less.prems(1) [unfolded Cons] show ?thesis
    proof (cases rule: dump_escaped_cases)
      case (ascii t')
      with less.hyps [of s'] less.prems(2) Cons show ?thesis
        by (auto intro: dump_codepoint_printable simp del: dump_escaped_from.simps)
    next
      case (multi rs x s1 cp' t')
      with less.hyps [of s1] less.prems(2) Cons next_bytes_high [OF multi(2,5)] show ?thesis
        by (fastforce simp del: dump_escaped_from.simps)
    qed
  qed
qed

lemma dump_quoted_ok_iff: "(\<exists>t. dump_quoted s = Inr t) \<longleftrightarrow> utf8_valid s"
  using dump_escaped_from_ok_iff [of 0 s]
  by (auto simp: dump_quoted_def dump_escaped_def bind_res_Inr_iff)

lemma dump_quoted_printable: "dump_quoted s = Inr t \<Longrightarrow> d \<in> set t \<Longrightarrow> 32 \<le> byte d"
  by (auto simp: dump_quoted_def dump_escaped_def bind_res_Inr_iff byte_def
      dest: dump_escaped_printable [unfolded byte_def])

lemma dump_quoted_error: "dump_quoted s = Inl e \<Longrightarrow> e = JsonTypeError 316"
proof -
  have "dump_escaped_from st cp s = Inl e \<Longrightarrow> e = JsonTypeError 316" for st cp
    by (induction st cp s rule: dump_escaped_from.induct)
      (auto simp: bind_res_Inl_iff Let_def split: prod.splits if_splits)
  then show "dump_quoted s = Inl e \<Longrightarrow> e = JsonTypeError 316"
    by (auto simp: dump_quoted_def dump_escaped_def bind_res_Inl_iff)
qed

end
