(* ===== verification/Json_Roundtrip.thy ===== *)
theory Json_Roundtrip
  imports Json_Strings
begin

text \<open>
  The parser reads back what the serializer writes. Two things are not kept, because the text does
  not show them: a non-negative signed integer comes back as an unsigned one, and a double that is
  not finite is written as \<open>null\<close> (\<open>norm_json\<close>). The conversion of doubles is a parameter, with the
  documented property of a shortest-representation printer as hypothesis (\<open>float_io_ok\<close>). Then the
  line format of the storage files: a compact dump has no newline, and it fails exactly when some
  string is not UTF-8. The locale \<open>json_text\<close> is what the clients of the library use.
\<close>

fun norm_json :: "json \<Rightarrow> json" where
  "norm_json (JInteger w) = (if 0 \<le> sint w then JUnsigned w else JInteger w)"
| "norm_json (JFloat w) = (if double_finite w then JFloat w else JNull)"
| "norm_json (JArray js) = JArray (map norm_json js)"
| "norm_json (JObject kvs) = JObject (map (\<lambda>kv. (fst kv, norm_json (snd kv))) kvs)"
| "norm_json j = j"

definition float_io_ok :: "float_io \<Rightarrow> bool" where
  "float_io_ok fl \<longleftrightarrow>
     (\<forall>w. double_finite w \<longrightarrow>
        scan_number_text (fio_to_chars fl w) = Some (NFloat, fio_to_chars fl w, []) \<and>
        fio_strtod fl (fio_to_chars fl w) = w)"

text \<open>What may follow a value inside serialized text.\<close>

definition delim :: "string \<Rightarrow> bool" where
  "delim u \<longleftrightarrow> u = [] \<or> hd u \<in> {CHR '','', CHR '']'', CHR ''}'', nl}"

lemma delim_simps [simp]:
  "delim []" "delim (CHR '','' # u)" "delim (CHR '']'' # u)" "delim (CHR ''}'' # u)"
  "delim (nl # u)"
  by (simp_all add: delim_def)

lemma delim_Cons: "delim (c # u) \<Longrightarrow> \<not> is_digit c \<and> \<not> is_exp_char c \<and> c \<noteq> CHR ''.''"
  by (auto simp: delim_def is_digit_def is_exp_char_def nl_def)

subsection \<open>Numbers in front of a delimiter\<close>

lemma digits_of_append:
  "delim u \<Longrightarrow> digits_of s = (ds, r) \<Longrightarrow> digits_of (s @ u) = (ds, r @ u)"
proof (induction s arbitrary: ds r)
  case Nil
  then show ?case by (cases u) (auto simp: digits_of_def dest: delim_Cons)
next
  case (Cons c s)
  then show ?case by (auto simp: digits_of_def split: if_splits)
qed

lemma scan_exponent_append:
  assumes "delim u" "scan_exponent s = Some (x, r)"
  shows "scan_exponent (s @ u) = Some (x, r @ u)"
proof (cases s)
  case Nil
  with assms(2) show ?thesis by (simp add: scan_exponent_def digits_of_def)
next
  case (Cons c t)
  obtain ds r' where d: "digits_of t = (ds, r')" by fastforce
  obtain ds2 r2 where d2: "digits_of (c # t) = (ds2, r2)" by fastforce
  note digits_of_append [OF assms(1) d] digits_of_append [OF assms(1) d2]
  with Cons assms(2) d d2 show ?thesis
    by (auto simp: scan_exponent_def Let_def split: if_splits)
qed

lemma scan_opt_exponent_append:
  assumes "delim u" "scan_opt_exponent ty b s = Some (ty', b', r)"
  shows "scan_opt_exponent ty b (s @ u) = Some (ty', b', r @ u)"
proof (cases s)
  case Nil
  with assms show ?thesis by (cases u) (auto simp: scan_opt_exponent_def dest: delim_Cons)
next
  case (Cons c t)
  with assms(2) scan_exponent_append [OF assms(1), of t] show ?thesis
    by (auto simp: scan_opt_exponent_def split: if_splits)
qed

lemma scan_fraction_append:
  assumes "delim u" "scan_fraction ty b s = Some (ty', b', r)"
  shows "scan_fraction ty b (s @ u) = Some (ty', b', r @ u)"
proof (cases s)
  case Nil
  with assms show ?thesis
    by (cases u) (auto simp: scan_fraction_def scan_opt_exponent_def dest: delim_Cons)
next
  case (Cons c t)
  obtain ds r' where d: "digits_of t = (ds, r')" by fastforce
  note opt = scan_opt_exponent_append [OF assms(1)]
  from Cons assms(2) d digits_of_append [OF assms(1) d] opt [of NFloat] opt [of ty b s]
  show ?thesis by (auto simp: scan_fraction_def Let_def split: if_splits)
qed

lemma scan_int_part_append:
  assumes "delim u" "scan_int_part ty b s = Some (ty', b', r)"
  shows "scan_int_part ty b (s @ u) = Some (ty', b', r @ u)"
proof (cases s)
  case Nil
  with assms(2) show ?thesis by (simp add: scan_int_part_def)
next
  case (Cons c t)
  obtain ds r' where d: "digits_of t = (ds, r')" by fastforce
  with Cons assms(2) digits_of_append [OF assms(1) d] scan_fraction_append [OF assms(1)]
  show ?thesis by (auto simp: scan_int_part_def Let_def split: if_splits)
qed

lemma scan_number_text_append:
  assumes "delim u" "scan_number_text s = Some (ty, b, r)"
  shows "scan_number_text (s @ u) = Some (ty, b, r @ u)"
proof (cases s)
  case Nil
  with assms(2) show ?thesis by (simp add: scan_number_text_def scan_int_part_def)
next
  case (Cons c t)
  with assms(2) scan_int_part_append [OF assms(1), of _ _ t] scan_int_part_append [OF assms(1), of _ _ s]
  show ?thesis by (auto simp: scan_number_text_def split: if_splits)
qed

lemma scan_number_text_start:
  "scan_number_text s = Some x \<Longrightarrow> \<exists>c t. s = c # t \<and> (c = CHR ''-'' \<or> is_digit c)"
proof (cases s)
  case Nil
  moreover assume "scan_number_text s = Some x"
  ultimately show ?thesis by (simp add: scan_number_text_def scan_int_part_def)
next
  case (Cons c t)
  moreover assume "scan_number_text s = Some x"
  ultimately show ?thesis
    by (auto simp: scan_number_text_def scan_int_part_def is_digit_def split: if_splits)
qed

lemma structural_token_number:
  "c = CHR ''-'' \<or> is_digit c \<Longrightarrow> structural_token c = None \<and> \<not> is_ws c \<and>
     c \<noteq> CHR ''t'' \<and> c \<noteq> CHR ''f'' \<and> c \<noteq> CHR ''n'' \<and> c \<noteq> CHR 0x22"
proof -
  let ?l = "[CHR ''['', CHR '']'', CHR ''{'', CHR ''}'', CHR '':'', CHR '','',
      CHR ''t'', CHR ''f'', CHR ''n'', CHR 0x22, CHR '' '', CHR 0x09, CHR 0x0A, CHR 0x0D]"
  assume c: "c = CHR ''-'' \<or> is_digit c"
  have "list_all (\<lambda>d. d \<noteq> CHR ''-'' \<and> \<not> is_digit d) ?l" by (simp add: is_digit_def)
  with c have "c \<notin> set ?l" unfolding list_all_iff by blast
  then show ?thesis by (simp add: is_ws_def)
qed

lemma scan_numeral:
  assumes "scan_number_text s = Some (ty, b, [])" "delim u"
  shows "scan fl (s @ u) = (number_token fl ty b, u)"
proof -
  obtain c t where s: "s = c # t" "c = CHR ''-'' \<or> is_digit c"
    using scan_number_text_start [OF assms(1)] by blast
  note scan_number_text_append [OF assms(2,1)]
  with s structural_token_number [OF s(2)] show ?thesis
    by (simp add: scan_def scan_token_def scan_number_def)
qed

lemma nat_str_no_leading_zero: "0 < n \<Longrightarrow> hd (nat_str n) \<noteq> CHR ''0''"
proof (induction n rule: nat_str.induct)
  case (1 n)
  show ?case
  proof (cases "n < 10")
    case True
    have "digit_val (hd (nat_str n)) = n" using True by (simp add: nat_str.simps [of n])
    with 1(2) show ?thesis by (auto simp: digit_val_def)
  next
    case False
    with 1(1) have "hd (nat_str (n div 10)) \<noteq> CHR ''0''" by simp
    with False show ?thesis by (simp add: nat_str.simps [of n])
  qed
qed

lemma scan_int_part_nat_str: "scan_int_part ty b (nat_str n) = Some (ty, b @ nat_str n, [])"
proof (cases "n = 0")
  case True
  have "nat_str 0 = ''0''" by (simp add: nat_str.simps digit_char_def char_of_def bit_Suc_0_iff)
  with True show ?thesis
    by (simp add: scan_int_part_def scan_fraction_def scan_opt_exponent_def)
next
  case False
  obtain c t where ct: "nat_str n = c # t" by (cases "nat_str n") auto
  with False nat_str_no_leading_zero [of n] have "c \<noteq> CHR ''0''" by simp
  moreover have all: "\<forall>d \<in> set (c # t). is_digit d" using nat_str_digits [of _ n] ct by auto
  moreover have "takeWhile is_digit t = t" "dropWhile is_digit t = []"
    using all by (simp_all add: takeWhile_eq_all_conv)
  ultimately show ?thesis
    using ct
    by (simp add: scan_int_part_def digits_of_def scan_fraction_def scan_opt_exponent_def
        del: dropWhile_eq_Nil_conv)
qed

lemma scan_unsigned:
  assumes "delim u"
  shows "scan fl (dump_unsigned w @ u) = (TUnsigned w, u)"
proof -
  have "\<not> starts_with ''-'' (nat_str (unat w))"
    using nat_str_digits [of "CHR ''-''" "unat w"] by (cases "nat_str (unat w)") auto
  then have "scan_number_text (nat_str (unat w)) = Some (NUnsigned, nat_str (unat w), [])"
    by (simp add: scan_number_text_def scan_int_part_nat_str)
  from scan_numeral [OF this assms, of fl] show ?thesis
    using unsigned_less [of w] by (simp add: dump_unsigned_def number_token_def)
qed

lemma scan_integer:
  assumes "delim u"
  shows "scan fl (dump_integer w @ u) =
           (if 0 \<le> sint w then TUnsigned w else TInteger w, u)"
proof (cases "0 \<le> sint w")
  case True
  then have "nat (sint w) = unat w"
    using sint_less [of w] by (simp add: uint_sint take_bit_int_eq_self flip: nat_uint_eq)
  with True scan_unsigned [OF assms, of fl w] show ?thesis
    by (simp add: dump_integer_def int_str_def dump_unsigned_def)
next
  case False
  let ?n = "nat (- sint w)"
  have "scan_number_text (CHR ''-'' # nat_str ?n) = Some (NInteger, CHR ''-'' # nat_str ?n, [])"
    by (simp add: scan_number_text_def scan_int_part_nat_str)
  moreover have "?n \<le> 2 ^ 63"
    using sint_greater_eq [of w] False by simp
  moreover have "- word_of_nat ?n = w"
  proof -
    have "word_of_nat ?n = (word_of_int (int ?n) :: u64)" by simp
    also have "\<dots> = word_of_int (- sint w)" using False by simp
    finally show ?thesis by simp
  qed
  ultimately show ?thesis
    using scan_numeral [OF _ assms, of "CHR ''-'' # nat_str ?n" NInteger _ fl] False
    by (simp add: dump_integer_def int_str_def number_token_def)
qed

lemma scan_float:
  assumes "float_io_ok fl" "double_finite w" "delim u"
  shows "scan fl (dump_float fl w @ u) = (TFloat w, u)"
  using assms(1,2) scan_numeral [OF _ assms(3), of "fio_to_chars fl w" NFloat _ fl]
  by (simp add: dump_float_def float_io_ok_def number_token_def)

lemma scan_quoted:
  assumes "dump_quoted s = Inr t"
  shows "scan fl (t @ u) = (TString s, u)"
proof -
  obtain t' where t: "t = CHR 0x22 # t' @ [CHR 0x22]" "dump_escaped_from 0 0 s = Inr t'"
    using assms by (auto simp: dump_quoted_def dump_escaped_def bind_res_Inr_iff)
  with scan_string_dump [OF t(2), of u] show ?thesis
    by (simp add: scan_def is_ws_def scan_token_def)
qed

lemma scan_words:
  "scan fl (''null'' @ u) = (TNull, u)"
  "scan fl (''true'' @ u) = (TTrue, u)"
  "scan fl (''false'' @ u) = (TFalse, u)"
  by (simp_all add: scan_def is_ws_def scan_token_def scan_literal_def)

lemma scan_punct:
  "scan fl (CHR ''['' # u) = (TBeginArray, u)" "scan fl (CHR '']'' # u) = (TEndArray, u)"
  "scan fl (CHR ''{'' # u) = (TBeginObject, u)" "scan fl (CHR ''}'' # u) = (TEndObject, u)"
  "scan fl (CHR '':'' # u) = (TNameSep, u)" "scan fl (CHR '','' # u) = (TValueSep, u)"
  by (simp_all add: scan_def is_ws_def scan_token_def)

lemma scan_ws: "list_all is_ws w \<Longrightarrow> scan fl (w @ s) = scan fl s"
proof -
  assume "list_all is_ws w"
  then have "dropWhile is_ws (w @ s) = dropWhile is_ws s"
    by (simp add: dropWhile_append2 list_all_iff)
  then show ?thesis by (simp add: scan_def)
qed

subsection \<open>Reading values and members\<close>

declare parse_value.simps [simp del] after_value.simps [simp del]

text \<open>The parser entered before the next token, and before a member of an object.\<close>

definition run_value :: "float_io \<Rightarrow> frame list \<Rightarrow> string \<Rightarrow> (json \<times> string) result" where
  "run_value fl st s = (case scan fl s of (t, u) \<Rightarrow> parse_value fl st t u)"

definition run_member ::
  "float_io \<Rightarrow> (string \<times> json) list \<Rightarrow> frame list \<Rightarrow> string \<Rightarrow> (json \<times> string) result" where
  "run_member fl m st s =
     (case scan fl s of
        (TString k, s1) \<Rightarrow>
          (case scan fl s1 of
             (TNameSep, s2) \<Rightarrow> run_value fl (FObject m k # st) s2
           | _ \<Rightarrow> Inl JsonParseError)
      | _ \<Rightarrow> Inl JsonParseError)"

definition reads :: "float_io \<Rightarrow> string \<Rightarrow> json \<Rightarrow> bool" where
  "reads fl t j \<longleftrightarrow> (\<forall>st u. delim u \<longrightarrow> run_value fl st (t @ u) = after_value fl st j u)"

definition reads_member :: "float_io \<Rightarrow> string \<Rightarrow> string \<times> json \<Rightarrow> bool" where
  "reads_member fl t kv \<longleftrightarrow>
     (\<forall>m st u. delim u \<longrightarrow>
        (\<exists>s. scan fl (t @ u) = (TString (fst kv), s)) \<and>
        run_member fl m st (t @ u) = after_value fl (FObject m (fst kv) # st) (snd kv) u)"

lemma run_value_ws: "list_all is_ws w \<Longrightarrow> run_value fl st (w @ s) = run_value fl st s"
  by (simp add: run_value_def scan_ws)

lemma run_member_ws: "list_all is_ws w \<Longrightarrow> run_member fl m st (w @ s) = run_member fl m st s"
  by (simp add: run_member_def scan_ws)

lemma reads_ws: "list_all is_ws w \<Longrightarrow> reads fl t j \<Longrightarrow> reads fl (w @ t) j"
  by (simp add: reads_def run_value_ws)

lemma reads_member_ws: "list_all is_ws w \<Longrightarrow> reads_member fl t kv \<Longrightarrow> reads_member fl (w @ t) kv"
  by (simp add: reads_member_def run_member_ws scan_ws)

lemma reads_memberI:
  assumes "dump_quoted k = Inr kt" "list_all is_ws w" "reads fl t j"
  shows "reads_member fl (kt @ CHR '':'' # w @ t) (k, j)"
  using assms(3) scan_quoted [OF assms(1)]
  by (simp add: reads_member_def run_member_def scan_punct reads_def run_value_ws [OF assms(2)])

text \<open>How the parser goes on inside an array and inside an object.\<close>

lemma after_array_comma:
  "after_value fl (FArray xs # st) v (CHR '','' # s) = run_value fl (FArray (xs @ [v]) # st) s"
  by (simp add: after_value.simps scan_punct run_value_def)

lemma after_object_comma:
  "after_value fl (FObject m k # st) v (CHR '','' # s) = run_member fl (mput k v m) st s"
  by (simp add: after_value.simps scan_punct run_member_def run_value_def split: token.split prod.split)

lemma after_array_end:
  "list_all is_ws w \<Longrightarrow> after_value fl (FArray xs # st) v (w @ CHR '']'' # s) =
     after_value fl st (JArray (xs @ [v])) s"
  by (simp add: after_value.simps scan_ws scan_punct)

lemma after_object_end:
  "list_all is_ws w \<Longrightarrow> after_value fl (FObject m k # st) v (w @ CHR ''}'' # s) =
     after_value fl st (JObject (mput k v m)) s"
  by (simp add: after_value.simps scan_ws scan_punct)

lemma delim_closing: "w = [] \<or> hd w = nl \<Longrightarrow> c \<in> {CHR '']'', CHR ''}''} \<Longrightarrow> delim (w @ c # u)"
  by (cases w) (auto simp: delim_def)

lemma reads_elements:
  assumes "list_all2 (reads fl) ts js" "ts \<noteq> []" "list_all is_ws w" "list_all is_ws w'"
    and "w' = [] \<or> hd w' = nl"
  shows "run_value fl (FArray xs # st) (join ('','' @ w) ts @ w' @ CHR '']'' # u) =
           after_value fl st (JArray (xs @ js)) u"
  using assms(1,2)
proof (induction ts js arbitrary: xs rule: list_all2_induct)
  case (Cons t ts j js)
  show ?case
  proof (cases ts)
    case Nil
    with Cons have "js = []" by simp
    with Nil Cons.hyps(1) delim_closing [OF assms(5), of "CHR '']''"] show ?thesis
      by (simp add: reads_def after_array_end [OF assms(4)])
  next
    case (Cons t2 ts2)
    have "run_value fl (FArray xs # st) (t @ CHR '','' # s) = run_value fl (FArray (xs @ [j]) # st) s" for s
      using Cons.hyps(1) by (simp add: reads_def after_array_comma)
    with Cons Cons.IH [of "xs @ [j]"] show ?thesis
      by (simp add: run_value_ws [OF assms(3)])
  qed
qed simp

lemma reads_members:
  assumes "list_all2 (reads_member fl) ts kvs" "ts \<noteq> []" "list_all is_ws w" "list_all is_ws w'"
    and "w' = [] \<or> hd w' = nl"
  shows "run_member fl m st (join ('','' @ w) ts @ w' @ CHR ''}'' # u) =
           after_value fl st (JObject (foldl (\<lambda>m (k, v). mput k v m) m kvs)) u"
  using assms(1,2)
proof (induction ts kvs arbitrary: m rule: list_all2_induct)
  case (Cons t ts kv kvs)
  obtain k v where kv: "kv = (k, v)" by (cases kv)
  show ?case
  proof (cases ts)
    case Nil
    with Cons have "kvs = []" by simp
    with Nil kv Cons.hyps(1) delim_closing [OF assms(5), of "CHR ''}''"] show ?thesis
      by (simp add: reads_member_def after_object_end [OF assms(4)])
  next
    case (Cons t2 ts2)
    have "run_member fl m st (t @ CHR '','' # s) = run_member fl (mput k v m) st s" for s
      using Cons.hyps(1) kv by (simp add: reads_member_def after_object_comma)
    with Cons Cons.IH [of "mput k v m"] kv show ?thesis
      by (simp add: run_member_ws [OF assms(3)])
  qed
qed simp

lemma join_split: "ts \<noteq> [] \<Longrightarrow> delim u \<Longrightarrow>
    \<exists>r. delim r \<and> join (CHR '','' # w) ts @ u = hd ts @ r"
  by (cases "(CHR '','' # w, ts)" rule: join.cases) auto

lemma reads_not_close: "reads fl t j \<Longrightarrow> delim u \<Longrightarrow> fst (scan fl (t @ u)) \<noteq> TEndArray"
proof
  assume "reads fl t j" "delim u" and e: "fst (scan fl (t @ u)) = TEndArray"
  then have "run_value fl [] (t @ u) = Inr (j, u)"
    by (simp add: reads_def after_value.simps)
  with e show False
    by (auto simp: run_value_def parse_value.simps split: prod.splits)
qed

lemma reads_array:
  assumes "list_all2 (reads fl) ts js" "ts \<noteq> []"
    and ws: "list_all is_ws w0" "list_all is_ws w" "list_all is_ws w'" and w': "w' = [] \<or> hd w' = nl"
  shows "reads fl (CHR ''['' # w0 @ join (CHR '','' # w) ts @ w' @ '']'') (JArray js)"
  unfolding reads_def
proof (intro allI impI)
  fix st u
  let ?s = "join (CHR '','' # w) ts @ w' @ CHR '']'' # u"
  obtain r where r: "delim r" "?s = hd ts @ r"
    using join_split [OF assms(2) delim_closing [OF w', of "CHR '']''" u], of w] by auto
  have "reads fl (hd ts) (hd js)" using assms(1,2) by (cases ts; cases js) auto
  from reads_not_close [OF this r(1)] have "fst (scan fl ?s) \<noteq> TEndArray" by (simp add: r(2))
  then have "run_value fl st (CHR ''['' # w0 @ ?s) = run_value fl (FArray [] # st) ?s"
    by (cases "scan fl ?s") (simp add: run_value_def scan_punct parse_value.simps scan_ws [OF ws(1)])
  also have "\<dots> = after_value fl st (JArray js) u"
    using reads_elements [OF assms(1,2) ws(2,3) w', of "[]"] by simp
  finally show "run_value fl st ((CHR ''['' # w0 @ join (CHR '','' # w) ts @ w' @ '']'') @ u) =
      after_value fl st (JArray js) u" by simp
qed

lemma reads_object:
  assumes "list_all2 (reads_member fl) ts kvs" "ts \<noteq> []" "msorted kvs"
    and ws: "list_all is_ws w0" "list_all is_ws w" "list_all is_ws w'" and w': "w' = [] \<or> hd w' = nl"
  shows "reads fl (CHR ''{'' # w0 @ join (CHR '','' # w) ts @ w' @ ''}'') (JObject kvs)"
  unfolding reads_def
proof (intro allI impI)
  fix st u
  let ?s = "join (CHR '','' # w) ts @ w' @ CHR ''}'' # u"
  obtain r where r: "delim r" "?s = hd ts @ r"
    using join_split [OF assms(2) delim_closing [OF w', of "CHR ''}''" u], of w] by auto
  have "reads_member fl (hd ts) (hd kvs)" using assms(1,2) by (cases ts; cases kvs) auto
  with r(1) obtain s where "scan fl (hd ts @ r) = (TString (fst (hd kvs)), s)"
    unfolding reads_member_def by blast
  then have "scan fl ?s = (TString (fst (hd kvs)), s)" by (simp only: r(2))
  then have "run_value fl st (CHR ''{'' # w0 @ ?s) = run_member fl [] st ?s"
    by (cases "scan fl s")
      (simp add: run_value_def run_member_def scan_punct parse_value.simps [of fl st TBeginObject]
        scan_ws [OF ws(1)] split: token.split)
  also have "\<dots> = after_value fl st (JObject (map_list kvs)) u"
    using reads_members [OF assms(1,2) ws(2,3) w', of "[]"] by (simp add: map_list_def)
  finally show "run_value fl st ((CHR ''{'' # w0 @ join (CHR '','' # w) ts @ w' @ ''}'') @ u) =
      after_value fl st (JObject kvs) u" using assms(3) by simp
qed

subsection \<open>The round trip\<close>

lemma bind_res_Inr_id: "bind_res r Inr = r"
  by (cases r) auto

lemma map_res_list_all2: "map_res f xs = Inr ys \<Longrightarrow> list_all2 (\<lambda>y x. f x = Inr y) ys xs"
  by (induction xs arbitrary: ys) (auto simp: bind_res_Inr_iff)

lemma msorted_map_snd: "msorted (map (\<lambda>kv. (fst kv, f (snd kv))) kvs) \<longleftrightarrow> msorted kvs"
  by (simp add: msorted_def comp_def)

lemma reads_scalars:
  "reads fl ''null'' JNull" "reads fl ''true'' (JBool True)" "reads fl ''false'' (JBool False)"
  using scan_words [of fl] by (simp_all add: reads_def run_value_def parse_value.simps)

lemma reads_empty: "reads fl ''[]'' (JArray [])" "reads fl ''{}'' (JObject [])"
  by (simp_all add: reads_def run_value_def scan_punct parse_value.simps)

lemma reads_numbers:
  "reads fl (dump_unsigned w) (JUnsigned w)"
  "reads fl (dump_integer w) (norm_json (JInteger w))"
  "float_io_ok fl \<Longrightarrow> reads fl (dump_float fl w) (norm_json (JFloat w))"
proof -
  show "reads fl (dump_float fl w) (norm_json (JFloat w))" if "float_io_ok fl"
  proof (cases "double_finite w")
    case True
    with that show ?thesis by (simp add: reads_def run_value_def scan_float parse_value.simps)
  next
    case False
    with reads_scalars(1) show ?thesis by (simp add: dump_float_def)
  qed
qed (simp_all add: reads_def run_value_def scan_unsigned scan_integer parse_value.simps)

lemma reads_quoted: "dump_quoted s = Inr t \<Longrightarrow> reads fl t (JString s)"
  by (simp add: reads_def run_value_def scan_quoted parse_value.simps)

lemma list_all_spaces [simp]: "list_all is_ws (spaces n)"
  by (simp add: spaces_def list_all_iff is_ws_def)

lemma is_ws_nl [simp]: "is_ws nl"
  by (simp add: is_ws_def nl_def)

text \<open>One element of an array and one member of an object, as the serializer writes them.\<close>

lemma dump_elements_read:
  assumes "\<And>j t. j \<in> set js \<Longrightarrow> dump_val fl p step c j = Inr t \<Longrightarrow> reads fl t (norm_json j)"
    and "map_res (\<lambda>j. bind_res (dump_val fl p step c j) (\<lambda>t. Inr (w @ t))) js = Inr ts"
    and "list_all is_ws w"
  shows "list_all2 (reads fl) ts (map norm_json js)"
  unfolding list.rel_map
  by (rule list.rel_mono_strong [OF map_res_list_all2 [OF assms(2)]])
    (auto simp: bind_res_Inr_iff assms(1) intro!: reads_ws [OF assms(3)])

lemma dump_members_read:
  assumes "\<And>kv t. kv \<in> set kvs \<Longrightarrow> dump_val fl p step c (snd kv) = Inr t \<Longrightarrow>
      reads fl t (norm_json (snd kv))"
    and "map_res (\<lambda>kv. bind_res (dump_quoted (fst kv))
            (\<lambda>k. bind_res (dump_val fl p step c (snd kv)) (\<lambda>t. Inr (w @ k @ CHR '':'' # w' @ t)))) kvs
          = Inr ts"
    and "list_all is_ws w" "list_all is_ws w'"
  shows "list_all2 (reads_member fl) ts (map (\<lambda>kv. (fst kv, norm_json (snd kv))) kvs)"
  unfolding list.rel_map
  by (rule list.rel_mono_strong [OF map_res_list_all2 [OF assms(2)]])
    (use assms(1) in \<open>force simp: bind_res_Inr_iff
        intro!: reads_member_ws [OF assms(3)] reads_memberI assms(4)\<close>)

lemma dump_array_reads:
  assumes el: "\<And>j c t. j \<in> set js \<Longrightarrow> dump_val fl p step c j = Inr t \<Longrightarrow> reads fl t (norm_json j)"
    and "js \<noteq> []" "dump_val fl p step cur (JArray js) = Inr t"
  shows "reads fl t (norm_json (JArray js))"
proof (cases p)
  case True
  with assms(2,3) obtain ts where ts:
    "map_res (\<lambda>j. bind_res (dump_val fl p step (cur + step) j) (\<lambda>t. Inr (spaces (cur + step) @ t))) js
       = Inr ts"
    "t = CHR ''['' # [nl] @ join (CHR '','' # [nl]) ts @ (nl # spaces cur) @ '']''"
    by (auto simp: bind_res_Inr_iff)
  note dump_elements_read [OF el ts(1)]
  moreover have "ts \<noteq> []" using map_res_Inr_length [OF ts(1)] assms(2) by auto
  ultimately show ?thesis unfolding ts(2) norm_json.simps by (intro reads_array) auto
next
  case False
  with assms(2,3) obtain ts where ts: "map_res (dump_val fl p step cur) js = Inr ts"
    "t = CHR ''['' # [] @ join (CHR '','' # []) ts @ [] @ '']''"
    by (auto simp: bind_res_Inr_iff)
  have "map_res (\<lambda>j. bind_res (dump_val fl p step cur j) (\<lambda>t. Inr ([] @ t))) js = Inr ts"
    using ts(1) by (simp add: bind_res_Inr_id)
  note dump_elements_read [OF el this]
  moreover have "ts \<noteq> []" using map_res_Inr_length [OF ts(1)] assms(2) by auto
  ultimately show ?thesis unfolding ts(2) norm_json.simps by (intro reads_array) auto
qed

lemma dump_object_reads:
  assumes el: "\<And>kv c t. kv \<in> set kvs \<Longrightarrow> dump_val fl p step c (snd kv) = Inr t \<Longrightarrow>
      reads fl t (norm_json (snd kv))"
    and "kvs \<noteq> []" "msorted kvs" "dump_val fl p step cur (JObject kvs) = Inr t"
  shows "reads fl t (norm_json (JObject kvs))"
proof (cases p)
  case True
  with assms(2,4) obtain ts where ts:
    "map_res (\<lambda>kv. bind_res (dump_quoted (fst kv))
                (\<lambda>k. bind_res (dump_val fl p step (cur + step) (snd kv))
                  (\<lambda>t. Inr (spaces (cur + step) @ k @ CHR '':'' # '' '' @ t)))) kvs = Inr ts"
    "t = CHR ''{'' # [nl] @ join (CHR '','' # [nl]) ts @ (nl # spaces cur) @ ''}''"
    by (auto simp: bind_res_Inr_iff)
  note dump_members_read [OF el ts(1)]
  moreover have "list_all is_ws '' ''" by (simp add: is_ws_def)
  moreover have "ts \<noteq> []" using map_res_Inr_length [OF ts(1)] assms(2) by auto
  ultimately show ?thesis unfolding ts(2) norm_json.simps
    using assms(3) by (intro reads_object) (auto simp: msorted_map_snd)
next
  case False
  with assms(2,4) obtain ts where ts:
    "map_res (\<lambda>kv. bind_res (dump_quoted (fst kv))
                (\<lambda>k. bind_res (dump_val fl p step cur (snd kv))
                  (\<lambda>t. Inr ([] @ k @ CHR '':'' # [] @ t)))) kvs = Inr ts"
    "t = CHR ''{'' # [] @ join (CHR '','' # []) ts @ [] @ ''}''"
    by (auto simp: bind_res_Inr_iff)
  note dump_members_read [OF el ts(1)]
  moreover have "ts \<noteq> []" using map_res_Inr_length [OF ts(1)] assms(2) by auto
  ultimately show ?thesis unfolding ts(2) norm_json.simps
    using assms(3) by (intro reads_object) (auto simp: msorted_map_snd)
qed

lemma dump_val_reads:
  assumes "float_io_ok fl"
  shows "wf_json j \<Longrightarrow> dump_val fl p step cur j = Inr t \<Longrightarrow> reads fl t (norm_json j)"
proof (induction j arbitrary: cur t)
  case (JArray js)
  show ?case
  proof (cases "js = []")
    case True
    with JArray.prems show ?thesis by (auto simp: reads_empty)
  next
    case False
    with JArray show ?thesis by (intro dump_array_reads) (auto simp: list_all_iff)
  qed
next
  case (JObject kvs)
  show ?case
  proof (cases "kvs = []")
    case True
    with JObject.prems show ?thesis by (auto simp: reads_empty)
  next
    case False
    have "reads fl t (norm_json (snd kv))"
      if "kv \<in> set kvs" "dump_val fl p step c (snd kv) = Inr t" for kv c t
      using JObject.IH [OF that(1) _ _ that(2)] JObject.prems(1) that(1)
      by (cases kv) (auto simp: list_all_iff)
    with False JObject.prems show ?thesis by (intro dump_object_reads) auto
  qed
qed (auto simp: reads_scalars reads_numbers(3) [OF assms] reads_numbers(1,2) reads_quoted
      simp del: norm_json.simps(1,2))

lemma reads_no_bom: "reads fl t j \<Longrightarrow> skip_bom t = Some t"
proof (cases t)
  case Nil
  then show ?thesis by (simp add: skip_bom_def)
next
  case (Cons c s)
  assume r: "reads fl t j"
  have "byte c \<noteq> 239"
  proof
    assume "byte c = 239"
    then have "c = CHR 0xEF" by (simp add: byte_eq_iff char_of_def bit_Suc_0_iff)
    with Cons have "scan fl t = (TError, [])"
      by (simp add: scan_def is_ws_def scan_token_def is_digit_def)
    with r show False by (auto simp: reads_def run_value_def parse_value.simps after_value.simps
          dest!: spec [of _ "[]"])
  qed
  with Cons show ?thesis by (simp add: skip_bom_def)
qed

lemma reads_parse: "reads fl t j \<Longrightarrow> json_parse fl t = Inr j"
proof -
  assume r: "reads fl t j"
  then have "run_value fl [] (t @ []) = Inr (j, [])"
    unfolding reads_def after_value.simps(1) [symmetric, of j "[]" fl] using delim_simps(1) by blast
  with reads_no_bom [OF r] show ?thesis
    by (cases "scan fl t") (simp add: json_parse_def run_value_def scan_def)
qed

lemma parse_dump:
  "float_io_ok fl \<Longrightarrow> wf_json j \<Longrightarrow> json_dump fl j = Inr t \<Longrightarrow> json_parse fl t = Inr (norm_json j)"
  unfolding json_dump_def by (rule reads_parse [OF dump_val_reads])

lemma parse_dump_indent:
  "float_io_ok fl \<Longrightarrow> wf_json j \<Longrightarrow> json_dump_indent fl n j = Inr t \<Longrightarrow>
     json_parse fl t = Inr (norm_json j)"
  unfolding json_dump_indent_def by (rule reads_parse [OF dump_val_reads])

subsection \<open>Which values can be written\<close>

fun json_utf8 :: "json \<Rightarrow> bool" where
  "json_utf8 (JString s) = utf8_valid s"
| "json_utf8 (JArray js) = list_all json_utf8 js"
| "json_utf8 (JObject kvs) = list_all (\<lambda>kv. utf8_valid (fst kv) \<and> json_utf8 (snd kv)) kvs"
| "json_utf8 _ = True"

lemma map_res_ok_iff: "(\<exists>ys. map_res f xs = Inr ys) \<longleftrightarrow> (\<forall>x \<in> set xs. \<exists>y. f x = Inr y)"
proof (induction xs)
  case (Cons x xs)
  then show ?case by (cases "f x"; cases "map_res f xs") auto
qed simp

lemma dump_val_ok_iff: "(\<exists>t. dump_val fl p step cur j = Inr t) \<longleftrightarrow> json_utf8 j"
proof (induction j arbitrary: cur)
  case (JArray js)
  have "(\<exists>ts. map_res (\<lambda>j. bind_res (dump_val fl p step c j) (\<lambda>t. Inr (w @ t))) js = Inr ts)
      \<longleftrightarrow> list_all json_utf8 js" for c w
    unfolding map_res_ok_iff list_all_iff using JArray.IH by (simp add: bind_res_Inr_iff)
  from this [of cur "[]"] this [of "cur + step" "spaces (cur + step)"] show ?case
    by (auto simp: bind_res_Inr_iff bind_res_Inr_id)
next
  case (JObject kvs)
  have "(\<exists>ts. map_res (\<lambda>kv. bind_res (dump_quoted (fst kv))
           (\<lambda>k. bind_res (dump_val fl p step c (snd kv)) (\<lambda>t. Inr (g k t)))) kvs = Inr ts)
      \<longleftrightarrow> list_all (\<lambda>kv. utf8_valid (fst kv) \<and> json_utf8 (snd kv)) kvs" for c g
  proof -
    have "(\<exists>t. dump_val fl p step c (snd kv) = Inr t) \<longleftrightarrow> json_utf8 (snd kv)" if "kv \<in> set kvs" for kv
      using JObject.IH [OF that, of "snd kv" c] by (cases kv) simp
    then show ?thesis
      unfolding map_res_ok_iff list_all_iff dump_quoted_ok_iff [symmetric]
      by (simp add: bind_res_Inr_iff) blast
  qed
  from this [of cur "\<lambda>k t. k @ '':'' @ t"]
    this [of "cur + step" "\<lambda>k t. spaces (cur + step) @ k @ '': '' @ t"] show ?case
    by (auto simp: bind_res_Inr_iff)
qed (simp_all add: dump_quoted_ok_iff)

lemma map_res_Inr_ex: "map_res f xs = Inr ys \<Longrightarrow> y \<in> set ys \<Longrightarrow> \<exists>x \<in> set xs. f x = Inr y"
  by (induction xs arbitrary: ys) (auto simp: bind_res_Inr_iff)

lemma map_res_Inl_ex: "map_res f xs = Inl e \<Longrightarrow> \<exists>x \<in> set xs. f x = Inl e"
  by (induction xs) (auto simp: bind_res_Inl_iff)

lemma dump_val_error: "dump_val fl p step cur j = Inl e \<Longrightarrow> e = JsonTypeError 316"
proof (induction j arbitrary: cur)
  case (JArray js)
  then show ?case
    by (fastforce split: if_splits simp: bind_res_Inl_iff dest!: map_res_Inl_ex)
next
  case (JObject kvs)
  then show ?case
    by (fastforce split: if_splits simp: bind_res_Inl_iff dest!: map_res_Inl_ex dest: dump_quoted_error)
qed (auto dest: dump_quoted_error)

subsection \<open>One value, one line\<close>

definition num_char :: "char \<Rightarrow> bool" where
  "num_char c \<longleftrightarrow> is_digit c \<or> c \<in> {CHR ''+'', CHR ''-'', CHR ''.'', CHR ''e'', CHR ''E''}"

lemma num_char_simps:
  "is_digit c \<Longrightarrow> num_char c" "is_exp_char c \<Longrightarrow> num_char c" "num_char (CHR ''+'')" "num_char (CHR ''-'')"
  "num_char (CHR ''.'')"
  by (auto simp: num_char_def is_exp_char_def)

lemma num_char_printable: "num_char c \<Longrightarrow> 32 \<le> byte c"
  by (auto simp: num_char_def is_digit_def byte_def)

lemma digits_of_chars: "digits_of s = (ds, r) \<Longrightarrow> list_all num_char ds"
  by (auto simp: digits_of_def list_all_iff intro: num_char_simps dest: set_takeWhileD)

lemma scan_exponent_chars: "scan_exponent s = Some (x, r) \<Longrightarrow> list_all num_char x"
  by (auto simp: scan_exponent_def Let_def num_char_simps split: list.splits if_splits prod.splits
      dest!: digits_of_chars)

lemma scan_opt_exponent_chars:
  "scan_opt_exponent ty b s = Some (ty', b', r) \<Longrightarrow> list_all num_char b \<Longrightarrow> list_all num_char b'"
  by (auto simp: scan_opt_exponent_def num_char_simps split: list.splits if_splits
      dest!: scan_exponent_chars)

lemma scan_fraction_chars:
  "scan_fraction ty b s = Some (ty', b', r) \<Longrightarrow> list_all num_char b \<Longrightarrow> list_all num_char b'"
  by (auto simp: scan_fraction_def num_char_simps split: list.splits if_splits prod.splits
      dest!: digits_of_chars elim!: scan_opt_exponent_chars)

lemma scan_int_part_chars:
  "scan_int_part ty b s = Some (ty', b', r) \<Longrightarrow> list_all num_char b \<Longrightarrow> list_all num_char b'"
  by (auto simp: scan_int_part_def num_char_simps is_digit_def split: list.splits if_splits prod.splits
      dest!: digits_of_chars elim!: scan_fraction_chars)

lemma scan_number_text_chars: "scan_number_text s = Some (ty, b, r) \<Longrightarrow> list_all num_char b"
  by (auto simp: scan_number_text_def num_char_simps split: if_splits elim!: scan_int_part_chars)

definition printable :: "string \<Rightarrow> bool" where
  "printable t \<longleftrightarrow> list_all (\<lambda>c. 32 \<le> byte c) t"

lemma printable_simps [simp]:
  "printable []" "printable (s @ t) \<longleftrightarrow> printable s \<and> printable t"
  "printable (c # t) \<longleftrightarrow> 32 \<le> byte c \<and> printable t"
  by (simp_all add: printable_def)

lemma printable_numbers:
  "printable (dump_unsigned w)" "printable (dump_integer w)"
  "float_io_ok fl \<Longrightarrow> printable (dump_float fl w)"
proof -
  have n: "printable (nat_str n)" for n
    using num_char_printable [OF num_char_simps(1) [OF nat_str_digits]]
    by (simp add: printable_def list_all_iff)
  then show "printable (dump_unsigned w)" "printable (dump_integer w)"
    by (simp_all add: dump_unsigned_def dump_integer_def int_str_def byte_Char)
  assume fl: "float_io_ok fl"
  show "printable (dump_float fl w)"
  proof (cases "double_finite w")
    case True
    with fl have "list_all num_char (fio_to_chars fl w)"
      by (auto simp: float_io_ok_def dest: scan_number_text_chars)
    with True show ?thesis
      by (simp add: dump_float_def printable_def list_all_iff num_char_printable)
  qed (simp add: dump_float_def byte_Char)
qed

lemma printable_join: "list_all printable ts \<Longrightarrow> printable (join '','' ts)"
  by (induction "'',''" ts rule: join.induct) (auto simp: byte_Char)

lemma dump_compact_printable:
  assumes "float_io_ok fl"
  shows "dump_val fl False step cur j = Inr t \<Longrightarrow> printable t"
proof (induction j arbitrary: cur t)
  case (JArray js)
  have "list_all printable ts" if "map_res (dump_val fl False step cur) js = Inr ts" for ts
    using map_res_Inr_ex [OF that] JArray.IH unfolding list_all_iff by blast
  with JArray.prems show ?case
    by (auto split: if_splits simp: bind_res_Inr_iff byte_Char printable_join)
next
  case (JObject kvs)
  have "list_all printable ts"
    if "map_res (\<lambda>kv. bind_res (dump_quoted (fst kv))
           (\<lambda>k. bind_res (dump_val fl False step cur (snd kv)) (\<lambda>t. Inr (k @ '':'' @ t)))) kvs = Inr ts" for ts
  proof -
    have "printable t" if "kv \<in> set kvs" "dump_val fl False step cur (snd kv) = Inr t" for kv t
      using JObject.IH [OF that(1) _ that(2)] by (cases kv) simp
    moreover have "printable t" if "dump_quoted k = Inr t" for k t
      using dump_quoted_printable [OF that] by (simp add: printable_def list_all_iff)
    ultimately have "printable t" if "t \<in> set ts" for t
      using map_res_Inr_ex [OF \<open>map_res _ _ = _\<close> that] by (auto simp: bind_res_Inr_iff byte_Char)
    then show ?thesis by (simp add: list_all_iff)
  qed
  with JObject.prems show ?case
    by (auto split: if_splits simp: bind_res_Inr_iff byte_Char printable_join)
next
  case (JString s)
  then show ?case
    using dump_quoted_printable [of s t] by (simp add: printable_def list_all_iff)
qed (auto simp: printable_numbers assms byte_Char)

lemma json_dump_no_newline: "float_io_ok fl \<Longrightarrow> json_dump fl j = Inr t \<Longrightarrow> nl \<notin> set t"
  using dump_compact_printable [of fl 0 0 j t]
  by (auto simp: json_dump_def printable_def list_all_iff nl_def byte_Char)

lemma json_dump_nonempty:
  "float_io_ok fl \<Longrightarrow> wf_json j \<Longrightarrow> json_dump fl j = Inr t \<Longrightarrow> t \<noteq> []"
  using parse_dump [of fl j t]
  by (auto simp: json_parse_def skip_bom_def scan_def parse_value.simps)

lemma get_int_norm [simp]: "get_int (norm_json (json_of_int i)) = Inr i"
  using get_int_json_of_int [of i] by (simp add: json_of_int_def)

lemma norm_json_value:
  "norm_json (json_object kvs) = json_object (map (\<lambda>kv. (fst kv, norm_json (snd kv))) kvs)"
proof -
  have "map (\<lambda>kv. (fst kv, f (snd kv))) (mput k v m) = mput k (f v) (map (\<lambda>kv. (fst kv, f (snd kv))) m)"
    for f :: "json \<Rightarrow> json" and k :: string and v m
    by (induction k v m rule: mput.induct) auto
  then have "map (\<lambda>kv. (fst kv, norm_json (snd kv))) (map_list kvs) =
      map_list (map (\<lambda>kv. (fst kv, norm_json (snd kv))) kvs)"
    by (induction kvs rule: rev_induct) (auto simp: map_list_snoc)
  then show ?thesis by (simp add: json_object_def)
qed

subsection \<open>The interface of the library\<close>

text \<open>
  What the clients (storage, configuration, the CDP client) rely on: a value that can be written is
  one line of text, and reading that line gives the value up to \<open>norm\<close>. \<open>fl\<close> is the conversion
  of doubles, \<open>ok\<close> what is known of it.
\<close>

locale json_text =
  fixes ok :: "'f \<Rightarrow> bool"
    and dump :: "'f \<Rightarrow> 'j \<Rightarrow> string result"
    and parse :: "'f \<Rightarrow> string \<Rightarrow> 'j result"
    and wf :: "'j \<Rightarrow> bool"
    and norm :: "'j \<Rightarrow> 'j"
  assumes read_back: "ok fl \<Longrightarrow> wf j \<Longrightarrow> dump fl j = Inr t \<Longrightarrow> parse fl t = Inr (norm j)"
    and one_line: "ok fl \<Longrightarrow> dump fl j = Inr t \<Longrightarrow> nl \<notin> set t"
    and not_empty: "ok fl \<Longrightarrow> wf j \<Longrightarrow> dump fl j = Inr t \<Longrightarrow> t \<noteq> []"
begin

lemma dump_inject:
  "ok fl \<Longrightarrow> wf i \<Longrightarrow> wf j \<Longrightarrow> dump fl i = Inr t \<Longrightarrow> dump fl j = Inr t \<Longrightarrow> norm i = norm j"
  by (metis read_back sum.inject(2))

lemma map_read_back:
  assumes "ok fl" "list_all wf js" "map_res (dump fl) js = Inr ts"
  shows "map_res (parse fl) ts = Inr (map norm js)"
  using assms(2,3)
  by (induction js arbitrary: ts) (auto simp: bind_res_Inr_iff read_back [OF assms(1)])

lemma lines_not_empty:
  assumes "ok fl" "list_all wf js" "map_res (dump fl) js = Inr ts"
  shows "list_all (\<lambda>t. t \<noteq> [] \<and> nl \<notin> set t) ts"
  using assms(2,3)
  by (induction js arbitrary: ts)
    (auto simp: bind_res_Inr_iff dest: one_line [OF assms(1)] not_empty [OF assms(1)])

end

interpretation jt: json_text float_io_ok json_dump json_parse wf_json norm_json
  by unfold_locales (auto simp: parse_dump json_dump_no_newline dest: json_dump_nonempty)

text \<open>Values that are valid UTF-8 throughout can be written.\<close>

lemma set_mput_subset: "set (mput k v m) \<subseteq> insert (k, v) (set m)"
  by (induction k v m rule: mput.induct) auto

lemma json_utf8_object:
  assumes "list_all (\<lambda>kv. utf8_valid (fst kv) \<and> json_utf8 (snd kv)) kvs"
  shows "json_utf8 (json_object kvs)"
proof -
  have "set (foldl (\<lambda>m (k, v). mput k v m) m kvs) \<subseteq> set m \<union> set kvs" for m :: "(string \<times> json) list"
  proof (induction kvs arbitrary: m)
    case (Cons kv kvs)
    obtain k v where kv: "kv = (k, v)" by (cases kv)
    show ?case using Cons.IH [of "mput k v m"] set_mput_subset [of k v m] by (auto simp: kv)
  qed simp
  from this [of "[]"] assms show ?thesis by (auto simp: json_object_def map_list_def list_all_iff)
qed

lemma dump_ok: "json_utf8 j \<Longrightarrow> \<exists>s. json_dump fl j = Inr s"
  using dump_val_ok_iff [of fl False 0 0 j] by (simp add: json_dump_def)

lemma utf8_empty: "utf8_valid []"
  by simp

lemma utf8_ascii: "list_all (\<lambda>c. \<not> digit7 c) s \<Longrightarrow> utf8_valid s"
proof (induction s)
  case (Cons c s)
  have "byte c < 128" using Cons.prems by (cases c) (auto simp: byte_def of_char_def)
  with Cons show ?case by simp
qed simp

text \<open>
  A concrete conversion with the property, to show that the hypothesis can hold: the bit pattern
  as a decimal number with a fraction.
\<close>

definition bits_float_io :: float_io where
  "bits_float_io =
     \<lparr>fio_to_chars = \<lambda>w. nat_str (unat w) @ ''.0'',
      fio_strtod = \<lambda>s. word_of_nat (dec_val (takeWhile is_digit s))\<rparr>"

lemma bits_float_io_ok: "float_io_ok bits_float_io"
proof -
  have frac: "scan_fraction NUnsigned b ''.0'' = Some (NFloat, b @ ''.0'', [])" for b
    by (simp add: scan_fraction_def digits_of_def scan_opt_exponent_def is_digit_def)
  have "scan_number_text (nat_str n @ ''.0'') = Some (NFloat, nat_str n @ ''.0'', [])" for n
  proof (cases "n = 0")
    case True
    have "nat_str 0 = ''0''"
      by (simp add: nat_str.simps digit_char_def char_of_def bit_Suc_0_iff)
    with True frac [of "''0''"] show ?thesis
      by (simp add: scan_number_text_def scan_int_part_def)
  next
    case False
    obtain c t where ct: "nat_str n = c # t" by (cases "nat_str n") auto
    with False nat_str_no_leading_zero [of n] have c: "c \<noteq> CHR ''0''" by simp
    have all: "\<forall>d \<in> set (c # t). is_digit d" using nat_str_digits [of _ n] ct by auto
    then have d: "digits_of (t @ ''.0'') = (t, ''.0'')"
      by (simp add: digits_of_def takeWhile_append2 dropWhile_append2)
    have "c \<noteq> CHR ''-''" using all by auto
    with c d all ct frac [of "c # t"] show ?thesis
      by (simp add: scan_number_text_def scan_int_part_def)
  qed
  then show ?thesis
    by (simp add: float_io_ok_def bits_float_io_def nat_str_takeWhile)
qed

end
