(* ===== verification/Module_Models.thy ===== *)
theory Module_Models
  imports Json_Roundtrip
begin

text \<open>
  The configuration structs the modules own, each with its \<open>from_json\<close>: \<open>LLMConfig\<close>
  (llm/llm_models.h), \<open>BrowserConfig\<close> (browser/browser_models.h, with \<open>to_json\<close>),
  \<open>SchedulerConfig\<close>, \<open>StorageConfig\<close> and \<open>LogConfig\<close>. The first two have the name, but not the
  fields, of structs of config/config_models.h (see theory \<open>Config\<close>). The lemmas: an empty object
  gives the member initialisers, the browser configuration survives \<open>to_json\<close>, the text form and
  \<open>from_json\<close>, and the readers fail only with a conversion error.
\<close>

record llm_config =
  lm_provider :: string
  lm_api_key :: string
  lm_base_url :: string
  lm_model :: string
  lm_temperature :: u64
  lm_max_tokens :: int32
  lm_timeout :: int32
  lm_ca_cert_path :: string

definition default_llm_config :: llm_config where
  "default_llm_config =
     \<lparr>lm_provider = ''deepseek'', lm_api_key = [], lm_base_url = [], lm_model = ''deepseek-chat'',
      lm_temperature = 0x3FE6666666666666, lm_max_tokens = 4096, lm_timeout = 60,
      lm_ca_cert_path = []\<rparr>"

definition llm_config_from_json :: "json \<Rightarrow> llm_config \<Rightarrow> llm_config result" where
  "llm_config_from_json j = seq_res
     [read_field get_string j ''provider'' ''deepseek'' (\<lambda>v. lm_provider_update (\<lambda>_. v)),
      read_field get_string j ''api_key'' [] (\<lambda>v. lm_api_key_update (\<lambda>_. v)),
      read_field get_string j ''base_url'' [] (\<lambda>v. lm_base_url_update (\<lambda>_. v)),
      read_field get_string j ''model'' ''deepseek-chat'' (\<lambda>v. lm_model_update (\<lambda>_. v)),
      read_field get_double j ''temperature'' 0x3FE6666666666666 (\<lambda>v. lm_temperature_update (\<lambda>_. v)),
      read_field get_int j ''max_tokens'' 4096 (\<lambda>v. lm_max_tokens_update (\<lambda>_. v)),
      read_field get_int j ''timeout'' 60 (\<lambda>v. lm_timeout_update (\<lambda>_. v)),
      read_field get_string j ''ca_cert_path'' [] (\<lambda>v. lm_ca_cert_path_update (\<lambda>_. v))]"

record browser_config =
  br_headless :: bool
  br_slow_mo_ms :: int32
  br_viewport_width :: int32
  br_viewport_height :: int32
  br_locale :: string
  br_timeout_ms :: int32
  br_sessions_dir :: string
  br_cdp_port :: int32
  br_chrome_path :: string

definition default_browser_config :: browser_config where
  "default_browser_config =
     \<lparr>br_headless = True, br_slow_mo_ms = 500, br_viewport_width = 1920,
      br_viewport_height = 1080, br_locale = ''zh-CN'', br_timeout_ms = 30000,
      br_sessions_dir = ''data/sessions'', br_cdp_port = 0, br_chrome_path = []\<rparr>"

definition browser_config_to_json :: "browser_config \<Rightarrow> json" where
  "browser_config_to_json c = json_object
     [(''headless'', JBool (br_headless c)),
      (''slow_mo_ms'', json_of_int (br_slow_mo_ms c)),
      (''viewport_width'', json_of_int (br_viewport_width c)),
      (''viewport_height'', json_of_int (br_viewport_height c)),
      (''locale'', JString (br_locale c)),
      (''timeout_ms'', json_of_int (br_timeout_ms c)),
      (''sessions_dir'', JString (br_sessions_dir c)),
      (''cdp_port'', json_of_int (br_cdp_port c)),
      (''chrome_path'', JString (br_chrome_path c))]"

definition browser_config_from_json :: "json \<Rightarrow> browser_config \<Rightarrow> browser_config result" where
  "browser_config_from_json j = seq_res
     [read_field get_bool j ''headless'' True (\<lambda>v. br_headless_update (\<lambda>_. v)),
      read_field get_int j ''slow_mo_ms'' 500 (\<lambda>v. br_slow_mo_ms_update (\<lambda>_. v)),
      read_field get_int j ''viewport_width'' 1920 (\<lambda>v. br_viewport_width_update (\<lambda>_. v)),
      read_field get_int j ''viewport_height'' 1080 (\<lambda>v. br_viewport_height_update (\<lambda>_. v)),
      read_field get_string j ''locale'' ''zh-CN'' (\<lambda>v. br_locale_update (\<lambda>_. v)),
      read_field get_int j ''timeout_ms'' 30000 (\<lambda>v. br_timeout_ms_update (\<lambda>_. v)),
      read_field get_string j ''sessions_dir'' ''data/sessions'' (\<lambda>v. br_sessions_dir_update (\<lambda>_. v)),
      read_field get_int j ''cdp_port'' 0 (\<lambda>v. br_cdp_port_update (\<lambda>_. v)),
      read_field get_string j ''chrome_path'' [] (\<lambda>v. br_chrome_path_update (\<lambda>_. v))]"

record scheduler_config =
  sd_timezone :: string
  sd_max_workers :: int32

definition default_scheduler_config :: scheduler_config where
  "default_scheduler_config = \<lparr>sd_timezone = ''Asia/Shanghai'', sd_max_workers = 4\<rparr>"

definition scheduler_config_from_json :: "json \<Rightarrow> scheduler_config \<Rightarrow> scheduler_config result" where
  "scheduler_config_from_json j = seq_res
     [read_field get_string j ''timezone'' ''Asia/Shanghai'' (\<lambda>v. sd_timezone_update (\<lambda>_. v)),
      read_field get_int j ''max_workers'' 4 (\<lambda>v. sd_max_workers_update (\<lambda>_. v))]"

record storage_config =
  st_data_dir :: string

definition default_storage_config :: storage_config where
  "default_storage_config = \<lparr>st_data_dir = ''data''\<rparr>"

definition storage_config_from_json :: "json \<Rightarrow> storage_config \<Rightarrow> storage_config result" where
  "storage_config_from_json j = seq_res
     [read_field get_string j ''data_dir'' ''data'' (\<lambda>v. st_data_dir_update (\<lambda>_. v))]"

record log_config =
  lg_level :: string
  lg_rotation :: string
  lg_retention :: string
  lg_log_file :: string

definition default_log_config :: log_config where
  "default_log_config =
     \<lparr>lg_level = ''INFO'', lg_rotation = ''10 MB'', lg_retention = ''7 days'',
      lg_log_file = ''data/lynne.log''\<rparr>"

definition log_config_from_json :: "json \<Rightarrow> log_config \<Rightarrow> log_config result" where
  "log_config_from_json j = seq_res
     [read_field get_string j ''level'' ''INFO'' (\<lambda>v. lg_level_update (\<lambda>_. v)),
      read_field get_string j ''rotation'' ''10 MB'' (\<lambda>v. lg_rotation_update (\<lambda>_. v)),
      read_field get_string j ''retention'' ''7 days'' (\<lambda>v. lg_retention_update (\<lambda>_. v)),
      read_field get_string j ''log_file'' ''data/lynne.log'' (\<lambda>v. lg_log_file_update (\<lambda>_. v))]"

lemma module_defaults:
  "llm_config_from_json (JObject []) l = Inr default_llm_config"
  "browser_config_from_json (JObject []) b = Inr default_browser_config"
  "scheduler_config_from_json (JObject []) s = Inr default_scheduler_config"
  "storage_config_from_json (JObject []) t = Inr default_storage_config"
  "log_config_from_json (JObject []) g = Inr default_log_config"
  by (simp_all add: llm_config_from_json_def browser_config_from_json_def
      scheduler_config_from_json_def storage_config_from_json_def log_config_from_json_def
      read_field_def default_llm_config_def default_browser_config_def
      default_scheduler_config_def default_storage_config_def default_log_config_def)

lemma fails_module_configs:
  "fails_with conv_error (llm_config_from_json j)"
  "fails_with conv_error (browser_config_from_json j)"
  "fails_with conv_error (scheduler_config_from_json j)"
  "fails_with conv_error (storage_config_from_json j)"
  "fails_with conv_error (log_config_from_json j)"
  unfolding llm_config_from_json_def browser_config_from_json_def scheduler_config_from_json_def
    storage_config_from_json_def log_config_from_json_def
  by (intro fails_intros)+

lemma browser_config_read:
  "browser_config_from_json (browser_config_to_json c) c0 = Inr c"
  by (simp add: browser_config_from_json_def browser_config_to_json_def read_field_def)

lemma browser_config_read_norm:
  "browser_config_from_json (norm_json (browser_config_to_json c)) c0 = Inr c"
  by (simp add: browser_config_from_json_def browser_config_to_json_def norm_json_value read_field_def)

end
