(* ===== verification/File_System.thy ===== *)
theory File_System
  imports Lynne_Prelude
begin

text \<open>
  The file system as the sources use it through \<open>std::filesystem\<close> and \<open>std::fstream\<close>: nodes under
  absolute component lists, paths as strings joined with \<open>operator/\<close> and resolved against the
  working directory (\<open>.\<close>, \<open>..\<close> and empty components lexically; no links, permissions or full
  disks). A stream that cannot be opened is not an error: what is written to it is lost, as in
  the code. The lemmas describe reading after writing and that other files keep their content.
\<close>

datatype node = Dir | File string

record fs =
  fs_cwd :: "string list"
  fs_node :: "string list \<Rightarrow> node option"

subsection \<open>Paths\<close>

fun split_path :: "string \<Rightarrow> string list" where
  "split_path [] = [[]]"
| "split_path (c # s) =
     (if c = CHR ''/'' then [] # split_path s
      else case split_path s of [] \<Rightarrow> [[c]] | w # ws \<Rightarrow> (c # w) # ws)"

definition path_step :: "string list \<Rightarrow> string \<Rightarrow> string list" where
  "path_step acc c = (if c = [] \<or> c = ''.'' then acc else if c = ''..'' then butlast acc else acc @ [c])"

definition resolve :: "fs \<Rightarrow> string \<Rightarrow> string list" where
  "resolve f p = foldl path_step (if starts_with ''/'' p then [] else fs_cwd f) (split_path p)"

text \<open>\<open>operator/\<close> of \<open>std::filesystem::path\<close>: an absolute right operand replaces the left one.\<close>

definition path_join :: "string \<Rightarrow> string \<Rightarrow> string" where
  "path_join a b =
     (if starts_with ''/'' b then b
      else if a \<noteq> [] \<and> last a \<noteq> CHR ''/'' then a @ ''/'' @ b
      else a @ b)"

subsection \<open>Operations\<close>

definition set_node :: "string list \<Rightarrow> node \<Rightarrow> fs \<Rightarrow> fs" where
  "set_node p n f = f\<lparr>fs_node := (fs_node f)(p \<mapsto> n)\<rparr>"

definition fs_exists :: "fs \<Rightarrow> string \<Rightarrow> bool" where
  "fs_exists f p \<longleftrightarrow> p \<noteq> [] \<and> fs_node f (resolve f p) \<noteq> None"

text \<open>\<open>create_directories\<close>: every missing directory on the way, from the root down.\<close>

fun mkdirs :: "string list \<Rightarrow> string list \<Rightarrow> fs \<Rightarrow> fs \<times> unit result" where
  "mkdirs pre [] f = (f, Inr ())"
| "mkdirs pre (c # cs) f =
     (case fs_node f (pre @ [c]) of
        None \<Rightarrow> mkdirs (pre @ [c]) cs (set_node (pre @ [c]) Dir f)
      | Some Dir \<Rightarrow> mkdirs (pre @ [c]) cs f
      | Some (File s) \<Rightarrow> (f, Inl FilesystemError))"

definition create_directories :: "string \<Rightarrow> fs \<Rightarrow> fs \<times> unit result" where
  "create_directories p f = (if p = [] then (f, Inl FilesystemError) else mkdirs [] (resolve f p) f)"

text \<open>
  Opening a file for writing, truncated or for appending, and writing to it; the boolean says
  whether the stream is open.
\<close>

definition open_out :: "bool \<Rightarrow> string list \<Rightarrow> fs \<Rightarrow> fs \<times> bool" where
  "open_out app p f =
     (case fs_node f p of
        Some Dir \<Rightarrow> (f, False)
      | Some (File s) \<Rightarrow> (if app then f else set_node p (File []) f, True)
      | None \<Rightarrow> if p \<noteq> [] \<and> fs_node f (butlast p) = Some Dir then (set_node p (File []) f, True)
                else (f, False))"

definition write_out :: "string list \<Rightarrow> bool \<Rightarrow> string \<Rightarrow> fs \<Rightarrow> fs" where
  "write_out p is_open s f =
     (if is_open then
        (case fs_node f p of Some (File t) \<Rightarrow> set_node p (File (t @ s)) f | _ \<Rightarrow> f)
      else f)"

text \<open>\<open>std::getline\<close> in a loop: the lines of a file; a newline at the end starts no further line.\<close>

function (sequential) getlines :: "string \<Rightarrow> string list" where
  "getlines [] = []"
| "getlines (c # s) =
     takeWhile (\<lambda>d. d \<noteq> CHR 0x0A) (c # s) #
       (case dropWhile (\<lambda>d. d \<noteq> CHR 0x0A) (c # s) of [] \<Rightarrow> [] | d # r \<Rightarrow> getlines r)"
  by pat_completeness auto
termination
proof (relation "measure length")
  fix c s d r
  assume "dropWhile (\<lambda>d. d \<noteq> CHR 0x0A) (c # s) = d # r"
  then have "length (d # r) \<le> length (c # s)" by (metis length_dropWhile_le)
  then show "(r, c # s) \<in> measure length" by simp
qed simp

definition file_content :: "fs \<Rightarrow> string \<Rightarrow> string option" where
  "file_content f p =
     (case fs_node f (resolve f p) of Some (File s) \<Rightarrow> if p = [] then None else Some s | _ \<Rightarrow> None)"

text \<open>
  A well-formed file system: the root is a directory, and so is the parent of every node and the
  working directory.
\<close>

definition wf_fs :: "fs \<Rightarrow> bool" where
  "wf_fs f \<longleftrightarrow> fs_node f [] = Some Dir \<and> fs_node f (fs_cwd f) = Some Dir \<and>
     (\<forall>p c. fs_node f (p @ [c]) \<noteq> None \<longrightarrow> fs_node f p = Some Dir)"

subsection \<open>Lemmas\<close>

lemma set_node_simps [simp]:
  "fs_node (set_node p n f) q = (if q = p then Some n else fs_node f q)"
  "fs_cwd (set_node p n f) = fs_cwd f"
  by (simp_all add: set_node_def)

lemma resolve_cwd: "fs_cwd f = fs_cwd g \<Longrightarrow> resolve f p = resolve g p"
  by (simp add: resolve_def)

lemma split_path_nonempty [simp]: "split_path s \<noteq> []"
  by (induction s) (auto split: list.splits)

lemma split_path_append: "split_path (a @ CHR ''/'' # b) = split_path a @ split_path b"
  by (induction a) (auto split: list.splits)

lemma split_path_plain: "CHR ''/'' \<notin> set s \<Longrightarrow> split_path s = [s]"
  by (induction s) auto

lemma path_step_empty [simp]: "path_step acc [] = acc"
  by (simp add: path_step_def)

text \<open>A name that is one component of a path.\<close>

definition is_name :: "string \<Rightarrow> bool" where
  "is_name c \<longleftrightarrow> c \<noteq> [] \<and> c \<noteq> ''.'' \<and> c \<noteq> ''..'' \<and> CHR ''/'' \<notin> set c"

lemma is_name_simps:
  assumes "is_name c"
  shows "\<not> starts_with ''/'' c" "split_path c = [c]" "path_step acc c = acc @ [c]" "c \<noteq> []"
proof -
  show "\<not> starts_with ''/'' c" using assms by (cases c) (auto simp: is_name_def)
qed (use assms in \<open>simp_all add: is_name_def split_path_plain path_step_def\<close>)

lemma starts_slash:
  "a \<noteq> [] \<Longrightarrow> starts_with ''/'' (a @ t) \<longleftrightarrow> starts_with ''/'' a"
  "starts_with ''/'' (b @ CHR ''/'' # t) \<longleftrightarrow> starts_with ''/'' (b @ ''/'')"
  by (cases a; simp) (cases b; simp)

lemma resolve_slash:
  "a \<noteq> [] \<Longrightarrow> resolve f (a @ CHR ''/'' # c) = foldl path_step (resolve f a) (split_path c)"
  "resolve f (b @ CHR ''/'' # c) = foldl path_step (resolve f (b @ ''/'')) (split_path c)"
  using starts_slash(1) [of a "CHR ''/'' # c"] starts_slash(2) [of b c] split_path_append [of b "[]"]
  by (simp_all add: resolve_def split_path_append del: starts_with_Cons)

lemma resolve_join:
  assumes "is_name c"
  shows "resolve f (path_join a c) = resolve f a @ [c]"
proof -
  note c = is_name_simps [OF assms]
  consider "a = []" | b where "a = b @ ''/''" | "a \<noteq> []" "last a \<noteq> CHR ''/''"
    by (metis append_butlast_last_id)
  then show ?thesis
  proof cases
    case 1
    moreover have "\<not> starts_with ''/'' []" by simp
    ultimately show ?thesis using c by (simp add: path_join_def resolve_def del: starts_with_Cons)
  next
    case 2
    then have "path_join a c = b @ CHR ''/'' # c"
      using c by (simp add: path_join_def del: starts_with_Cons)
    with 2 c resolve_slash(2) [of f b c] show ?thesis by simp
  next
    case 3
    then have "path_join a c = a @ CHR ''/'' # c"
      using c by (simp add: path_join_def del: starts_with_Cons)
    with c resolve_slash(1) [OF 3(1), of f c] show ?thesis by simp
  qed
qed

lemma path_join_nonempty [simp]: "is_name c \<Longrightarrow> path_join a c \<noteq> []"
  by (auto simp: path_join_def is_name_def)

lemma fs_exists_join [simp]:
  "is_name c \<Longrightarrow> fs_exists f (path_join a c) \<longleftrightarrow> fs_node f (resolve f a @ [c]) \<noteq> None"
  by (simp add: fs_exists_def resolve_join)

lemma file_content_join [simp]:
  "is_name c \<Longrightarrow> file_content f (path_join a c) =
     (case fs_node f (resolve f a @ [c]) of Some (File s) \<Rightarrow> Some s | _ \<Rightarrow> None)"
  by (simp add: file_content_def resolve_join split: option.split node.split)

lemma getlines_cons:
  assumes "CHR 0x0A \<notin> set l" "l \<noteq> [] \<or> s \<noteq> []"
  shows "getlines (l @ CHR 0x0A # s) = l # getlines s"
proof -
  have "takeWhile (\<lambda>d. d \<noteq> CHR 0x0A) (l @ CHR 0x0A # s) = l"
    "dropWhile (\<lambda>d. d \<noteq> CHR 0x0A) (l @ CHR 0x0A # s) = CHR 0x0A # s"
    using assms(1) by (auto simp: takeWhile_append dropWhile_append)
  then show ?thesis by (cases l) auto
qed

text \<open>A file is made of whole lines: it is empty or its last byte is a newline.\<close>

definition whole_lines :: "string \<Rightarrow> bool" where
  "whole_lines s \<longleftrightarrow> s = [] \<or> last s = CHR 0x0A"

lemma getlines_append: "whole_lines s \<Longrightarrow> getlines (s @ t) = getlines s @ getlines t"
proof (induction "length s" arbitrary: s rule: less_induct)
  case less
  show ?case
  proof (cases "s = []")
    case False
    with less.prems have "CHR 0x0A \<in> set s" by (auto simp: whole_lines_def dest: last_in_set)
    then obtain l r where s: "s = l @ CHR 0x0A # r" "CHR 0x0A \<notin> set l" by (meson split_list_first)
    have "whole_lines r" using less.prems s(1) by (cases "r = []") (auto simp: whole_lines_def)
    with less.hyps [of r] have "getlines (r @ t) = getlines r @ getlines t" using s(1) by simp
    moreover have "getlines (l @ CHR 0x0A # u) = l # getlines u" for u
      using getlines_cons [OF s(2), of u] s(2)
      by (cases "l = [] \<and> u = []") (auto simp del: getlines.simps simp: getlines.simps(2) [of _ "[]"] getlines.simps(1))
    ultimately show ?thesis using s(1) by simp
  qed simp
qed

lemma getlines_line: "CHR 0x0A \<notin> set l \<Longrightarrow> getlines (l @ [CHR 0x0A]) = [l]"
  using getlines_cons [of l "[]"] by (cases l) auto

lemma whole_lines_simps [simp]:
  "whole_lines []" "whole_lines (s @ [CHR 0x0A])"
  by (simp_all add: whole_lines_def)

lemma whole_lines_append: "whole_lines s \<Longrightarrow> whole_lines t \<Longrightarrow> whole_lines (s @ t)"
  by (cases "t = []") (auto simp: whole_lines_def)

lemma whole_lines_concat: "whole_lines (concat (map (\<lambda>t. t @ [CHR 0x0A]) ts))"
  by (induction ts) (auto intro: whole_lines_append simp del: append_assoc simp flip: append_assoc)

lemma getlines_concat:
  "list_all (\<lambda>t. CHR 0x0A \<notin> set t) ts \<Longrightarrow> getlines (concat (map (\<lambda>t. t @ [CHR 0x0A]) ts)) = ts"
proof (induction ts)
  case (Cons t ts)
  have "getlines ((t @ [CHR 0x0A]) @ concat (map (\<lambda>t. t @ [CHR 0x0A]) ts)) =
      getlines (t @ [CHR 0x0A]) @ getlines (concat (map (\<lambda>t. t @ [CHR 0x0A]) ts))"
    by (rule getlines_append) simp
  with Cons getlines_line [of t] show ?case by simp
qed simp

subsection \<open>Directories\<close>

lemma mkdirs_keeps:
  "mkdirs pre cs f = (g, r) \<Longrightarrow> fs_cwd g = fs_cwd f \<and> (fs_node f q = Some n \<longrightarrow> fs_node g q = Some n)"
  by (induction pre cs f rule: mkdirs.induct) (fastforce split: option.splits node.splits if_splits)+

lemma mkdirs_node:
  "mkdirs pre cs f = (g, Inr u) \<Longrightarrow>
     fs_node g q = (if \<exists>n < length cs. q = pre @ take (Suc n) cs then Some Dir else fs_node f q)"
proof (induction pre cs f rule: mkdirs.induct)
  case (2 pre c cs f)
  have ex: "(\<exists>n < length (c # cs). q = pre @ take (Suc n) (c # cs)) \<longleftrightarrow>
      q = pre @ [c] \<or> (\<exists>n < length cs. q = (pre @ [c]) @ take (Suc n) cs)"
    by (auto simp: less_Suc_eq_0_disj)
  from 2 show ?case unfolding ex by (auto split: option.splits node.splits)
qed simp

lemma wf_set_node:
  assumes "wf_fs f" "p \<noteq> []" "fs_node f (butlast p) = Some Dir"
    and "n = Dir \<or> (\<forall>c. fs_node f (p @ [c]) = None) \<and> fs_node f p \<noteq> Some Dir"
  shows "wf_fs (set_node p n f)"
  using assms unfolding wf_fs_def
  by (auto simp: snoc_eq_iff_butlast split: if_splits)

lemma mkdirs_wf: "wf_fs f \<Longrightarrow> fs_node f pre = Some Dir \<Longrightarrow> mkdirs pre cs f = (g, r) \<Longrightarrow> wf_fs g"
proof (induction pre cs f rule: mkdirs.induct)
  case (2 pre c cs f)
  show ?case
  proof (cases "fs_node f (pre @ [c])")
    case None
    with 2(1) [OF None] 2(3-5) wf_set_node [of f "pre @ [c]" Dir] show ?thesis by simp
  next
    case (Some n)
    with 2 show ?thesis by (cases n) auto
  qed
qed simp

lemma mkdirs_ok_iff:
  "(\<exists>g. mkdirs pre cs f = (g, Inr ())) \<longleftrightarrow>
     (\<forall>n < length cs. \<forall>s. fs_node f (pre @ take (Suc n) cs) \<noteq> Some (File s))"
proof (induction pre cs f rule: mkdirs.induct)
  case (2 pre c cs f)
  have ex: "(\<forall>n < length (c # cs). \<forall>s. fs_node f (pre @ take (Suc n) (c # cs)) \<noteq> Some (File s)) \<longleftrightarrow>
      (\<forall>s. fs_node f (pre @ [c]) \<noteq> Some (File s)) \<and>
      (\<forall>n < length cs. \<forall>s. fs_node f ((pre @ [c]) @ take (Suc n) cs) \<noteq> Some (File s))"
    by (auto simp: less_Suc_eq_0_disj)
  show ?case
  proof (cases "fs_node f (pre @ [c])")
    case None
    have "(\<forall>n < length cs. \<forall>s. fs_node (set_node (pre @ [c]) Dir f) ((pre @ [c]) @ take (Suc n) cs) \<noteq> Some (File s))
       \<longleftrightarrow> (\<forall>n < length cs. \<forall>s. fs_node f ((pre @ [c]) @ take (Suc n) cs) \<noteq> Some (File s))"
      by auto
    with None 2(1) [OF None] show ?thesis unfolding ex by simp
  next
    case (Some n)
    with 2 show ?thesis unfolding ex by (cases n) auto
  qed
qed simp

text \<open>\<open>create_directories\<close> makes the directory and touches no existing node.\<close>

lemma create_directories_dir:
  assumes "wf_fs f" "create_directories p f = (g, Inr ())"
  shows "fs_node g (resolve g p) = Some Dir" "wf_fs g" "fs_cwd g = fs_cwd f"
    and "\<And>q n. fs_node f q = Some n \<Longrightarrow> fs_node g q = Some n"
    and "\<And>q s. fs_node g q = Some (File s) \<Longrightarrow> fs_node f q = Some (File s)"
proof -
  have m: "mkdirs [] (resolve f p) f = (g, Inr ())"
    using assms(2) by (auto simp: create_directories_def split: if_splits)
  have root: "fs_node f [] = Some Dir" using assms(1) by (simp add: wf_fs_def)
  show cwd: "fs_cwd g = fs_cwd f" using mkdirs_keeps [OF m] by simp
  show "wf_fs g" by (rule mkdirs_wf [OF assms(1) root m])
  show "fs_node f q = Some n \<Longrightarrow> fs_node g q = Some n" for q n using mkdirs_keeps [OF m] by simp
  show "fs_node g q = Some (File s) \<Longrightarrow> fs_node f q = Some (File s)" for q s
    using mkdirs_node [OF m, of q] by (auto split: if_splits)
  have "resolve g p = resolve f p" by (rule resolve_cwd [OF cwd])
  moreover have "fs_node g (resolve f p) = Some Dir"
  proof (cases "resolve f p = []")
    case True
    with root mkdirs_keeps [OF m] show ?thesis by simp
  next
    case False
    then obtain n where "length (resolve f p) = Suc n" by (cases "resolve f p") auto
    then show ?thesis using mkdirs_node [OF m, of "resolve f p"] by auto
  qed
  ultimately show "fs_node g (resolve g p) = Some Dir" by simp
qed

subsection \<open>Files\<close>

lemma wf_no_children: "wf_fs f \<Longrightarrow> fs_node f p \<noteq> Some Dir \<Longrightarrow> fs_node f (p @ [c]) = None"
  unfolding wf_fs_def by blast

lemma wf_parent:
  assumes "wf_fs f" "fs_node f p = Some (File s)"
  shows "p \<noteq> []" "fs_node f (butlast p) = Some Dir"
proof -
  show "p \<noteq> []" using assms by (auto simp: wf_fs_def)
  then show "fs_node f (butlast p) = Some Dir"
    using assms unfolding wf_fs_def by (metis append_butlast_last_id option.discI)
qed

lemma open_out_keeps:
  assumes "wf_fs f" "open_out app p f = (g, ok)"
  shows "wf_fs g" "fs_cwd g = fs_cwd f" "q \<noteq> p \<Longrightarrow> fs_node g q = fs_node f q"
    and "ok \<longleftrightarrow> (\<exists>s. fs_node g p = Some (File s))"
proof -
  show "wf_fs g"
    using assms wf_no_children [OF assms(1)] wf_parent [OF assms(1)]
    by (auto simp: open_out_def split: option.splits node.splits if_splits intro!: wf_set_node)
  show "fs_cwd g = fs_cwd f" "q \<noteq> p \<Longrightarrow> fs_node g q = fs_node f q"
    "ok \<longleftrightarrow> (\<exists>s. fs_node g p = Some (File s))"
    using assms(2) by (auto simp: open_out_def split: option.splits node.splits if_splits)
qed

lemma write_out_keeps:
  assumes "wf_fs f"
  shows "wf_fs (write_out p ok s f)" "fs_cwd (write_out p ok s f) = fs_cwd f"
    "q \<noteq> p \<Longrightarrow> fs_node (write_out p ok s f) q = fs_node f q"
proof -
  show "wf_fs (write_out p ok s f)"
    using assms wf_no_children [OF assms] wf_parent [OF assms]
    by (auto simp: write_out_def split: option.splits node.splits if_splits intro!: wf_set_node)
  show "fs_cwd (write_out p ok s f) = fs_cwd f"
    "q \<noteq> p \<Longrightarrow> fs_node (write_out p ok s f) q = fs_node f q"
    by (auto simp: write_out_def split: option.splits node.splits if_splits)
qed

lemma write_out_appends:
  "fs_node f p = Some (File t) \<Longrightarrow> fs_node (write_out p True s f) p = Some (File (t @ s))"
  by (simp add: write_out_def)

end
