(* ===== verification/Jsonl_Storage.thy ===== *)
theory Jsonl_Storage
  imports Common_Models Json_Roundtrip Module_Models File_System
begin

text \<open>
  \<open>JsonlStorage\<close> (src/wheel/storage/imp/jsonl_storage.cpp): items appended as one JSON text per line
  to \<open><data>/<date>/items.jsonl\<close>, a report and a summary per date, and the list of dates. The
  storage object and the file system are passed as state; \<open>today\<close> is what \<open>today_str()\<close> reads from
  the clock, \<open>readdir\<close> the order in which the directory is listed. The contract other components
  rely on is the locale \<open>item_store\<close>: what is saved under a date is read back after what was there,
  and other dates are untouched.
\<close>

record jsonl_storage =
  js_data_dir :: string
  js_started :: bool

definition new_storage :: "string \<Rightarrow> jsonl_storage" where
  "new_storage dir = \<lparr>js_data_dir = dir, js_started = False\<rparr>"

text \<open>\<open>StorageFactory\<close>: from a configuration, from a path, and without argument.\<close>

definition create_from_config :: "storage_config \<Rightarrow> jsonl_storage" where
  "create_from_config c = new_storage (st_data_dir c)"

definition create_from_path :: "string \<Rightarrow> jsonl_storage" where
  "create_from_path p = new_storage p"

definition create_default :: jsonl_storage where
  "create_default = new_storage ''data''"

definition storage_name :: "jsonl_storage \<Rightarrow> string" where
  "storage_name st = ''JsonlStorage''"

definition storage_start :: "jsonl_storage \<Rightarrow> fs \<Rightarrow> (jsonl_storage \<times> fs) \<times> unit result" where
  "storage_start st f =
     (if js_started st then ((st, f), Inr ())
      else (case create_directories (js_data_dir st) f of
              (f1, Inl e) \<Rightarrow> ((st, f1), Inl e)
            | (f1, Inr _) \<Rightarrow> ((st\<lparr>js_started := True\<rparr>, f1), Inr ())))"

definition storage_stop :: "jsonl_storage \<Rightarrow> jsonl_storage" where
  "storage_stop st = st"

definition storage_health_check :: "jsonl_storage \<Rightarrow> fs \<Rightarrow> bool" where
  "storage_health_check st f = fs_exists f (js_data_dir st)"

definition or_today :: "string \<Rightarrow> string \<Rightarrow> string" where
  "or_today today date = (if date = [] then today else date)"

definition date_dir :: "jsonl_storage \<Rightarrow> string \<Rightarrow> fs \<Rightarrow> fs \<times> string result" where
  "date_dir st date f =
     (let dir = path_join (js_data_dir st) date
      in case create_directories dir f of
           (f1, Inl e) \<Rightarrow> (f1, Inl e)
         | (f1, Inr _) \<Rightarrow> (f1, Inr dir))"

subsection \<open>Items\<close>

fun write_items ::
  "float_io \<Rightarrow> string list \<Rightarrow> bool \<Rightarrow> unified_item list \<Rightarrow> fs \<Rightarrow> fs \<times> unit result" where
  "write_items fl p is_open [] f = (f, Inr ())"
| "write_items fl p is_open (i # is) f =
     (case json_dump fl (item_to_json i) of
        Inl e \<Rightarrow> (f, Inl e)
      | Inr t \<Rightarrow> write_items fl p is_open is (write_out p is_open (t @ [CHR 0x0A]) f))"

definition save_items ::
  "float_io \<Rightarrow> string \<Rightarrow> jsonl_storage \<Rightarrow> unified_item list \<Rightarrow> string \<Rightarrow> fs \<Rightarrow> fs \<times> unit result" where
  "save_items fl today st is date f =
     (case date_dir st (or_today today date) f of
        (f1, Inl e) \<Rightarrow> (f1, Inl e)
      | (f1, Inr dir) \<Rightarrow>
          (let p = resolve f1 (path_join dir ''items.jsonl'');
               (f2, is_open) = open_out True p f1
           in write_items fl p is_open is f2))"

text \<open>The loop over the lines of the file.\<close>

fun load_lines :: "float_io \<Rightarrow> string \<Rightarrow> string list \<Rightarrow> unified_item list result" where
  "load_lines fl platform [] = Inr []"
| "load_lines fl platform (l # ls) =
     (if l = [] then load_lines fl platform ls
      else bind_res (json_parse fl l) (\<lambda>j.
           bind_res (item_from_json j default_item) (\<lambda>i.
           bind_res (load_lines fl platform ls) (\<lambda>is.
             Inr (if platform \<noteq> [] \<and> ui_platform i \<noteq> platform then is else i # is)))))"

text \<open>Reading from a path that is a directory: \<open>getline\<close> stops at once, a stream iterator throws.\<close>

definition load_items ::
  "float_io \<Rightarrow> string \<Rightarrow> jsonl_storage \<Rightarrow> string \<Rightarrow> string \<Rightarrow> fs \<Rightarrow> unified_item list result" where
  "load_items fl today st date platform f =
     (let path = path_join (path_join (js_data_dir st) (or_today today date)) ''items.jsonl''
      in if \<not> fs_exists f path then Inr []
         else (case file_content f path of
                 Some s \<Rightarrow> load_lines fl platform (getlines s)
               | None \<Rightarrow> Inr []))"

subsection \<open>Report and summary\<close>

definition save_report :: "string \<Rightarrow> jsonl_storage \<Rightarrow> string \<Rightarrow> string \<Rightarrow> fs \<Rightarrow> fs \<times> unit result" where
  "save_report today st markdown date f =
     (case date_dir st (or_today today date) f of
        (f1, Inl e) \<Rightarrow> (f1, Inl e)
      | (f1, Inr dir) \<Rightarrow>
          (let p = resolve f1 (path_join dir ''report.md'');
               (f2, is_open) = open_out False p f1
           in (write_out p is_open markdown f2, Inr ())))"

definition load_report :: "string \<Rightarrow> jsonl_storage \<Rightarrow> string \<Rightarrow> fs \<Rightarrow> string result" where
  "load_report today st date f =
     (let path = path_join (path_join (js_data_dir st) (or_today today date)) ''report.md''
      in if \<not> fs_exists f path then Inr []
         else (case file_content f path of Some s \<Rightarrow> Inr s | None \<Rightarrow> Inl IosFailure))"

definition save_summary ::
  "float_io \<Rightarrow> string \<Rightarrow> jsonl_storage \<Rightarrow> json \<Rightarrow> string \<Rightarrow> fs \<Rightarrow> fs \<times> unit result" where
  "save_summary fl today st summary date f =
     (case date_dir st (or_today today date) f of
        (f1, Inl e) \<Rightarrow> (f1, Inl e)
      | (f1, Inr dir) \<Rightarrow>
          (let p = resolve f1 (path_join dir ''summary.json'');
               (f2, is_open) = open_out False p f1
           in case json_dump_indent fl 2 summary of
                Inl e \<Rightarrow> (f2, Inl e)
              | Inr t \<Rightarrow> (write_out p is_open t f2, Inr ())))"

definition load_summary :: "float_io \<Rightarrow> string \<Rightarrow> jsonl_storage \<Rightarrow> string \<Rightarrow> fs \<Rightarrow> json result" where
  "load_summary fl today st date f =
     (let path = path_join (path_join (js_data_dir st) (or_today today date)) ''summary.json''
      in if \<not> fs_exists f path then Inr JNull
         else (case file_content f path of Some s \<Rightarrow> json_parse fl s | None \<Rightarrow> Inl IosFailure))"

subsection \<open>The dates\<close>

definition list_dates :: "(string list \<Rightarrow> string list) \<Rightarrow> jsonl_storage \<Rightarrow> fs \<Rightarrow> string list result" where
  "list_dates readdir st f =
     (let dir = resolve f (js_data_dir st)
      in if \<not> fs_exists f (js_data_dir st) then Inr []
         else (case fs_node f dir of
                 Some Dir \<Rightarrow>
                   Inr (rev (sort (filter (\<lambda>n. fs_node f (dir @ [n]) = Some Dir \<and> n \<noteq> ''sessions'')
                                     (readdir dir))))
               | _ \<Rightarrow> Inl FilesystemError))"

subsection \<open>What the operations touch\<close>

text \<open>
  \<open>only_file p n f g\<close>: \<open>g\<close> is \<open>f\<close> except for the file \<open>p\<close> and for directories at depth at most \<open>n\<close>.
\<close>

definition only_file :: "string list \<Rightarrow> nat \<Rightarrow> fs \<Rightarrow> fs \<Rightarrow> bool" where
  "only_file p n f g \<longleftrightarrow> wf_fs g \<and> fs_cwd g = fs_cwd f \<and>
     (\<forall>q. q \<noteq> p \<longrightarrow> n < length q \<longrightarrow> fs_node g q = fs_node f q) \<and>
     (\<forall>q s. q \<noteq> p \<longrightarrow> (fs_node g q = Some (File s) \<longleftrightarrow> fs_node f q = Some (File s)))"

definition file_names :: "string list" where
  "file_names = [''items.jsonl'', ''report.md'', ''summary.json'']"

lemma is_name_files [simp]:
  "is_name ''items.jsonl''" "is_name ''report.md''" "is_name ''summary.json''"
  by (simp_all add: is_name_def)

lemma is_name_file_names: "x \<in> set file_names \<Longrightarrow> is_name x"
  by (auto simp: file_names_def)

text \<open>
  A date can be stored: its name is one path component, no file is in the way of its directory,
  none of its three files is a directory, and the items file consists of whole lines.
\<close>

definition storable :: "jsonl_storage \<Rightarrow> string \<Rightarrow> fs \<Rightarrow> bool" where
  "storable st d f \<longleftrightarrow> wf_fs f \<and> is_name d \<and>
     (\<forall>n \<le> Suc (length (resolve f (js_data_dir st))). \<forall>s.
        fs_node f (take n (resolve f (js_data_dir st) @ [d])) \<noteq> Some (File s)) \<and>
     (\<forall>x \<in> set file_names. fs_node f (resolve f (js_data_dir st) @ [d, x]) \<noteq> Some Dir) \<and>
     (\<forall>s. fs_node f (resolve f (js_data_dir st) @ [d, ''items.jsonl'']) = Some (File s) \<longrightarrow> whole_lines s)"

definition old_content :: "fs \<Rightarrow> string list \<Rightarrow> string" where
  "old_content f p = (case fs_node f p of Some (File s) \<Rightarrow> s | _ \<Rightarrow> [])"

lemma resolve_date_file:
  assumes "is_name d" "is_name x"
  shows "resolve f (path_join (path_join dir d) x) = resolve f dir @ [d, x]"
  using assms by (simp add: resolve_join)

text \<open>The directory of a date is made, nothing below it changes, and no file changes.\<close>

lemma date_dir_ok:
  assumes "storable st d f"
  obtains g where "date_dir st d f = (g, Inr (path_join (js_data_dir st) d))" "wf_fs g"
    "fs_cwd g = fs_cwd f" "fs_node g (resolve f (js_data_dir st) @ [d]) = Some Dir"
    "\<And>q. Suc (length (resolve f (js_data_dir st))) < length q \<Longrightarrow> fs_node g q = fs_node f q"
    "\<And>q s. fs_node g q = Some (File s) \<longleftrightarrow> fs_node f q = Some (File s)"
proof -
  let ?p = "resolve f (js_data_dir st) @ [d]"
  have d: "is_name d" and wf: "wf_fs f" using assms by (simp_all add: storable_def)
  have "\<exists>g. mkdirs [] ?p f = (g, Inr ())"
    unfolding mkdirs_ok_iff using assms by (auto simp: storable_def less_Suc_eq_le)
  then obtain g where m: "mkdirs [] ?p f = (g, Inr ())" by blast
  then have c: "create_directories (path_join (js_data_dir st) d) f = (g, Inr ())"
    using d by (simp add: create_directories_def resolve_join)
  note g = create_directories_dir [OF wf c]
  have "resolve g (path_join (js_data_dir st) d) = ?p"
    using resolve_cwd [OF g(3)] d by (simp add: resolve_join)
  with g(1) have dir: "fs_node g ?p = Some Dir" by simp
  have deep: "fs_node g q = fs_node f q"
    if "Suc (length (resolve f (js_data_dir st))) < length q" for q
    using mkdirs_node [OF m, of q] that by auto
  have files: "fs_node g q = Some (File s) \<longleftrightarrow> fs_node f q = Some (File s)" for q s
    using g(4,5) by blast
  from that [OF _ g(2,3) dir deep files] c show ?thesis by (simp add: date_dir_def)
qed

text \<open>Opening a file of the date: it is there afterwards, kept or emptied.\<close>

lemma open_date_file:
  assumes "storable st d f" "x \<in> set file_names"
  obtains f1 f2 where "date_dir st d f = (f1, Inr (path_join (js_data_dir st) d))"
    "resolve f1 (path_join (path_join (js_data_dir st) d) x) = resolve f (js_data_dir st) @ [d, x]"
    "open_out app (resolve f (js_data_dir st) @ [d, x]) f1 = (f2, True)"
    "only_file (resolve f (js_data_dir st) @ [d, x]) (Suc (length (resolve f (js_data_dir st)))) f f2"
    "fs_node f2 (resolve f (js_data_dir st) @ [d, x]) =
       Some (File (if app then old_content f (resolve f (js_data_dir st) @ [d, x]) else []))"
proof -
  let ?p = "resolve f (js_data_dir st) @ [d, x]"
  obtain f1 where f1: "date_dir st d f = (f1, Inr (path_join (js_data_dir st) d))" "wf_fs f1"
    "fs_cwd f1 = fs_cwd f" "fs_node f1 (resolve f (js_data_dir st) @ [d]) = Some Dir"
    "\<And>q. Suc (length (resolve f (js_data_dir st))) < length q \<Longrightarrow> fs_node f1 q = fs_node f q"
    "\<And>q s. fs_node f1 q = Some (File s) \<longleftrightarrow> fs_node f q = Some (File s)"
    using date_dir_ok [OF assms(1)] by blast
  have d: "is_name d" using assms(1) by (simp add: storable_def)
  have r: "resolve f1 (path_join (path_join (js_data_dir st) d) x) = ?p"
    using resolve_cwd [OF f1(3)] resolve_date_file [OF d is_name_file_names [OF assms(2)]] by simp
  obtain f2 ok where f2: "open_out app ?p f1 = (f2, ok)" by fastforce
  have nd: "fs_node f1 ?p \<noteq> Some Dir" "fs_node f1 ?p = fs_node f ?p"
    using assms f1(5) by (auto simp: storable_def)
  have n: "ok" "fs_node f2 ?p = Some (File (if app then old_content f ?p else []))"
    using f2 nd f1(4)
    by (auto simp: open_out_def old_content_def butlast_append split: option.splits node.splits if_splits)
  note k = open_out_keeps [OF f1(2) f2]
  have "only_file ?p (Suc (length (resolve f (js_data_dir st)))) f f2"
    using k f1 by (simp add: only_file_def)
  with that [OF f1(1) r _ _ n(2)] f2 n(1) show ?thesis by simp
qed

lemma only_file_trans: "only_file p n f g \<Longrightarrow> only_file p n g h \<Longrightarrow> only_file p n f h"
  by (simp add: only_file_def)

lemma only_file_write: "wf_fs f \<Longrightarrow> only_file p n f (write_out p ok s f)"
  using write_out_keeps [of f] by (simp add: only_file_def)

text \<open>The loop of \<open>save_items\<close>: the lines of the items before the first one that cannot be written.\<close>

fun dump_prefix :: "float_io \<Rightarrow> unified_item list \<Rightarrow> string list \<times> unit result" where
  "dump_prefix fl [] = ([], Inr ())"
| "dump_prefix fl (i # is) =
     (case json_dump fl (item_to_json i) of
        Inl e \<Rightarrow> ([], Inl e)
      | Inr t \<Rightarrow> (case dump_prefix fl is of (ts, r) \<Rightarrow> (t # ts, r)))"

definition jsonl :: "string list \<Rightarrow> string" where
  "jsonl ts = concat (map (\<lambda>t. t @ [CHR 0x0A]) ts)"

lemma write_items_run:
  assumes "wf_fs f" "fs_node f p = Some (File s)"
  shows "\<exists>g. write_items fl p True is f = (g, snd (dump_prefix fl is)) \<and> only_file p n f g \<and>
           fs_node g p = Some (File (s @ jsonl (fst (dump_prefix fl is))))"
  using assms
proof (induction "is" arbitrary: f s)
  case Nil
  then show ?case by (simp add: only_file_def jsonl_def)
next
  case (Cons i "is")
  show ?case
  proof (cases "json_dump fl (item_to_json i)")
    case (Inl e)
    with Cons.prems show ?thesis by (simp add: only_file_def jsonl_def)
  next
    case (Inr t)
    let ?f = "write_out p True (t @ [CHR 0x0A]) f"
    have "wf_fs ?f" by (rule write_out_keeps(1) [OF Cons.prems(1)])
    from Cons.IH [OF this write_out_appends [OF Cons.prems(2)]] Inr
      only_file_trans [OF only_file_write [OF Cons.prems(1)]]
    show ?thesis by (auto simp: jsonl_def split: prod.splits)
  qed
qed

subsection \<open>Saving and loading items\<close>

abbreviation items_file :: "jsonl_storage \<Rightarrow> string \<Rightarrow> fs \<Rightarrow> string list" where
  "items_file st d f \<equiv> resolve f (js_data_dir st) @ [d, ''items.jsonl'']"

lemma save_items_effect:
  assumes "storable st d f" "d = or_today today date"
  shows "\<exists>g. save_items fl today st is date f = (g, snd (dump_prefix fl is)) \<and>
           only_file (items_file st d f) (Suc (length (resolve f (js_data_dir st)))) f g \<and>
           fs_node g (items_file st d f) =
             Some (File (old_content f (items_file st d f) @ jsonl (fst (dump_prefix fl is))))"
proof -
  have x: "''items.jsonl'' \<in> set file_names" by (simp add: file_names_def)
  obtain f1 f2 where f: "date_dir st d f = (f1, Inr (path_join (js_data_dir st) d))"
    "resolve f1 (path_join (path_join (js_data_dir st) d) ''items.jsonl'') = items_file st d f"
    "open_out True (items_file st d f) f1 = (f2, True)"
    "only_file (items_file st d f) (Suc (length (resolve f (js_data_dir st)))) f f2"
    "fs_node f2 (items_file st d f) = Some (File (old_content f (items_file st d f)))"
    using open_date_file [OF assms(1) x, of True] by auto
  have "wf_fs f2" using f(4) by (simp add: only_file_def)
  from write_items_run [OF this f(5), of fl "is"] obtain g where
    "write_items fl (items_file st d f) True is f2 = (g, snd (dump_prefix fl is))"
    "only_file (items_file st d f) (Suc (length (resolve f (js_data_dir st)))) f2 g"
    "fs_node g (items_file st d f) =
       Some (File (old_content f (items_file st d f) @ jsonl (fst (dump_prefix fl is))))"
    by blast
  with f only_file_trans [OF f(4)] show ?thesis
    by (auto simp: save_items_def assms(2) [symmetric] Let_def)
qed

text \<open>Loading sees the items file only.\<close>

lemma load_items_eq:
  assumes "is_name d" "d = or_today today date"
  shows "load_items fl today st date platform f =
           (case fs_node f (items_file st d f) of
              Some (File s) \<Rightarrow> load_lines fl platform (getlines s)
            | _ \<Rightarrow> Inr [])"
  using resolve_date_file [OF assms(1), of "''items.jsonl''" f "js_data_dir st"]
  by (simp add: load_items_def Let_def assms(2) [symmetric] file_content_def fs_exists_def
      split: option.split node.split)

lemma load_lines_append:
  "load_lines fl pf (a @ b) =
     bind_res (load_lines fl pf a) (\<lambda>xs. bind_res (load_lines fl pf b) (\<lambda>ys. Inr (xs @ ys)))"
  by (induction a) (auto simp: bind_res_def split: sum.split)

text \<open>\<open>norm_item\<close>: what one item is after being written and read back.\<close>

definition norm_item :: "unified_item \<Rightarrow> unified_item" where
  "norm_item i = i\<lparr>ui_metrics := norm_json (ui_metrics i)\<rparr>"

definition good_item :: "unified_item \<Rightarrow> bool" where
  "good_item i \<longleftrightarrow> wf_json (ui_metrics i) \<and> json_utf8 (item_to_json i)"

lemma norm_of_string_vec [simp]: "norm_json (of_string_vec ss) = of_string_vec ss"
  by (simp add: of_string_vec_def)

lemma item_read_norm: "item_from_json (norm_json (item_to_json i)) i0 = Inr (norm_item i)"
  unfolding norm_item_def item_to_json_def norm_json_value
  unfolding json_object_def
  by (rule item_from_json_members [OF _ get_int_norm]) (simp add: map_of_map_list)

lemma load_dumped_line:
  assumes "float_io_ok fl" "wf_json (ui_metrics i)" "json_dump fl (item_to_json i) = Inr t"
  shows "load_lines fl platform (t # ls) =
           bind_res (load_lines fl platform ls) (\<lambda>is.
             Inr (if platform \<noteq> [] \<and> ui_platform i \<noteq> platform then is else norm_item i # is))"
proof -
  have "t \<noteq> []" "json_parse fl t = Inr (norm_json (item_to_json i))"
    using jt.read_back jt.not_empty assms item_to_json_wf by blast+
  moreover have "ui_platform (norm_item i) = ui_platform i" by (simp add: norm_item_def)
  ultimately show ?thesis by (simp add: item_read_norm)
qed

lemma load_dumped:
  assumes "float_io_ok fl" "list_all (\<lambda>i. wf_json (ui_metrics i)) is"
  shows "load_lines fl [] (fst (dump_prefix fl is)) =
           Inr (map norm_item (take (length (fst (dump_prefix fl is))) is))"
  using assms(2)
proof (induction "is")
  case (Cons i "is")
  then show ?case
    by (cases "json_dump fl (item_to_json i)")
      (auto simp: load_dumped_line [OF assms(1)] simp del: load_lines.simps(2) split: prod.splits)
qed simp

lemma getlines_jsonl:
  assumes "float_io_ok fl"
  shows "getlines (jsonl (fst (dump_prefix fl is))) = fst (dump_prefix fl is)"
proof -
  have "list_all (\<lambda>t. CHR 0x0A \<notin> set t) (fst (dump_prefix fl is))"
    by (induction "is") (auto dest: jt.one_line [OF assms] simp: nl_def split: sum.splits prod.splits)
  then show ?thesis unfolding jsonl_def by (rule getlines_concat)
qed

lemma whole_lines_jsonl: "whole_lines (jsonl ts)"
  unfolding jsonl_def by (rule whole_lines_concat)

lemma dump_prefix_good:
  "list_all good_item is \<Longrightarrow> length (fst (dump_prefix fl is)) = length is \<and> snd (dump_prefix fl is) = Inr ()"
proof (induction "is")
  case (Cons i "is")
  then have "\<exists>t. json_dump fl (item_to_json i) = Inr t"
    using dump_val_ok_iff [of fl False 0 0 "item_to_json i"] by (simp add: json_dump_def good_item_def)
  with Cons show ?case by (auto split: prod.splits)
qed simp

text \<open>A date that could be stored still can be, after anything that touches one of its files.\<close>

lemma storable_only_file:
  assumes "storable st d f" "is_name d'"
    and "only_file (resolve f (js_data_dir st) @ [d', x]) (Suc (length (resolve f (js_data_dir st)))) f g"
    and "\<exists>s. fs_node g (resolve f (js_data_dir st) @ [d', x]) = Some (File s) \<and>
           (x = ''items.jsonl'' \<longrightarrow> whole_lines s)"
  shows "storable st d g"
proof -
  let ?r = "resolve f (js_data_dir st)"
  have r: "resolve g (js_data_dir st) = ?r"
    using assms(3) by (intro resolve_cwd) (simp add: only_file_def)
  have "fs_node g (take n (?r @ [d])) \<noteq> Some (File s)" if "n \<le> Suc (length ?r)" for n s
  proof -
    have "take n (?r @ [d]) \<noteq> ?r @ [d', x]"
      using that by (auto dest!: arg_cong [of _ _ length])
    then show ?thesis
      using assms(1,3) that by (auto simp: only_file_def storable_def)
  qed
  moreover have "fs_node g (?r @ [d, y]) \<noteq> Some Dir" if "y \<in> set file_names" for y
    using assms(1,3,4) that by (cases "[d, y] = [d', x]") (auto simp: only_file_def storable_def)
  moreover have "whole_lines s" if "fs_node g (?r @ [d, ''items.jsonl'']) = Some (File s)" for s
    using assms(1,3,4) that
    by (cases "[d, ''items.jsonl''] = [d', x]") (auto simp: only_file_def storable_def)
  ultimately show ?thesis
    using assms(1,3) by (simp add: storable_def r only_file_def)
qed

subsection \<open>The contract\<close>

text \<open>
  \<open>'e\<close> is the environment (number conversion, clock, storage object), \<open>'d\<close> a date, \<open>'s\<close> the state
  of the store. \<open>save\<close> gives the new state, \<open>load\<close> the items of a date.
\<close>

locale item_store =
  fixes ok :: "'e \<Rightarrow> 'd \<Rightarrow> 's \<Rightarrow> bool"
    and good :: "'i \<Rightarrow> bool"
    and save :: "'e \<Rightarrow> 'i list \<Rightarrow> 'd \<Rightarrow> 's \<Rightarrow> 's"
    and load :: "'e \<Rightarrow> 'd \<Rightarrow> 's \<Rightarrow> 'i list result"
    and norm :: "'i \<Rightarrow> 'i"
  assumes ok_save: "ok e d s \<Longrightarrow> ok e d' s \<Longrightarrow> ok e d (save e is d' s)"
    and load_save: "ok e d s \<Longrightarrow> list_all good is \<Longrightarrow>
          load e d (save e is d s) = bind_res (load e d s) (\<lambda>old. Inr (old @ map norm is))"
    and load_other: "ok e d s \<Longrightarrow> ok e d' s \<Longrightarrow> d \<noteq> d' \<Longrightarrow> load e d (save e is d' s) = load e d s"
begin

lemma save_in_batches:
  assumes "ok e d s" "list_all (list_all good) batches"
  shows "load e d (fold (\<lambda>b. save e b d) batches s) =
           bind_res (load e d s) (\<lambda>old. Inr (old @ map norm (concat batches)))"
  using assms
proof (induction batches arbitrary: s)
  case Nil
  then show ?case by (simp add: bind_res_Inr_id)
next
  case (Cons b batches)
  then show ?case
    by (simp add: ok_save load_save bind_res_assoc)
qed

lemma save_commutes_with_other:
  assumes "ok e d s" "ok e d' s" "d \<noteq> d'" "list_all good xs"
  shows "load e d (save e ys d' (save e xs d s)) = load e d (save e xs d (save e ys d' s))"
  using assms by (simp add: ok_save load_save load_other)

end

text \<open>\<open>JsonlStorage\<close> keeps the contract: the environment is \<open>(fl, today, st)\<close>.\<close>

definition store_ok :: "float_io \<times> string \<times> jsonl_storage \<Rightarrow> string \<Rightarrow> fs \<Rightarrow> bool" where
  "store_ok e d f = (case e of (fl, today, st) \<Rightarrow> float_io_ok fl \<and> storable st d f)"

definition store_save ::
  "float_io \<times> string \<times> jsonl_storage \<Rightarrow> unified_item list \<Rightarrow> string \<Rightarrow> fs \<Rightarrow> fs" where
  "store_save e is d f = (case e of (fl, today, st) \<Rightarrow> fst (save_items fl today st is d f))"

definition store_load ::
  "float_io \<times> string \<times> jsonl_storage \<Rightarrow> string \<Rightarrow> fs \<Rightarrow> unified_item list result" where
  "store_load e d f = (case e of (fl, today, st) \<Rightarrow> load_items fl today st d [] f)"

lemma or_today_name: "is_name d \<Longrightarrow> or_today today d = d"
  by (simp add: or_today_def is_name_def)

lemma items_loaded_after_save:
  assumes "float_io_ok fl" "storable st d f" "list_all (\<lambda>i. wf_json (ui_metrics i)) is"
  shows "load_items fl today st d [] (fst (save_items fl today st is d f)) =
           bind_res (load_items fl today st d [] f)
             (\<lambda>old. Inr (old @ map norm_item (take (length (fst (dump_prefix fl is))) is)))"
proof -
  let ?p = "items_file st d f"
  have d: "is_name d" "d = or_today today d"
    using assms(2) by (simp_all add: storable_def or_today_name)
  obtain g where g: "save_items fl today st is d f = (g, snd (dump_prefix fl is))"
    "only_file ?p (Suc (length (resolve f (js_data_dir st)))) f g"
    "fs_node g ?p = Some (File (old_content f ?p @ jsonl (fst (dump_prefix fl is))))"
    using save_items_effect [OF assms(2) d(2)] by blast
  have r: "resolve g (js_data_dir st) = resolve f (js_data_dir st)"
    using g(2) by (intro resolve_cwd) (simp add: only_file_def)
  have w: "whole_lines (old_content f ?p)"
    using assms(2) by (auto simp: storable_def old_content_def split: option.split node.split)
  have old: "load_items fl today st d [] f = load_lines fl [] (getlines (old_content f ?p))"
    by (simp add: load_items_eq [OF d] old_content_def split: option.split node.split)
  have "load_items fl today st d [] g =
      load_lines fl [] (getlines (old_content f ?p @ jsonl (fst (dump_prefix fl is))))"
    using g(3) r by (simp add: load_items_eq [OF d])
  then show ?thesis
    by (simp add: g(1) old getlines_append [OF w] load_lines_append getlines_jsonl [OF assms(1)]
        load_dumped [OF assms(1,3)])
qed

lemma save_items_storable:
  assumes "storable st d f" "storable st d' f"
  shows "storable st d (fst (save_items fl today st is d' f))"
proof -
  have d': "is_name d'" "d' = or_today today d'"
    using assms(2) by (simp_all add: storable_def or_today_name)
  obtain g where g: "save_items fl today st is d' f = (g, snd (dump_prefix fl is))"
    "only_file (items_file st d' f) (Suc (length (resolve f (js_data_dir st)))) f g"
    "fs_node g (items_file st d' f) =
       Some (File (old_content f (items_file st d' f) @ jsonl (fst (dump_prefix fl is))))"
    using save_items_effect [OF assms(2) d'(2)] by blast
  have "whole_lines (old_content f (items_file st d' f))"
    using assms(2) by (auto simp: storable_def old_content_def split: option.split node.split)
  then have "whole_lines (old_content f (items_file st d' f) @ jsonl (fst (dump_prefix fl is)))"
    by (intro whole_lines_append whole_lines_jsonl)
  with g storable_only_file [OF assms(1) d'(1) g(2)] show ?thesis by simp
qed

text \<open>A batch with an item that cannot be written.\<close>

lemma dump_prefix_fails:
  assumes "list_all good_item pre" "\<not> json_utf8 (item_to_json bad)"
  shows "length (fst (dump_prefix fl (pre @ bad # post))) = length pre"
    "snd (dump_prefix fl (pre @ bad # post)) = Inl (JsonTypeError 316)"
proof -
  have bad: "json_dump fl (item_to_json bad) = Inl (JsonTypeError 316)"
  proof (cases "json_dump fl (item_to_json bad)")
    case (Inl e)
    then show ?thesis using dump_val_error by (auto simp: json_dump_def)
  next
    case (Inr t)
    then show ?thesis
      using dump_val_ok_iff [of fl False 0 0 "item_to_json bad"] assms(2) by (auto simp: json_dump_def)
  qed
  have "length (fst (dump_prefix fl (pre @ bad # post))) = length pre \<and>
      snd (dump_prefix fl (pre @ bad # post)) = Inl (JsonTypeError 316)"
    using assms(1)
  proof (induction pre)
    case (Cons i pre)
    then have "\<exists>t. json_dump fl (item_to_json i) = Inr t"
      using dump_val_ok_iff [of fl False 0 0 "item_to_json i"] by (simp add: json_dump_def good_item_def)
    with Cons show ?case by (auto split: prod.splits)
  qed (simp add: bad)
  then show "length (fst (dump_prefix fl (pre @ bad # post))) = length pre"
    "snd (dump_prefix fl (pre @ bad # post)) = Inl (JsonTypeError 316)" by simp_all
qed

lemma save_fails_at:
  assumes "float_io_ok fl" "storable st d f" "list_all good_item pre"
    "\<not> json_utf8 (item_to_json bad)" "list_all (\<lambda>i. wf_json (ui_metrics i)) (bad # post)"
  shows "snd (save_items fl today st (pre @ bad # post) d f) = Inl (JsonTypeError 316)"
    and "load_items fl today st d [] (fst (save_items fl today st (pre @ bad # post) d f)) =
           bind_res (load_items fl today st d [] f) (\<lambda>old. Inr (old @ map norm_item pre))"
proof -
  have d: "d = or_today today d" using assms(2) by (simp add: storable_def or_today_name)
  show "snd (save_items fl today st (pre @ bad # post) d f) = Inl (JsonTypeError 316)"
    using save_items_effect [OF assms(2) d, of fl "pre @ bad # post"] dump_prefix_fails(2) [OF assms(3,4)]
    by auto
  have "list_all (\<lambda>i. wf_json (ui_metrics i)) (pre @ bad # post)"
    using assms(3,5) by (auto simp: list_all_iff good_item_def)
  with items_loaded_after_save [OF assms(1,2)] dump_prefix_fails(1) [OF assms(3,4), of fl post]
  show "load_items fl today st d [] (fst (save_items fl today st (pre @ bad # post) d f)) =
      bind_res (load_items fl today st d [] f) (\<lambda>old. Inr (old @ map norm_item pre))"
    by simp
qed

text \<open>Everything \<open>save_items\<close> does not own: the files of other dates, and the other files of the date.\<close>

lemma save_items_frame:
  assumes "storable st d f" "q \<noteq> items_file st d f" "Suc (length (resolve f (js_data_dir st))) < length q"
  shows "fs_node (fst (save_items fl today st is d f)) q = fs_node f q"
proof -
  have "d = or_today today d" using assms(1) by (simp add: storable_def or_today_name)
  from save_items_effect [OF assms(1) this, of fl "is"] assms(2,3) show ?thesis
    by (auto simp: only_file_def)
qed

lemma resolve_after_save:
  assumes "storable st d f"
  shows "resolve (fst (save_items fl today st is d f)) p = resolve f p"
proof -
  have "d = or_today today d" using assms by (simp add: storable_def or_today_name)
  from save_items_effect [OF assms this, of fl "is"] show ?thesis
    by (auto simp: only_file_def intro: resolve_cwd)
qed

lemma load_other_date:
  assumes "storable st d' f" "is_name d" "d \<noteq> d'"
  shows "load_items fl today st d pf (fst (save_items fl today st is d' f)) =
           load_items fl today st d pf f"
  using assms
  by (simp add: load_items_eq [OF assms(2) or_today_name [OF assms(2), symmetric]]
      resolve_after_save [OF assms(1)] save_items_frame [OF assms(1)])

interpretation js: item_store store_ok good_item store_save store_load norm_item
proof
  fix e d d' f "is"
  assume "store_ok e d f" "store_ok e d' f"
  then show "store_ok e d (store_save e is d' f)"
    by (auto simp: store_ok_def store_save_def save_items_storable split: prod.splits)
next
  fix e d f "is"
  assume ok: "store_ok e d f" and good: "list_all good_item is"
  have "list_all (\<lambda>i. wf_json (ui_metrics i)) is"
    using good by (auto simp: list_all_iff good_item_def)
  with ok good dump_prefix_good [OF good]
  show "store_load e d (store_save e is d f) =
      bind_res (store_load e d f) (\<lambda>old. Inr (old @ map norm_item is))"
    by (auto simp: store_ok_def store_save_def store_load_def items_loaded_after_save split: prod.splits)
next
  fix e d d' f "is"
  assume "store_ok e d f" "store_ok e d' f" "d \<noteq> d'"
  then show "store_load e d (store_save e is d' f) = store_load e d f"
    by (auto simp: store_ok_def store_save_def store_load_def storable_def load_other_date
        split: prod.splits)
qed

subsection \<open>The platform filter\<close>

lemma load_lines_filter:
  "load_lines fl pf ls = bind_res (load_lines fl [] ls)
     (\<lambda>is. Inr (if pf = [] then is else filter (\<lambda>i. ui_platform i = pf) is))"
  by (induction ls) (auto simp: bind_res_def split: sum.split)

lemma load_items_filter:
  "load_items fl today st date pf f = bind_res (load_items fl today st date [] f)
     (\<lambda>is. Inr (if pf = [] then is else filter (\<lambda>i. ui_platform i = pf) is))"
  using load_lines_filter [of fl pf]
  by (simp add: load_items_def Let_def bind_res_Inr_id split: option.split)

subsection \<open>Report and summary\<close>

lemma load_report_eq:
  assumes "is_name d" "d = or_today today date"
  shows "load_report today st date f =
           (case fs_node f (resolve f (js_data_dir st) @ [d, ''report.md'']) of
              None \<Rightarrow> Inr [] | Some (File s) \<Rightarrow> Inr s | Some Dir \<Rightarrow> Inl IosFailure)"
  using resolve_date_file [OF assms(1), of "''report.md''" f "js_data_dir st"]
  by (simp add: load_report_def Let_def assms(2) [symmetric] file_content_def fs_exists_def
      split: option.split node.split)

lemma load_summary_eq:
  assumes "is_name d" "d = or_today today date"
  shows "load_summary fl today st date f =
           (case fs_node f (resolve f (js_data_dir st) @ [d, ''summary.json'']) of
              None \<Rightarrow> Inr JNull | Some (File s) \<Rightarrow> json_parse fl s | Some Dir \<Rightarrow> Inl IosFailure)"
  using resolve_date_file [OF assms(1), of "''summary.json''" f "js_data_dir st"]
  by (simp add: load_summary_def Let_def assms(2) [symmetric] file_content_def fs_exists_def
      split: option.split node.split)

text \<open>A file of the date is truncated and written.\<close>

lemma rewrite_date_file:
  assumes "storable st d f" "x \<in> set file_names"
  obtains f1 f2 where "date_dir st d f = (f1, Inr (path_join (js_data_dir st) d))"
    "resolve f1 (path_join (path_join (js_data_dir st) d) x) = resolve f (js_data_dir st) @ [d, x]"
    "open_out False (resolve f (js_data_dir st) @ [d, x]) f1 = (f2, True)"
    "\<And>t. only_file (resolve f (js_data_dir st) @ [d, x]) (Suc (length (resolve f (js_data_dir st)))) f
       (write_out (resolve f (js_data_dir st) @ [d, x]) True t f2)"
    "\<And>t. fs_node (write_out (resolve f (js_data_dir st) @ [d, x]) True t f2) (resolve f (js_data_dir st) @ [d, x]) = Some (File t)"
proof -
  let ?p = "resolve f (js_data_dir st) @ [d, x]"
  obtain f1 f2 where f: "date_dir st d f = (f1, Inr (path_join (js_data_dir st) d))"
    "resolve f1 (path_join (path_join (js_data_dir st) d) x) = ?p" "open_out False ?p f1 = (f2, True)"
    "only_file ?p (Suc (length (resolve f (js_data_dir st)))) f f2" "fs_node f2 ?p = Some (File [])"
    using open_date_file [OF assms, of False] by auto
  have wf: "wf_fs f2" using f(4) by (simp add: only_file_def)
  show thesis
    using that [OF f(1-3) only_file_trans [OF f(4) only_file_write [OF wf]]] write_out_appends [OF f(5)] by simp
qed

lemma save_report_effect:
  assumes "storable st d f" "d = or_today today date"
  shows "\<exists>g. save_report today st md date f = (g, Inr ()) \<and>
    only_file (resolve f (js_data_dir st) @ [d, ''report.md'']) (Suc (length (resolve f (js_data_dir st)))) f g \<and>
    fs_node g (resolve f (js_data_dir st) @ [d, ''report.md'']) = Some (File md)"
proof -
  have "''report.md'' \<in> set file_names" by (simp add: file_names_def)
  then show ?thesis
    by (rule rewrite_date_file [OF assms(1)]) (simp add: save_report_def assms(2) [symmetric])
qed

lemma save_summary_effect:
  assumes "storable st d f" "d = or_today today date" "json_dump_indent fl 2 j = Inr t"
  shows "\<exists>g. save_summary fl today st j date f = (g, Inr ()) \<and>
    only_file (resolve f (js_data_dir st) @ [d, ''summary.json'']) (Suc (length (resolve f (js_data_dir st)))) f g \<and>
    fs_node g (resolve f (js_data_dir st) @ [d, ''summary.json'']) = Some (File t)"
proof -
  have "''summary.json'' \<in> set file_names" by (simp add: file_names_def)
  then show ?thesis
    by (rule rewrite_date_file [OF assms(1)]) (simp add: save_summary_def assms(2) [symmetric] assms(3))
qed

lemma report_roundtrip:
  assumes "storable st d f"
  shows "load_report today st d (fst (save_report today st md d f)) = Inr md"
    and "snd (save_report today st md d f) = Inr ()"
    and "storable st d (fst (save_report today st md d f))"
    and "load_items fl today st d pf (fst (save_report today st md d f)) = load_items fl today st d pf f"
proof -
  let ?p = "resolve f (js_data_dir st) @ [d, ''report.md'']"
  have d: "is_name d" "d = or_today today d" using assms by (simp_all add: storable_def or_today_name)
  obtain g where g: "save_report today st md d f = (g, Inr ())"
    "only_file ?p (Suc (length (resolve f (js_data_dir st)))) f g" "fs_node g ?p = Some (File md)"
    using save_report_effect [OF assms d(2)] by blast
  have r: "resolve g p = resolve f p" for p using g(2) by (intro resolve_cwd) (simp add: only_file_def)
  show "snd (save_report today st md d f) = Inr ()" by (simp add: g(1))
  show "load_report today st d (fst (save_report today st md d f)) = Inr md"
    using g(3) by (simp add: g(1) load_report_eq [OF d] r)
  show "storable st d (fst (save_report today st md d f))"
    using storable_only_file [OF assms d(1) g(2)] g(3) by (simp add: g(1))
  show "load_items fl today st d pf (fst (save_report today st md d f)) = load_items fl today st d pf f"
    using g(2) by (simp add: g(1) load_items_eq [OF d] r only_file_def)
qed

text \<open>
  The summary file is truncated before the value is serialized: the summary that was there is lost
  when the new one cannot be written.
\<close>

lemma summary_effect:
  assumes "storable st d f"
  shows "load_summary fl today st d (fst (save_summary fl today st j d f)) =
           (case json_dump_indent fl 2 j of Inl e \<Rightarrow> Inl JsonParseError | Inr t \<Rightarrow> json_parse fl t)"
    and "snd (save_summary fl today st j d f) = map_sum id (\<lambda>_. ()) (json_dump_indent fl 2 j)"
proof -
  let ?p = "resolve f (js_data_dir st) @ [d, ''summary.json'']"
  have d: "is_name d" using assms by (simp add: storable_def)
  have x: "''summary.json'' \<in> set file_names" by (simp add: file_names_def)
  obtain f1 f2 where f: "date_dir st d f = (f1, Inr (path_join (js_data_dir st) d))"
    "resolve f1 (path_join (path_join (js_data_dir st) d) ''summary.json'') = ?p"
    "open_out False ?p f1 = (f2, True)"
    "only_file ?p (Suc (length (resolve f (js_data_dir st)))) f f2"
    "fs_node f2 ?p = Some (File [])"
    using open_date_file [OF assms x, of False] by auto
  have wf2: "wf_fs f2" using f(4) by (simp add: only_file_def)
  have r: "resolve f2 p = resolve f p" "resolve (write_out ?p True t f2) p = resolve f p" for p t
    using f(4) write_out_keeps(2) [OF wf2] by (auto simp: only_file_def intro!: resolve_cwd)
  have n: "fs_node (write_out ?p True t f2) ?p = Some (File t)" for t
    using write_out_appends [OF f(5), of t] by simp
  have empty: "json_parse fl [] = Inl JsonParseError"
    by (simp add: json_parse_def skip_bom_def scan_def parse_value.simps)
  have s: "save_summary fl today st j d f =
      (case json_dump_indent fl 2 j of Inl e \<Rightarrow> (f2, Inl e) | Inr t \<Rightarrow> (write_out ?p True t f2, Inr ()))"
    using f d by (simp add: save_summary_def or_today_name)
  show "load_summary fl today st d (fst (save_summary fl today st j d f)) =
      (case json_dump_indent fl 2 j of Inl e \<Rightarrow> Inl JsonParseError | Inr t \<Rightarrow> json_parse fl t)"
    using n r d f(5) empty
    by (simp add: s load_summary_def or_today_name resolve_join fs_exists_def file_content_def
        split: sum.split)
  show "snd (save_summary fl today st j d f) = map_sum id (\<lambda>_. ()) (json_dump_indent fl 2 j)"
    by (simp add: s split: sum.split)
qed

lemma summary_roundtrip:
  assumes "float_io_ok fl" "storable st d f" "wf_json j" "json_utf8 j"
  shows "load_summary fl today st d (fst (save_summary fl today st j d f)) = Inr (norm_json j)"
    and "snd (save_summary fl today st j d f) = Inr ()"
proof -
  obtain t where "json_dump_indent fl 2 j = Inr t"
    using dump_val_ok_iff [of fl True 2 0 j] assms(4) by (auto simp: json_dump_indent_def)
  with summary_effect [OF assms(2)] parse_dump_indent [OF assms(1,3)]
  show "load_summary fl today st d (fst (save_summary fl today st j d f)) = Inr (norm_json j)"
    "snd (save_summary fl today st j d f) = Inr ()" by simp_all
qed

lemma summary_failed:
  assumes "storable st d f" "\<not> json_utf8 j"
  shows "snd (save_summary fl today st j d f) = Inl (JsonTypeError 316) \<and>
         load_summary fl today st d (fst (save_summary fl today st j d f)) = Inl JsonParseError"
proof -
  obtain e where e: "json_dump_indent fl 2 j = Inl e"
    using dump_val_ok_iff [of fl True 2 0 j] assms(2)
    by (cases "json_dump_indent fl 2 j") (auto simp: json_dump_indent_def)
  then have "e = JsonTypeError 316" using dump_val_error by (simp add: json_dump_indent_def)
  with e summary_effect [OF assms(1)] show ?thesis by simp
qed

subsection \<open>Dates and the life cycle\<close>

text \<open>The names in a directory, in some order.\<close>

definition lists_dir :: "(string list \<Rightarrow> string list) \<Rightarrow> fs \<Rightarrow> bool" where
  "lists_dir readdir f \<longleftrightarrow>
     (\<forall>p. distinct (readdir p) \<and> (\<forall>n. n \<in> set (readdir p) \<longleftrightarrow> fs_node f (p @ [n]) \<noteq> None))"

lemma list_dates_set:
  assumes "lists_dir readdir f" "list_dates readdir st f = Inr ds" "fs_exists f (js_data_dir st)"
  shows "set ds = {n. fs_node f (resolve f (js_data_dir st) @ [n]) = Some Dir \<and> n \<noteq> ''sessions''}"
  using assms
  by (auto simp: list_dates_def Let_def lists_dir_def split: option.splits node.splits if_splits)

lemma list_dates_order:
  assumes "lists_dir readdir f" "list_dates readdir st f = Inr ds"
  shows "sorted_wrt (>) ds"
proof -
  have "distinct (filter P (readdir p))" for P p using assms(1) by (simp add: lists_dir_def)
  then have "sorted_wrt (<) (sort (filter P (readdir p)))" for P p
    by (simp add: strict_sorted_iff)
  with assms(2) show ?thesis
    by (auto simp: list_dates_def Let_def sorted_wrt_rev split: option.splits node.splits if_splits)
qed

text \<open>The order of the directory listing does not matter.\<close>

lemma list_dates_readdir:
  assumes "lists_dir readdir f" "lists_dir readdir' f"
  shows "list_dates readdir st f = list_dates readdir' st f"
proof -
  have "sort (filter P (readdir p)) = sort (filter P (readdir' p))" for P p
  proof (rule sorted_distinct_set_unique)
    show "set (sort (filter P (readdir p))) = set (sort (filter P (readdir' p)))"
      using assms by (auto simp: lists_dir_def)
  qed (use assms in \<open>simp_all add: lists_dir_def\<close>)
  then show ?thesis by (simp add: list_dates_def Let_def split: option.split node.split)
qed

lemma storage_start_health:
  assumes "storage_start st f = ((st', g), Inr ())" "js_started st = False" "wf_fs f"
  shows "js_started st'" "storage_health_check st' g"
    "storage_start st' g = ((st', g), Inr ())" "storage_health_check (storage_stop st') g"
proof -
  obtain c: "create_directories (js_data_dir st) f = (g, Inr ())"
    and st': "st' = st\<lparr>js_started := True\<rparr>"
    using assms(1,2) by (auto simp: storage_start_def split: prod.splits sum.splits if_splits)
  then show "js_started st'" "storage_start st' g = ((st', g), Inr ())"
    by (simp_all add: storage_start_def)
  have "js_data_dir st \<noteq> []" using c by (auto simp: create_directories_def)
  with create_directories_dir(1) [OF assms(3) c] st'
  show "storage_health_check st' g" "storage_health_check (storage_stop st') g"
    by (simp_all add: storage_health_check_def storage_stop_def fs_exists_def)
qed

end
