(* ===== verification/Uv_Loop.thy ===== *)
theory Uv_Loop
  imports Std_Map
begin

text \<open>
  The part of libuv 1.48 (third_party/libuv) the scheduler runs on: timer handles, the ready queue
  of \<open>uv__run_timers\<close>, and closing. A handle is named by its address, a number; the loop holds every
  handle whose memory is still allocated. Using an address that is not there is undefined
  behaviour, and so is closing a handle twice (libuv asserts it is not closing). The binary heap of
  active timers is represented by what it is used for: its least element (\<open>heap_min\<close>).
\<close>

record 'cb uv_timer =
  tm_active :: bool
  tm_closing :: bool
  tm_cb :: "'cb option"
  tm_timeout :: u64
  tm_repeat :: u64
  tm_start_id :: u64

record 'cb uv_loop =
  lp_time :: u64
  lp_counter :: u64
  lp_timers :: "(nat, 'cb uv_timer) smap"
  lp_ready :: "nat list"
  lp_closing :: "nat list"

definition new_loop :: "u64 \<Rightarrow> 'cb uv_loop" where
  "new_loop now = \<lparr>lp_time = now, lp_counter = 0, lp_timers = [], lp_ready = [], lp_closing = []\<rparr>"

definition get_timer :: "'cb uv_loop \<Rightarrow> nat \<Rightarrow> 'cb uv_timer result" where
  "get_timer lp h = (case map_of (lp_timers lp) h of None \<Rightarrow> Inl Undefined | Some t \<Rightarrow> Inr t)"

definition set_timer :: "nat \<Rightarrow> 'cb uv_timer \<Rightarrow> 'cb uv_loop \<Rightarrow> 'cb uv_loop" where
  "set_timer h t lp = lp\<lparr>lp_timers := mput h t (lp_timers lp)\<rparr>"

subsection \<open>timer.c\<close>

definition timer_less_than :: "'cb uv_timer \<Rightarrow> 'cb uv_timer \<Rightarrow> bool" where
  "timer_less_than a b =
     (if tm_timeout a < tm_timeout b then True
      else if tm_timeout b < tm_timeout a then False
      else tm_start_id a < tm_start_id b)"

definition uv_timer_init :: "nat \<Rightarrow> 'cb uv_loop \<Rightarrow> 'cb uv_loop" where
  "uv_timer_init h lp =
     set_timer h
       \<lparr>tm_active = False, tm_closing = False, tm_cb = None, tm_timeout = 0, tm_repeat = 0,
        tm_start_id = 0\<rparr> lp"

definition uv_timer_stop :: "nat \<Rightarrow> 'cb uv_loop \<Rightarrow> 'cb uv_loop result" where
  "uv_timer_stop h lp = bind_res (get_timer lp h) (\<lambda>t.
     if tm_active t then Inr (set_timer h (t\<lparr>tm_active := False\<rparr>) lp)
     else Inr (lp\<lparr>lp_ready := filter (\<lambda>x. x \<noteq> h) (lp_ready lp)\<rparr>))"

text \<open>\<open>loop->time + timeout\<close> wraps; a wrapped sum is replaced by the largest time.\<close>

definition clamp_timeout :: "u64 \<Rightarrow> u64 \<Rightarrow> u64" where
  "clamp_timeout now timeout = (if now + timeout < timeout then - 1 else now + timeout)"

definition uv_timer_start ::
  "nat \<Rightarrow> 'cb \<Rightarrow> u64 \<Rightarrow> u64 \<Rightarrow> 'cb uv_loop \<Rightarrow> 'cb uv_loop result" where
  "uv_timer_start h cb timeout repeat lp = bind_res (get_timer lp h) (\<lambda>t0.
     if tm_closing t0 then Inr lp
     else bind_res (uv_timer_stop h lp) (\<lambda>lp1. bind_res (get_timer lp1 h) (\<lambda>t.
       Inr ((set_timer h
               (t\<lparr>tm_active := True, tm_cb := Some cb,
                 tm_timeout := clamp_timeout (lp_time lp1) timeout,
                 tm_repeat := repeat, tm_start_id := lp_counter lp1\<rparr>) lp1)
            \<lparr>lp_counter := lp_counter lp1 + 1\<rparr>))))"

definition uv_timer_again :: "nat \<Rightarrow> 'cb uv_loop \<Rightarrow> 'cb uv_loop result" where
  "uv_timer_again h lp = bind_res (get_timer lp h) (\<lambda>t.
     case tm_cb t of
       None \<Rightarrow> Inr lp
     | Some cb \<Rightarrow>
         if tm_repeat t \<noteq> 0
         then bind_res (uv_timer_stop h lp) (uv_timer_start h cb (tm_repeat t) (tm_repeat t))
         else Inr lp)"

text \<open>\<open>heap_min\<close>: the active timer that comes first.\<close>

fun heap_min :: "(nat, 'cb uv_timer) smap \<Rightarrow> (nat \<times> 'cb uv_timer) option" where
  "heap_min [] = None"
| "heap_min ((h, t) # m) =
     (if \<not> tm_active t then heap_min m
      else case heap_min m of
             None \<Rightarrow> Some (h, t)
           | Some (h', t') \<Rightarrow> if timer_less_than t' t then Some (h', t') else Some (h, t))"

text \<open>
  The first loop of \<open>uv__run_timers\<close>: due timers leave the heap for the ready queue, in order. Each
  round makes one active timer inactive, so the number of handles bounds the rounds.
\<close>

fun collect_due :: "nat \<Rightarrow> 'cb uv_loop \<Rightarrow> 'cb uv_loop" where
  "collect_due 0 lp = lp"
| "collect_due (Suc n) lp =
     (case heap_min (lp_timers lp) of
        None \<Rightarrow> lp
      | Some (h, t) \<Rightarrow>
          if lp_time lp < tm_timeout t then lp
          else collect_due n
                 ((set_timer h (t\<lparr>tm_active := False\<rparr>) lp)\<lparr>lp_ready := lp_ready lp @ [h]\<rparr>))"

definition uv_collect_due :: "'cb uv_loop \<Rightarrow> 'cb uv_loop" where
  "uv_collect_due lp = collect_due (length (lp_timers lp)) lp"

text \<open>\<open>uv__next_timeout\<close>: how long polling may block; \<open>None\<close> is indefinitely.\<close>

definition uv_next_timeout :: "'cb uv_loop \<Rightarrow> nat option" where
  "uv_next_timeout lp =
     (case heap_min (lp_timers lp) of
        None \<Rightarrow> None
      | Some (h, t) \<Rightarrow>
          if tm_timeout t \<le> lp_time lp then Some 0
          else Some (min (unat (tm_timeout t - lp_time lp)) (2 ^ 31 - 1)))"

subsection \<open>core.c\<close>

definition uv_close :: "nat \<Rightarrow> 'cb uv_loop \<Rightarrow> 'cb uv_loop result" where
  "uv_close h lp = bind_res (get_timer lp h) (\<lambda>t.
     if tm_closing t then Inl Undefined
     else bind_res (uv_timer_stop h (set_timer h (t\<lparr>tm_closing := True\<rparr>) lp))
            (\<lambda>lp1. Inr (lp1\<lparr>lp_closing := h # lp_closing lp1\<rparr>)))"

text \<open>
  \<open>uv__run_closing_handles\<close>: every handle on the list is finished and its close callback frees it.
\<close>

definition uv_run_closing :: "'cb uv_loop \<Rightarrow> 'cb uv_loop" where
  "uv_run_closing lp =
     lp\<lparr>lp_timers := fold merase (lp_closing lp) (lp_timers lp), lp_closing := []\<rparr>"

definition uv_update_time :: "u64 \<Rightarrow> 'cb uv_loop \<Rightarrow> 'cb uv_loop" where
  "uv_update_time now lp = lp\<lparr>lp_time := now\<rparr>"

definition timers_alive :: "'cb uv_loop \<Rightarrow> bool" where
  "timers_alive lp \<longleftrightarrow> heap_min (lp_timers lp) \<noteq> None \<or> lp_closing lp \<noteq> []"

subsection \<open>The invariant of the loop\<close>

text \<open>
  A closing handle is neither active nor ready and is on the closing list once; a ready handle is
  allocated, not active and has a callback; an active one has a callback.
\<close>

definition loop_inv :: "'cb uv_loop \<Rightarrow> bool" where
  "loop_inv lp \<longleftrightarrow>
     msorted (lp_timers lp) \<and> distinct (lp_ready lp) \<and> distinct (lp_closing lp) \<and>
     (\<forall>h t. map_of (lp_timers lp) h = Some t \<longrightarrow>
        (tm_active t \<longrightarrow> \<not> tm_closing t \<and> tm_cb t \<noteq> None) \<and> (h \<in> set (lp_closing lp) \<longleftrightarrow> tm_closing t)) \<and>
     (\<forall>h \<in> set (lp_ready lp). \<exists>t. map_of (lp_timers lp) h = Some t \<and> \<not> tm_active t \<and>
        \<not> tm_closing t \<and> tm_cb t \<noteq> None) \<and>
     (\<forall>h \<in> set (lp_closing lp). map_of (lp_timers lp) h \<noteq> None)"

lemma set_timer_simps [simp]:
  "map_of (lp_timers (set_timer h t lp)) = (map_of (lp_timers lp))(h \<mapsto> t)"
  "lp_time (set_timer h t lp) = lp_time lp"
  "lp_counter (set_timer h t lp) = lp_counter lp"
  "lp_ready (set_timer h t lp) = lp_ready lp"
  "lp_closing (set_timer h t lp) = lp_closing lp"
  "msorted (lp_timers lp) \<Longrightarrow> msorted (lp_timers (set_timer h t lp))"
  by (auto simp: set_timer_def)

lemma get_timer_iff: "get_timer lp h = Inr t \<longleftrightarrow> map_of (lp_timers lp) h = Some t"
  by (auto simp: get_timer_def split: option.splits)

lemma get_timer_Inl_iff: "get_timer lp h = Inl e \<longleftrightarrow> map_of (lp_timers lp) h = None \<and> e = Undefined"
  by (auto simp: get_timer_def split: option.splits)

lemma loop_inv_counter [simp]: "loop_inv (lp\<lparr>lp_counter := c\<rparr>) = loop_inv lp"
  by (simp add: loop_inv_def)

lemma loop_inv_set_timer:
  assumes "loop_inv lp" "h \<in> set (lp_closing lp) \<longleftrightarrow> tm_closing t"
    and "tm_active t \<Longrightarrow> \<not> tm_closing t \<and> tm_cb t \<noteq> None"
    and "h \<in> set (lp_ready lp) \<Longrightarrow> \<not> tm_active t \<and> \<not> tm_closing t \<and> tm_cb t \<noteq> None"
  shows "loop_inv (set_timer h t lp)"
  using assms unfolding loop_inv_def by auto

text \<open>\<open>uv_timer_stop\<close> in closed form: whatever the state, the handle is afterwards neither active nor ready.\<close>

lemma uv_timer_stop_eq:
  assumes "loop_inv lp" "map_of (lp_timers lp) h = Some t"
  shows "\<exists>lp'. uv_timer_stop h lp = Inr lp' \<and> loop_inv lp' \<and>
           map_of (lp_timers lp') = (map_of (lp_timers lp))(h \<mapsto> t\<lparr>tm_active := False\<rparr>) \<and>
           lp_ready lp' = filter (\<lambda>x. x \<noteq> h) (lp_ready lp) \<and> lp_closing lp' = lp_closing lp \<and>
           lp_time lp' = lp_time lp \<and> lp_counter lp' = lp_counter lp"
proof (cases "tm_active t")
  case True
  have nr: "h \<notin> set (lp_ready lp)" using assms True by (auto simp: loop_inv_def)
  let ?lp = "set_timer h (t\<lparr>tm_active := False\<rparr>) lp"
  have "loop_inv ?lp" using assms True nr by (auto simp: loop_inv_def)
  moreover have "filter (\<lambda>x. x \<noteq> h) (lp_ready lp) = lp_ready lp"
    using nr by (auto simp: filter_id_conv)
  ultimately show ?thesis
    using True assms(2) by (simp add: uv_timer_stop_def get_timer_def)
next
  case False
  let ?lp = "lp\<lparr>lp_ready := filter (\<lambda>x. x \<noteq> h) (lp_ready lp)\<rparr>"
  have t: "t\<lparr>tm_active := False\<rparr> = t" using False by simp
  have "loop_inv ?lp" using assms by (auto simp: loop_inv_def)
  with False assms(2) show ?thesis
    by (auto simp: uv_timer_stop_def get_timer_def t fun_upd_idem_iff)
qed

lemma uv_timer_init_eq:
  assumes "loop_inv lp" "map_of (lp_timers lp) h = None"
  shows "loop_inv (uv_timer_init h lp)"
proof -
  have "h \<notin> set (lp_ready lp)" "h \<notin> set (lp_closing lp)"
    using assms by (auto simp: loop_inv_def)
  with assms show ?thesis by (auto simp: loop_inv_def uv_timer_init_def)
qed

lemma uv_timer_start_eq:
  assumes "loop_inv lp" "map_of (lp_timers lp) h = Some t" "\<not> tm_closing t"
  shows "\<exists>lp'. uv_timer_start h cb timeout repeat lp = Inr lp' \<and> loop_inv lp' \<and>
           map_of (lp_timers lp') = (map_of (lp_timers lp))(h \<mapsto>
             t\<lparr>tm_active := True, tm_cb := Some cb,
               tm_timeout := clamp_timeout (lp_time lp) timeout,
               tm_repeat := repeat, tm_start_id := lp_counter lp\<rparr>) \<and>
           lp_ready lp' = filter (\<lambda>x. x \<noteq> h) (lp_ready lp) \<and> lp_closing lp' = lp_closing lp \<and>
           lp_time lp' = lp_time lp \<and> lp_counter lp' = lp_counter lp + 1"
proof -
  obtain lp1 where s: "uv_timer_stop h lp = Inr lp1" "loop_inv lp1"
    "map_of (lp_timers lp1) = (map_of (lp_timers lp))(h \<mapsto> t\<lparr>tm_active := False\<rparr>)"
    "lp_ready lp1 = filter (\<lambda>x. x \<noteq> h) (lp_ready lp)" "lp_closing lp1 = lp_closing lp"
    "lp_time lp1 = lp_time lp" "lp_counter lp1 = lp_counter lp"
    using uv_timer_stop_eq [OF assms(1,2)] by blast
  let ?t = "t\<lparr>tm_active := True, tm_cb := Some cb, tm_timeout := clamp_timeout (lp_time lp) timeout,
      tm_repeat := repeat, tm_start_id := lp_counter lp\<rparr>"
  let ?lp = "(set_timer h ?t lp1)\<lparr>lp_counter := lp_counter lp + 1\<rparr>"
  have "uv_timer_start h cb timeout repeat lp = Inr ?lp"
    using s assms(2,3) by (simp add: uv_timer_start_def get_timer_def)
  moreover have "h \<notin> set (lp_closing lp)" using assms by (auto simp: loop_inv_def)
  then have "loop_inv ?lp"
    unfolding loop_inv_counter using s(2,4,5) assms(3) by (intro loop_inv_set_timer) auto
  ultimately show ?thesis using s by auto
qed

lemma uv_close_eq:
  assumes "loop_inv lp" "map_of (lp_timers lp) h = Some t" "\<not> tm_closing t"
  shows "\<exists>lp'. uv_close h lp = Inr lp' \<and> loop_inv lp' \<and>
           map_of (lp_timers lp') =
             (map_of (lp_timers lp))(h \<mapsto> t\<lparr>tm_closing := True, tm_active := False\<rparr>) \<and>
           lp_ready lp' = filter (\<lambda>x. x \<noteq> h) (lp_ready lp) \<and> lp_closing lp' = h # lp_closing lp \<and>
           lp_time lp' = lp_time lp \<and> lp_counter lp' = lp_counter lp"
proof -
  let ?t = "t\<lparr>tm_closing := True\<rparr>"
  let ?lp1 = "set_timer h ?t lp"
  have nc: "h \<notin> set (lp_closing lp)" using assms by (auto simp: loop_inv_def)
  show ?thesis
  proof (cases "tm_active t")
    case True
    have nr: "h \<notin> set (lp_ready lp)" using assms True by (auto simp: loop_inv_def)
    let ?lp = "(set_timer h (?t\<lparr>tm_active := False\<rparr>) ?lp1)\<lparr>lp_closing := h # lp_closing lp\<rparr>"
    have "uv_close h lp = Inr ?lp"
      using assms(2,3) True by (simp add: uv_close_def get_timer_def uv_timer_stop_def)
    moreover have "loop_inv ?lp" using assms nc nr by (auto simp: loop_inv_def)
    moreover have "filter (\<lambda>x. x \<noteq> h) (lp_ready lp) = lp_ready lp"
      using nr by (auto simp: filter_id_conv)
    ultimately show ?thesis by auto
  next
    case False
    let ?lp = "?lp1\<lparr>lp_ready := filter (\<lambda>x. x \<noteq> h) (lp_ready lp), lp_closing := h # lp_closing lp\<rparr>"
    have "uv_close h lp = Inr ?lp"
      using assms(2,3) False by (simp add: uv_close_def get_timer_def uv_timer_stop_def)
    moreover have "loop_inv ?lp" using assms nc False by (auto simp: loop_inv_def)
    moreover have "t\<lparr>tm_closing := True, tm_active := False\<rparr> = ?t" using False by simp
    ultimately show ?thesis by auto
  qed
qed

lemma uv_close_twice:
  assumes "map_of (lp_timers lp) h = Some t" "tm_closing t"
  shows "uv_close h lp = Inl Undefined"
  using assms by (simp add: uv_close_def get_timer_def)

lemma map_of_fold_merase: "map_of (fold merase hs m) h = (if h \<in> set hs then None else map_of m h)"
  by (induction hs arbitrary: m) auto

lemma msorted_fold_merase: "msorted m \<Longrightarrow> msorted (fold merase hs m)"
  by (induction hs arbitrary: m) auto

text \<open>After the closing phase no closing handle is left, and only closed ones are gone.\<close>

lemma uv_run_closing_eq:
  assumes "loop_inv lp"
  shows "loop_inv (uv_run_closing lp)"
    and "map_of (lp_timers (uv_run_closing lp)) h =
           (case map_of (lp_timers lp) h of
              None \<Rightarrow> None | Some t \<Rightarrow> if tm_closing t then None else Some t)"
proof -
  show *: "map_of (lp_timers (uv_run_closing lp)) h =
           (case map_of (lp_timers lp) h of
              None \<Rightarrow> None | Some t \<Rightarrow> if tm_closing t then None else Some t)" for h
    using assms by (auto simp: uv_run_closing_def map_of_fold_merase loop_inv_def split: option.split)
  show "loop_inv (uv_run_closing lp)"
    using assms unfolding loop_inv_def *
    by (auto simp: uv_run_closing_def msorted_fold_merase split: option.splits if_splits)
qed

subsection \<open>Which timers become ready\<close>

lemma heap_min_None: "heap_min m = None \<longleftrightarrow> (\<forall>(h, t) \<in> set m. \<not> tm_active t)"
  by (induction m rule: heap_min.induct) (auto split: option.splits if_splits)

definition timer_key :: "'cb uv_timer \<Rightarrow> nat \<times> nat" where
  "timer_key t = (unat (tm_timeout t), unat (tm_start_id t))"

lemma timer_less_than_key:
  "timer_less_than a b \<longleftrightarrow> fst (timer_key a) < fst (timer_key b) \<or>
     fst (timer_key a) = fst (timer_key b) \<and> snd (timer_key a) < snd (timer_key b)"
  by (auto simp: timer_less_than_def timer_key_def word_less_nat_alt word_unat_eq_iff)

lemma heap_min_Some:
  "heap_min m = Some (h, t) \<Longrightarrow>
     (h, t) \<in> set m \<and> tm_active t \<and> (\<forall>(h', t') \<in> set m. tm_active t' \<longrightarrow> \<not> timer_less_than t' t)"
proof (induction m arbitrary: h t)
  case (Cons kv m)
  obtain h0 t0 where kv: "kv = (h0, t0)" by (cases kv)
  show ?case
  proof (cases "tm_active t0")
    case False
    with Cons.prems kv Cons.IH [of h t] show ?thesis by simp
  next
    case True
    show ?thesis
    proof (cases "heap_min m")
      case None
      with True Cons.prems kv have "h = h0" "t = t0" by simp_all
      with None True kv show ?thesis by (fastforce simp: heap_min_None timer_less_than_key)
    next
      case (Some ht)
      obtain h1 t1 where ht: "ht = (h1, t1)" by (cases ht)
      with Some Cons.IH [of h1 t1] have m: "(h1, t1) \<in> set m" "tm_active t1"
        "\<forall>(h', t') \<in> set m. tm_active t' \<longrightarrow> \<not> timer_less_than t' t1" by simp_all
      have c: "(h = h1 \<and> t = t1 \<and> timer_less_than t1 t0) \<or>
          (h = h0 \<and> t = t0 \<and> \<not> timer_less_than t1 t0)"
        using Cons.prems kv True Some ht by (auto split: if_splits)
      have l: "\<not> timer_less_than t0 t0" "timer_less_than t1 t0 \<Longrightarrow> \<not> timer_less_than t0 t1"
        "\<And>t'. \<not> timer_less_than t' t1 \<Longrightarrow> \<not> timer_less_than t1 t0 \<Longrightarrow> \<not> timer_less_than t' t0"
        by (auto simp: timer_less_than_key)
      from c show ?thesis
      proof
        assume "h = h1 \<and> t = t1 \<and> timer_less_than t1 t0"
        with m l(2) kv show ?thesis by simp
      next
        assume "h = h0 \<and> t = t0 \<and> \<not> timer_less_than t1 t0"
        with m l(1,3) True kv show ?thesis by fastforce
      qed
    qed
  qed
qed simp

definition active_set :: "'cb uv_loop \<Rightarrow> nat set" where
  "active_set lp = {h. \<exists>t. map_of (lp_timers lp) h = Some t \<and> tm_active t}"

definition due_set :: "'cb uv_loop \<Rightarrow> nat set" where
  "due_set lp = {h. \<exists>t. map_of (lp_timers lp) h = Some t \<and> tm_active t \<and> tm_timeout t \<le> lp_time lp}"

lemma active_set_bound: "finite (active_set lp)" "card (active_set lp) \<le> length (lp_timers lp)"
proof -
  have sub: "active_set lp \<subseteq> fst ` set (lp_timers lp)"
    by (auto simp: active_set_def dest!: map_of_SomeD intro: rev_image_eqI)
  then show "finite (active_set lp)" by (rule finite_subset) simp
  from sub have "card (active_set lp) \<le> card (fst ` set (lp_timers lp))" by (intro card_mono) simp_all
  also have "\<dots> \<le> card (set (lp_timers lp))" by (intro card_image_le) simp
  also have "\<dots> \<le> length (lp_timers lp)" by (rule card_length)
  finally show "card (active_set lp) \<le> length (lp_timers lp)" .
qed

text \<open>One round: the least due timer becomes ready.\<close>

lemma collect_one:
  assumes "loop_inv lp" "heap_min (lp_timers lp) = Some (h, t)" "\<not> lp_time lp < tm_timeout t"
  defines "lp' \<equiv> (set_timer h (t\<lparr>tm_active := False\<rparr>) lp)\<lparr>lp_ready := lp_ready lp @ [h]\<rparr>"
  shows "loop_inv lp'" "map_of (lp_timers lp) h = Some t" "h \<in> due_set lp"
    "due_set lp' = due_set lp - {h}" "active_set lp' = active_set lp - {h}"
    "\<And>h' t'. map_of (lp_timers lp) h' = Some t' \<Longrightarrow> tm_active t' \<Longrightarrow> \<not> timer_less_than t' t"
proof -
  have sorted: "msorted (lp_timers lp)" using assms(1) by (simp add: loop_inv_def)
  note hm = heap_min_Some [OF assms(2)]
  show t: "map_of (lp_timers lp) h = Some t"
    using hm map_of_Some_iff_set [OF sorted] by simp
  have nr: "h \<notin> set (lp_ready lp)" using assms(1) t hm by (auto simp: loop_inv_def)
  show "loop_inv lp'"
    using assms(1) t hm nr unfolding lp'_def loop_inv_def by auto
  show "h \<in> due_set lp" using t hm assms(3) by (simp add: due_set_def)
  show "due_set lp' = due_set lp - {h}" "active_set lp' = active_set lp - {h}"
    unfolding lp'_def by (auto simp: due_set_def active_set_def)
  show "\<not> timer_less_than t' t" if "map_of (lp_timers lp) h' = Some t'" "tm_active t'" for h' t'
    using hm that map_of_Some_iff_set [OF sorted] by blast
qed

lemma collect_due_spec:
  assumes "loop_inv lp" "card (active_set lp) \<le> n"
  shows "\<exists>ds. loop_inv (collect_due n lp) \<and> lp_ready (collect_due n lp) = lp_ready lp @ ds \<and>
           set ds = due_set lp \<and>
           sorted_wrt (\<lambda>a b. \<not> timer_less_than (the (map_of (lp_timers lp) b)) (the (map_of (lp_timers lp) a))) ds \<and>
           map_of (lp_timers (collect_due n lp)) =
             (\<lambda>h. map_option (\<lambda>t. if h \<in> due_set lp then t\<lparr>tm_active := False\<rparr> else t) (map_of (lp_timers lp) h)) \<and>
           lp_closing (collect_due n lp) = lp_closing lp \<and> lp_time (collect_due n lp) = lp_time lp \<and>
           lp_counter (collect_due n lp) = lp_counter lp"
  using assms
proof (induction n arbitrary: lp)
  case 0
  then have "active_set lp = {}" using active_set_bound(1) [of lp] by simp
  then have "due_set lp = {}" by (auto simp: due_set_def active_set_def)
  with 0 show ?case by (auto simp: option.map_ident)
next
  case (Suc n)
  show ?case
  proof (cases "\<exists>h t. heap_min (lp_timers lp) = Some (h, t) \<and> \<not> lp_time lp < tm_timeout t")
    case False
    have sorted: "msorted (lp_timers lp)" using Suc.prems(1) by (simp add: loop_inv_def)
    have "due_set lp = {}"
    proof (cases "heap_min (lp_timers lp)")
      case None
      then show ?thesis
        by (auto simp: due_set_def heap_min_None dest!: map_of_SomeD)
    next
      case (Some ht)
      obtain h t where ht: "ht = (h, t)" by (cases ht)
      with Some False have late: "lp_time lp < tm_timeout t" by auto
      have "\<not> tm_timeout t' \<le> lp_time lp" if "map_of (lp_timers lp) h' = Some t'" "tm_active t'" for h' t'
      proof -
        have "\<not> timer_less_than t' t"
          using heap_min_Some [of "lp_timers lp" h t] Some ht that map_of_Some_iff_set [OF sorted] by blast
        then have "tm_timeout t \<le> tm_timeout t'" by (auto simp: timer_less_than_def split: if_splits)
        with late show ?thesis by auto
      qed
      then show ?thesis by (auto simp: due_set_def)
    qed
    moreover have "collect_due (Suc n) lp = lp" using False by (auto split: option.split)
    ultimately show ?thesis using Suc.prems by (auto simp: option.map_ident)
  next
    case True
    then obtain h t where m: "heap_min (lp_timers lp) = Some (h, t)" "\<not> lp_time lp < tm_timeout t"
      by blast
    let ?lp = "(set_timer h (t\<lparr>tm_active := False\<rparr>) lp)\<lparr>lp_ready := lp_ready lp @ [h]\<rparr>"
    note one = collect_one [OF Suc.prems(1) m]
    have "h \<in> active_set lp" using one(2,3) by (auto simp: due_set_def active_set_def)
    then have "card (active_set ?lp) \<le> n"
      using Suc.prems(2) active_set_bound(1) [of lp] by (simp add: one(5))
    from Suc.IH [OF one(1) this] obtain ds where ds:
      "loop_inv (collect_due n ?lp)" "lp_ready (collect_due n ?lp) = lp_ready lp @ h # ds"
      "set ds = due_set lp - {h}"
      "sorted_wrt (\<lambda>a b. \<not> timer_less_than (the (map_of (lp_timers ?lp) b)) (the (map_of (lp_timers ?lp) a))) ds"
      "map_of (lp_timers (collect_due n ?lp)) =
         (\<lambda>x. map_option (\<lambda>t. if x \<in> due_set lp - {h} then t\<lparr>tm_active := False\<rparr> else t) (map_of (lp_timers ?lp) x))"
      "lp_closing (collect_due n ?lp) = lp_closing lp" "lp_time (collect_due n ?lp) = lp_time lp"
      "lp_counter (collect_due n ?lp) = lp_counter lp"
      unfolding one(4) by auto
    have eq: "collect_due (Suc n) lp = collect_due n ?lp" using m by simp
    have "sorted_wrt (\<lambda>a b. \<not> timer_less_than (the (map_of (lp_timers lp) b)) (the (map_of (lp_timers lp) a))) ds"
      by (rule sorted_wrt_mono_rel [OF _ ds(4)]) (use ds(3) in auto)
    moreover have "\<forall>b \<in> set ds. \<not> timer_less_than (the (map_of (lp_timers lp) b)) t"
      using one(6) ds(3) by (auto simp: due_set_def)
    ultimately have "sorted_wrt (\<lambda>a b. \<not> timer_less_than (the (map_of (lp_timers lp) b)) (the (map_of (lp_timers lp) a))) (h # ds)"
      using one(2) by simp
    moreover have "map_of (lp_timers (collect_due n ?lp)) =
        (\<lambda>x. map_option (\<lambda>t. if x \<in> due_set lp then t\<lparr>tm_active := False\<rparr> else t) (map_of (lp_timers lp) x))"
      unfolding ds(5) using one(2,3) by (auto simp: fun_eq_iff)
    ultimately show ?thesis
      unfolding eq using ds one(3) by (intro exI [of _ "h # ds"]) auto
  qed
qed

text \<open>What \<open>uv__run_timers\<close> makes ready: the due timers, each once, the earlier deadline first.\<close>

lemma uv_collect_due_spec:
  assumes "loop_inv lp"
  obtains ds where "loop_inv (uv_collect_due lp)" "lp_ready (uv_collect_due lp) = lp_ready lp @ ds"
    "set ds = due_set lp" "distinct ds"
    "sorted_wrt (\<lambda>a b. \<not> timer_less_than (the (map_of (lp_timers lp) b)) (the (map_of (lp_timers lp) a))) ds"
    "map_of (lp_timers (uv_collect_due lp)) =
       (\<lambda>h. map_option (\<lambda>t. if h \<in> due_set lp then t\<lparr>tm_active := False\<rparr> else t) (map_of (lp_timers lp) h))"
    "lp_closing (uv_collect_due lp) = lp_closing lp" "lp_time (uv_collect_due lp) = lp_time lp"
    "due_set (uv_collect_due lp) = {}"
proof -
  from collect_due_spec [OF assms active_set_bound(2)] obtain ds where ds:
    "loop_inv (uv_collect_due lp)" "lp_ready (uv_collect_due lp) = lp_ready lp @ ds"
    "set ds = due_set lp"
    "sorted_wrt (\<lambda>a b. \<not> timer_less_than (the (map_of (lp_timers lp) b)) (the (map_of (lp_timers lp) a))) ds"
    "map_of (lp_timers (uv_collect_due lp)) =
       (\<lambda>h. map_option (\<lambda>t. if h \<in> due_set lp then t\<lparr>tm_active := False\<rparr> else t) (map_of (lp_timers lp) h))"
    "lp_closing (uv_collect_due lp) = lp_closing lp" "lp_time (uv_collect_due lp) = lp_time lp"
    unfolding uv_collect_due_def by blast
  have "distinct ds" using ds(1,2) by (simp add: loop_inv_def)
  moreover have "due_set (uv_collect_due lp) = {}"
    unfolding due_set_def ds(5,7) by (auto simp: due_set_def split: if_splits)
  ultimately show ?thesis using that ds by blast
qed

end
