(* ===== verification/Uv_Scheduler.thy ===== *)
theory Uv_Scheduler
  imports Uv_Loop Module_Models
begin

text \<open>
  \<open>UvScheduler\<close> (src/wheel/scheduler/imp/uv_scheduler.cpp): named periodic jobs, one-shot timers,
  the queue of callbacks posted to the loop thread, and work on the thread pool, over the libuv
  loop of theory \<open>Uv_Loop\<close>. A \<open>std::function<void()>\<close> is the list of what it does when called (an
  observable event, an exception, calls of the scheduler), or \<open>None\<close> when it is empty.
  Operations give \<open>Inl Undefined\<close> where libuv's assertions or the memory rules are violated; no
  other error can leave them, every callback being called under \<open>catch (...)\<close>.
\<close>

subsection \<open>State\<close>

datatype cmd =
    Emit nat
  | Throw
  | Post "cmd list option"
  | AddJob string u64 "cmd list option"
  | RemoveJob string
  | After u64 "cmd list option"
  | RunBlocking "cmd list option" "cmd list option"
  | Start
  | Stop

type_synonym callback = "cmd list option"

text \<open>Which of the two timer callbacks is installed.\<close>

datatype timer_kind = TimerCb | OneshotTimerCb

text \<open>The async handle: not initialised, in the loop with its pending flag, closing, closed.\<close>

datatype async_handle = AUninit | ALive bool | AClosing | AClosed

record timer_ctx =
  cx_name :: string
  cx_callback :: callback
  cx_owner :: bool

record scheduler =
  us_config :: scheduler_config
  us_started :: bool
  us_async_inited :: bool
  us_async :: async_handle
  us_post_queue :: "callback list"
  us_timers :: "(string, nat) smap"
  us_ctx :: "(nat, timer_ctx) smap"
  us_loop :: "timer_kind uv_loop"
  us_next :: nat
  us_counter :: int32
  us_work :: "(callback \<times> callback) list"
  us_done :: "callback list"
  us_log :: "nat list"

text \<open>A scheduler on a fresh default loop; \<open>us_counter\<close> is the static counter of \<open>after\<close>.\<close>

definition new_scheduler :: "scheduler_config \<Rightarrow> scheduler" where
  "new_scheduler c =
     \<lparr>us_config = c, us_started = False, us_async_inited = False, us_async = AUninit,
      us_post_queue = [], us_timers = [], us_ctx = [], us_loop = new_loop 0, us_next = 0,
      us_counter = 0, us_work = [], us_done = [], us_log = []\<rparr>"

text \<open>\<open>SchedulerFactory\<close>.\<close>

definition create_scheduler :: "scheduler_config option \<Rightarrow> scheduler" where
  "create_scheduler c =
     (case c of Some cfg \<Rightarrow> new_scheduler cfg | None \<Rightarrow> new_scheduler default_scheduler_config)"

definition sched_name :: "scheduler \<Rightarrow> string" where
  "sched_name s = ''UvScheduler''"

definition sched_health_check :: "scheduler \<Rightarrow> bool" where
  "sched_health_check s = us_started s"

definition get_ctx :: "scheduler \<Rightarrow> nat \<Rightarrow> timer_ctx result" where
  "get_ctx s h = (case map_of (us_ctx s) h of None \<Rightarrow> Inl Undefined | Some c \<Rightarrow> Inr c)"

text \<open>Running a libuv function on the loop of the scheduler.\<close>

definition with_loop ::
  "(timer_kind uv_loop \<Rightarrow> timer_kind uv_loop result) \<Rightarrow> scheduler \<Rightarrow> scheduler result" where
  "with_loop f s = bind_res (f (us_loop s)) (\<lambda>lp. Inr (s\<lparr>us_loop := lp\<rparr>))"

subsection \<open>Operations\<close>

definition sched_start :: "scheduler \<Rightarrow> scheduler result" where
  "sched_start s =
     (if us_started s then Inr s
      else case us_async s of
             AUninit \<Rightarrow> Inr (s\<lparr>us_async := ALive False, us_async_inited := True, us_started := True\<rparr>)
           | AClosed \<Rightarrow> Inr (s\<lparr>us_async := ALive False, us_async_inited := True, us_started := True\<rparr>)
           | _ \<Rightarrow> Inl Undefined)"

text \<open>\<open>uv_timer_stop\<close>, \<open>owner = nullptr\<close>, \<open>uv_close\<close>.\<close>

definition close_ctx :: "nat \<Rightarrow> scheduler \<Rightarrow> scheduler result" where
  "close_ctx h s =
     bind_res (with_loop (uv_timer_stop h) s) (\<lambda>s1.
     bind_res (get_ctx s1 h) (\<lambda>c.
       with_loop (uv_close h) (s1\<lparr>us_ctx := mput h (c\<lparr>cx_owner := False\<rparr>) (us_ctx s1)\<rparr>)))"

definition sched_stop :: "scheduler \<Rightarrow> scheduler result" where
  "sched_stop s =
     (if \<not> us_started s then Inr s
      else bind_res (for_res (\<lambda>(name, h). close_ctx h) (us_timers s) (s\<lparr>us_started := False\<rparr>)) (\<lambda>s1.
             let s2 = s1\<lparr>us_timers := []\<rparr>
             in if us_async_inited s2 then
                  (case us_async s2 of
                     ALive p \<Rightarrow> Inr (s2\<lparr>us_async := AClosing, us_async_inited := False\<rparr>)
                   | _ \<Rightarrow> Inl Undefined)
                else Inr s2))"

text \<open>\<open>~UvScheduler\<close>.\<close>

definition sched_destroy :: "scheduler \<Rightarrow> scheduler result" where
  "sched_destroy s = sched_stop s"

definition run_blocking :: "callback \<Rightarrow> callback \<Rightarrow> scheduler \<Rightarrow> scheduler" where
  "run_blocking work on_done s = s\<lparr>us_work := us_work s @ [(work, on_done)]\<rparr>"

definition uv_async_send :: "scheduler \<Rightarrow> scheduler result" where
  "uv_async_send s =
     (case us_async s of
        AUninit \<Rightarrow> Inl Undefined
      | ALive p \<Rightarrow> Inr (s\<lparr>us_async := ALive True\<rparr>)
      | _ \<Rightarrow> Inr s)"

definition post :: "callback \<Rightarrow> scheduler \<Rightarrow> scheduler result" where
  "post cb s = uv_async_send (s\<lparr>us_post_queue := us_post_queue s @ [cb]\<rparr>)"

definition remove_job :: "string \<Rightarrow> scheduler \<Rightarrow> scheduler result" where
  "remove_job name s =
     (case map_of (us_timers s) name of
        None \<Rightarrow> Inr s
      | Some h \<Rightarrow> close_ctx h (s\<lparr>us_timers := merase name (us_timers s)\<rparr>))"

text \<open>\<open>new TimerCtx\<close>, \<open>uv_timer_init\<close> and \<open>timers_[name] = ctx\<close>.\<close>

definition new_ctx :: "string \<Rightarrow> callback \<Rightarrow> scheduler \<Rightarrow> nat \<times> scheduler" where
  "new_ctx name cb s =
     (let h = us_next s
      in (h, s\<lparr>us_next := Suc h,
               us_ctx := mput h \<lparr>cx_name = name, cx_callback = cb, cx_owner = True\<rparr> (us_ctx s),
               us_loop := uv_timer_init h (us_loop s),
               us_timers := mput name h (us_timers s)\<rparr>))"

definition add_job :: "string \<Rightarrow> u64 \<Rightarrow> callback \<Rightarrow> scheduler \<Rightarrow> scheduler result" where
  "add_job name interval_ms cb s =
     bind_res (remove_job name s) (\<lambda>s1.
       let (h, s2) = new_ctx name cb s1
       in with_loop (uv_timer_start h TimerCb interval_ms interval_ms) s2)"

definition after_name :: "int32 \<Rightarrow> string" where
  "after_name k = ''_a_'' @ int_str (sint k)"

definition after :: "u64 \<Rightarrow> callback \<Rightarrow> scheduler \<Rightarrow> scheduler result" where
  "after delay_ms cb s =
     (let k = us_counter s + 1;
          name = after_name k
      in bind_res (remove_job name (s\<lparr>us_counter := k\<rparr>)) (\<lambda>s1.
           let (h, s2) = new_ctx name cb s1
           in with_loop (uv_timer_start h OneshotTimerCb delay_ms 0) s2))"

subsection \<open>Running callbacks\<close>

fun exec_cmd :: "cmd \<Rightarrow> scheduler \<Rightarrow> scheduler result" where
  "exec_cmd (Emit n) s = Inr (s\<lparr>us_log := us_log s @ [n]\<rparr>)"
| "exec_cmd Throw s = Inr s"
| "exec_cmd (Post cb) s = post cb s"
| "exec_cmd (AddJob name ms cb) s = add_job name ms cb s"
| "exec_cmd (RemoveJob name) s = remove_job name s"
| "exec_cmd (After ms cb) s = after ms cb s"
| "exec_cmd (RunBlocking w d) s = Inr (run_blocking w d s)"
| "exec_cmd Start s = sched_start s"
| "exec_cmd Stop s = sched_stop s"

text \<open>A body up to its first exception, which the caller catches.\<close>

fun exec_cmds :: "cmd list \<Rightarrow> scheduler \<Rightarrow> scheduler result" where
  "exec_cmds [] s = Inr s"
| "exec_cmds (c # cs) s =
     (if c = Throw then Inr s else bind_res (exec_cmd c s) (exec_cmds cs))"

text \<open>
  \<open>try { cb(); } catch (...) {}\<close>; an empty function throws \<open>std::bad_function_call\<close>, which is caught
  as well.
\<close>

definition run_cb :: "callback \<Rightarrow> scheduler \<Rightarrow> scheduler result" where
  "run_cb cb s = (case cb of None \<Rightarrow> Inr s | Some cs \<Rightarrow> exec_cmds cs s)"

definition drain_post_queue :: "scheduler \<Rightarrow> scheduler result" where
  "drain_post_queue s = for_res run_cb (us_post_queue s) (s\<lparr>us_post_queue := []\<rparr>)"

definition timer_cb :: "nat \<Rightarrow> scheduler \<Rightarrow> scheduler result" where
  "timer_cb h s = bind_res (get_ctx s h) (\<lambda>c. run_cb (cx_callback c) s)"

definition oneshot_timer_cb :: "nat \<Rightarrow> scheduler \<Rightarrow> scheduler result" where
  "oneshot_timer_cb h s =
     bind_res (get_ctx s h) (\<lambda>c.
     bind_res (run_cb (cx_callback c) s) (\<lambda>s1.
     bind_res (with_loop (uv_timer_stop h) s1) (\<lambda>s2.
     bind_res (get_ctx s2 h) (\<lambda>c2.
       with_loop (uv_close h)
         (if cx_owner c2 then s2\<lparr>us_timers := merase (cx_name c2) (us_timers s2)\<rparr> else s2)))))"

text \<open>
  The pool finishes one of the queued works: its body runs on a pool thread, where only an event,
  an exception and \<open>post\<close> are allowed; then \<open>on_done\<close> waits for the loop.
\<close>

fun exec_worker :: "cmd list \<Rightarrow> scheduler \<Rightarrow> scheduler result" where
  "exec_worker [] s = Inr s"
| "exec_worker (c # cs) s =
     (case c of
        Throw \<Rightarrow> Inr s
      | Emit n \<Rightarrow> bind_res (exec_cmd c s) (exec_worker cs)
      | Post cb \<Rightarrow> bind_res (exec_cmd c s) (exec_worker cs)
      | _ \<Rightarrow> Inl Undefined)"

definition work_cb :: "nat \<Rightarrow> scheduler \<Rightarrow> scheduler result" where
  "work_cb i s =
     (if i < length (us_work s) then
        (let (work, on_done) = us_work s ! i;
             s1 = s\<lparr>us_work := take i (us_work s) @ drop (Suc i) (us_work s)\<rparr>
         in bind_res (case work of None \<Rightarrow> Inr s1 | Some cs \<Rightarrow> exec_worker cs s1)
              (\<lambda>s2. Inr (s2\<lparr>us_done := us_done s2 @ [on_done]\<rparr>)))
      else Inr s)"

text \<open>\<open>after_work_cb\<close> for every finished work, in the order they finished.\<close>

definition after_works :: "scheduler \<Rightarrow> scheduler result" where
  "after_works s = for_res run_cb (us_done s) (s\<lparr>us_done := []\<rparr>)"

subsection \<open>The loop\<close>

text \<open>The second loop of \<open>uv__run_timers\<close>; nothing is added to the ready queue while it runs.\<close>

fun run_ready :: "nat \<Rightarrow> scheduler \<Rightarrow> scheduler result" where
  "run_ready 0 s = Inr s"
| "run_ready (Suc n) s =
     (case lp_ready (us_loop s) of
        [] \<Rightarrow> Inr s
      | h # hs \<Rightarrow>
          bind_res (with_loop (uv_timer_again h) (s\<lparr>us_loop := (us_loop s)\<lparr>lp_ready := hs\<rparr>\<rparr>)) (\<lambda>s1.
          bind_res (get_timer (us_loop s1) h) (\<lambda>t.
          bind_res (case tm_cb t of
                      None \<Rightarrow> Inl Undefined
                    | Some TimerCb \<Rightarrow> timer_cb h s1
                    | Some OneshotTimerCb \<Rightarrow> oneshot_timer_cb h s1)
            (run_ready n))))"

definition run_timers :: "scheduler \<Rightarrow> scheduler result" where
  "run_timers s =
     (let s1 = s\<lparr>us_loop := uv_collect_due (us_loop s)\<rparr>
      in run_ready (length (lp_ready (us_loop s1))) s1)"

definition async_io :: "scheduler \<Rightarrow> scheduler result" where
  "async_io s =
     bind_res (after_works s) (\<lambda>s1.
       if us_async s1 = ALive True then drain_post_queue (s1\<lparr>us_async := ALive False\<rparr>) else Inr s1)"

text \<open>\<open>uv__run_closing_handles\<close> with \<open>timer_close_cb\<close>, which deletes the context.\<close>

definition run_closing_handles :: "scheduler \<Rightarrow> scheduler" where
  "run_closing_handles s =
     s\<lparr>us_ctx := fold merase (lp_closing (us_loop s)) (us_ctx s),
       us_loop := uv_run_closing (us_loop s),
       us_async := (if us_async s = AClosing then AClosed else us_async s)\<rparr>"

definition loop_alive :: "scheduler \<Rightarrow> bool" where
  "loop_alive s \<longleftrightarrow> timers_alive (us_loop s) \<or> (\<exists>p \<in> {False, True}. us_async s = ALive p) \<or>
     us_async s = AClosing \<or> us_work s \<noteq> [] \<or> us_done s \<noteq> []"

text \<open>
  One iteration of \<open>uv_run\<close>: polling (which reads the clock, \<open>polled\<close>), closing, then the timers at
  the time \<open>now\<close>.
\<close>

definition loop_iteration :: "u64 \<times> u64 \<Rightarrow> scheduler \<Rightarrow> scheduler result" where
  "loop_iteration clock s =
     (let (polled, now) = clock
      in bind_res (async_io (s\<lparr>us_loop := uv_update_time polled (us_loop s)\<rparr>)) (\<lambda>s1.
           let s2 = run_closing_handles s1
           in run_timers (s2\<lparr>us_loop := uv_update_time now (us_loop s2)\<rparr>)))"

text \<open>\<open>step()\<close>: \<open>uv_run(UV_RUN_ONCE)\<close>.\<close>

definition step :: "u64 \<times> u64 \<Rightarrow> scheduler \<Rightarrow> scheduler result" where
  "step clock s =
     (if \<not> loop_alive s then Inr (s\<lparr>us_loop := uv_update_time (fst clock) (us_loop s)\<rparr>)
      else loop_iteration clock s)"

text \<open>
  \<open>run()\<close>: \<open>uv_run(UV_RUN_DEFAULT)\<close>, with the readings of the clock; it ends when nothing is alive,
  or the readings do. Whether anything is alive is asked before the first timers run, and not again
  before the first iteration.
\<close>

fun run_loop :: "(u64 \<times> u64) list \<Rightarrow> scheduler \<Rightarrow> scheduler result" where
  "run_loop [] s = Inr s"
| "run_loop (c # cs) s =
     (if \<not> loop_alive s then Inr s else bind_res (loop_iteration c s) (run_loop cs))"

definition run :: "u64 \<Rightarrow> (u64 \<times> u64) list \<Rightarrow> scheduler \<Rightarrow> scheduler result" where
  "run now clocks s =
     (let s1 = s\<lparr>us_loop := uv_update_time now (us_loop s)\<rparr>
      in if \<not> loop_alive s then Inr s1
         else bind_res (run_timers s1) (\<lambda>s2.
           case clocks of [] \<Rightarrow> Inr s2 | c # cs \<Rightarrow> bind_res (loop_iteration c s2) (run_loop cs)))"

subsection \<open>The ownership invariant\<close>

text \<open>
  Every allocated context is owned by exactly one name of \<open>timers_\<close>, or closing and waiting to be
  deleted; the async handle is in the loop exactly while the scheduler is started.
\<close>

definition sched_inv :: "scheduler \<Rightarrow> bool" where
  "sched_inv s \<longleftrightarrow>
     loop_inv (us_loop s) \<and> msorted (us_timers s) \<and> msorted (us_ctx s) \<and>
     dom (map_of (us_ctx s)) = dom (map_of (lp_timers (us_loop s))) \<and>
     (\<forall>h \<in> dom (map_of (us_ctx s)). h < us_next s) \<and>
     (\<forall>name h. map_of (us_timers s) name = Some h \<longrightarrow>
        (\<exists>c. map_of (us_ctx s) h = Some c \<and> cx_name c = name \<and> cx_owner c)) \<and>
     (\<forall>h c t. map_of (us_ctx s) h = Some c \<longrightarrow> map_of (lp_timers (us_loop s)) h = Some t \<longrightarrow>
        (if tm_closing t then \<forall>n. map_of (us_timers s) n \<noteq> Some h
         else cx_owner c \<and> map_of (us_timers s) (cx_name c) = Some h)) \<and>
     (us_async_inited s \<longleftrightarrow> us_started s) \<and> ((\<exists>p. us_async s = ALive p) \<longleftrightarrow> us_started s)"

lemma sched_inv_new: "sched_inv (new_scheduler c)"
  by (simp add: sched_inv_def new_scheduler_def new_loop_def loop_inv_def)

text \<open>The invariant does not read the parts that callbacks and posts use.\<close>

lemma sched_inv_irrelevant [simp]:
  "sched_inv (s\<lparr>us_log := l\<rparr>) = sched_inv s"
  "sched_inv (s\<lparr>us_post_queue := q\<rparr>) = sched_inv s"
  "sched_inv (s\<lparr>us_work := w\<rparr>) = sched_inv s"
  "sched_inv (s\<lparr>us_done := d\<rparr>) = sched_inv s"
  "sched_inv (s\<lparr>us_counter := k\<rparr>) = sched_inv s"
  by (simp_all add: sched_inv_def)

lemma with_loop_Inr: "f (us_loop s) = Inr lp \<Longrightarrow> with_loop f s = Inr (s\<lparr>us_loop := lp\<rparr>)"
  by (simp add: with_loop_def)

text \<open>What closing a context that is not closing yet does; the name is gone from the map already.\<close>

lemma close_ctx_eq:
  assumes "loop_inv (us_loop s)" "map_of (us_ctx s) h = Some c"
    and "map_of (lp_timers (us_loop s)) h = Some t" "\<not> tm_closing t"
  shows "\<exists>lp. close_ctx h s =
             Inr (s\<lparr>us_ctx := mput h (c\<lparr>cx_owner := False\<rparr>) (us_ctx s), us_loop := lp\<rparr>) \<and>
           loop_inv lp \<and>
           map_of (lp_timers lp) =
             (map_of (lp_timers (us_loop s)))(h \<mapsto> t\<lparr>tm_closing := True, tm_active := False\<rparr>) \<and>
           lp_ready lp = filter (\<lambda>x. x \<noteq> h) (lp_ready (us_loop s)) \<and>
           lp_closing lp = h # lp_closing (us_loop s) \<and> lp_time lp = lp_time (us_loop s) \<and>
           lp_counter lp = lp_counter (us_loop s)"
proof -
  obtain lp1 where s1: "uv_timer_stop h (us_loop s) = Inr lp1" "loop_inv lp1"
    "map_of (lp_timers lp1) = (map_of (lp_timers (us_loop s)))(h \<mapsto> t\<lparr>tm_active := False\<rparr>)"
    "lp_ready lp1 = filter (\<lambda>x. x \<noteq> h) (lp_ready (us_loop s))"
    "lp_closing lp1 = lp_closing (us_loop s)" "lp_time lp1 = lp_time (us_loop s)"
    "lp_counter lp1 = lp_counter (us_loop s)"
    using uv_timer_stop_eq [OF assms(1,3)] by blast
  have "map_of (lp_timers lp1) h = Some (t\<lparr>tm_active := False\<rparr>)"
    "\<not> tm_closing (t\<lparr>tm_active := False\<rparr>)" using s1(3) assms(4) by simp_all
  from uv_close_eq [OF s1(2) this] obtain lp2 where s2: "uv_close h lp1 = Inr lp2" "loop_inv lp2"
    "map_of (lp_timers lp2) =
       (map_of (lp_timers lp1))(h \<mapsto> t\<lparr>tm_active := False, tm_closing := True, tm_active := False\<rparr>)"
    "lp_ready lp2 = filter (\<lambda>x. x \<noteq> h) (lp_ready lp1)" "lp_closing lp2 = h # lp_closing lp1"
    "lp_time lp2 = lp_time lp1" "lp_counter lp2 = lp_counter lp1"
    by blast
  have "close_ctx h s = Inr (s\<lparr>us_ctx := mput h (c\<lparr>cx_owner := False\<rparr>) (us_ctx s), us_loop := lp2\<rparr>)"
    using s1(1) s2(1) assms(2) by (simp add: close_ctx_def with_loop_def get_ctx_def)
  with s1 s2 show ?thesis by (intro exI [of _ lp2]) (auto simp: fun_upd_def)
qed

lemma sched_inv_handle:
  assumes "sched_inv s" "map_of (us_ctx s) h = Some c" "map_of (lp_timers (us_loop s)) h = Some t"
  shows "if tm_closing t then \<forall>n. map_of (us_timers s) n \<noteq> Some h
         else cx_owner c \<and> map_of (us_timers s) (cx_name c) = Some h"
  using assms unfolding sched_inv_def by blast

lemma sched_inv_timer:
  assumes "sched_inv s" "map_of (us_timers s) name = Some h"
  obtains c t where "map_of (us_ctx s) h = Some c" "cx_name c = name" "cx_owner c"
    "map_of (lp_timers (us_loop s)) h = Some t" "\<not> tm_closing t"
proof -
  obtain c where c: "map_of (us_ctx s) h = Some c" "cx_name c = name" "cx_owner c"
    using assms unfolding sched_inv_def by blast
  then obtain t where t: "map_of (lp_timers (us_loop s)) h = Some t"
    using assms(1) unfolding sched_inv_def by blast
  with sched_inv_handle [OF assms(1) c(1)] assms(2) have "\<not> tm_closing t" by auto
  with that c t show ?thesis by blast
qed

text \<open>What the rest of the state keeps under the operations on jobs.\<close>

definition same_rest :: "scheduler \<Rightarrow> scheduler \<Rightarrow> bool" where
  "same_rest s s' \<longleftrightarrow> us_async s' = us_async s \<and> us_started s' = us_started s \<and>
     us_post_queue s' = us_post_queue s \<and> us_log s' = us_log s \<and>
     us_work s' = us_work s \<and> us_done s' = us_done s \<and>
     lp_time (us_loop s') = lp_time (us_loop s) \<and>
     set (lp_ready (us_loop s')) \<subseteq> set (lp_ready (us_loop s)) \<and>
     length (lp_ready (us_loop s')) \<le> length (lp_ready (us_loop s))"

text \<open>The contract of \<open>remove_job\<close>: the name is free, its context closes, everything else stays.\<close>

definition removed :: "string \<Rightarrow> scheduler \<Rightarrow> scheduler \<Rightarrow> bool" where
  "removed name s s' \<longleftrightarrow> same_rest s s' \<and> us_timers s' = merase name (us_timers s) \<and>
     us_next s' = us_next s \<and> us_counter s' = us_counter s \<and>
     lp_counter (us_loop s') = lp_counter (us_loop s) \<and>
     lp_ready (us_loop s') = filter (\<lambda>h. map_of (us_timers s) name \<noteq> Some h) (lp_ready (us_loop s)) \<and>
     map_of (us_ctx s') = (\<lambda>h. if map_of (us_timers s) name = Some h
        then map_option (\<lambda>c. c\<lparr>cx_owner := False\<rparr>) (map_of (us_ctx s) h) else map_of (us_ctx s) h) \<and>
     map_of (lp_timers (us_loop s')) = (\<lambda>h. if map_of (us_timers s) name = Some h
        then map_option (\<lambda>t. t\<lparr>tm_closing := True, tm_active := False\<rparr>) (map_of (lp_timers (us_loop s)) h)
        else map_of (lp_timers (us_loop s)) h)"

text \<open>The contract of installing a job: a new context owned by the name, its timer running.\<close>

definition installed ::
  "string \<Rightarrow> callback \<Rightarrow> timer_kind \<Rightarrow> u64 \<Rightarrow> u64 \<Rightarrow> scheduler \<Rightarrow> scheduler \<Rightarrow> bool" where
  "installed name cb k ms rep s s' \<longleftrightarrow> same_rest s s' \<and>
     us_timers s' = mput name (us_next s) (us_timers s) \<and> us_next s' = Suc (us_next s) \<and>
     us_counter s' = us_counter s \<and> lp_ready (us_loop s') = lp_ready (us_loop s) \<and>
     lp_counter (us_loop s') = lp_counter (us_loop s) + 1 \<and>
     map_of (us_ctx s') = (map_of (us_ctx s))(us_next s \<mapsto>
        \<lparr>cx_name = name, cx_callback = cb, cx_owner = True\<rparr>) \<and>
     map_of (lp_timers (us_loop s')) = (map_of (lp_timers (us_loop s)))(us_next s \<mapsto>
        \<lparr>tm_active = True, tm_closing = False, tm_cb = Some k,
         tm_timeout = clamp_timeout (lp_time (us_loop s)) ms, tm_repeat = rep,
         tm_start_id = lp_counter (us_loop s)\<rparr>)"

lemma remove_job_eq:
  assumes "sched_inv s"
  shows "\<exists>s'. remove_job name s = Inr s' \<and> sched_inv s' \<and> removed name s s'"
proof (cases "map_of (us_timers s) name")
  case None
  then have "merase name (us_timers s) = us_timers s"
    using assms std.erase_absent [of "us_timers s" name] by (simp add: sched_inv_def)
  with None assms show ?thesis by (auto simp: remove_job_def removed_def same_rest_def)
next
  case (Some h)
  obtain c t where c: "map_of (us_ctx s) h = Some c" "cx_name c = name" "cx_owner c"
    and t: "map_of (lp_timers (us_loop s)) h = Some t" "\<not> tm_closing t"
    using sched_inv_timer [OF assms Some] by blast
  let ?s = "s\<lparr>us_timers := merase name (us_timers s)\<rparr>"
  obtain lp where lp: "close_ctx h ?s =
      Inr (?s\<lparr>us_ctx := mput h (c\<lparr>cx_owner := False\<rparr>) (us_ctx s), us_loop := lp\<rparr>)"
    "loop_inv lp"
    "map_of (lp_timers lp) = (map_of (lp_timers (us_loop s)))(h \<mapsto> t\<lparr>tm_closing := True, tm_active := False\<rparr>)"
    "lp_ready lp = filter (\<lambda>x. x \<noteq> h) (lp_ready (us_loop s))" "lp_time lp = lp_time (us_loop s)"
    "lp_counter lp = lp_counter (us_loop s)"
    using close_ctx_eq [of ?s h c t] assms c(1) t by (auto simp: sched_inv_def)
  let ?s' = "?s\<lparr>us_ctx := mput h (c\<lparr>cx_owner := False\<rparr>) (us_ctx s), us_loop := lp\<rparr>"
  have "sched_inv ?s'"
  proof -
    have "map_of (us_timers s) n \<noteq> Some h" if "n \<noteq> name" for n
      using sched_inv_timer [OF assms, of n h] c that by (metis option.inject)
    moreover have "cx_name ca \<noteq> name"
      if "ha \<noteq> h" "map_of (us_ctx s) ha = Some ca" "map_of (lp_timers (us_loop s)) ha = Some ta"
        "\<not> tm_closing ta" for ha ca ta
    proof -
      have "map_of (us_timers s) (cx_name ca) = Some ha"
        using sched_inv_handle [OF assms that(2,3)] that(4) by simp
      with Some that(1) show ?thesis by auto
    qed
    moreover have "dom (map_of (us_ctx s)) = dom (map_of (lp_timers (us_loop s)))" "h < us_next s"
      using assms c(1) by (auto simp: sched_inv_def)
    ultimately show ?thesis
      using assms c t lp(2,3) unfolding sched_inv_def
      by (auto simp: domI split: if_splits)
  qed
  moreover have "filter (\<lambda>x. x \<noteq> h) (lp_ready (us_loop s)) =
      filter (\<lambda>x. map_of (us_timers s) name \<noteq> Some x) (lp_ready (us_loop s))"
    using Some by (auto intro: filter_cong)
  ultimately show ?thesis
    using lp Some c t
    by (intro exI [of _ ?s']) (auto simp: remove_job_def removed_def same_rest_def fun_eq_iff)
qed

text \<open>Installing a new context under a free name, and starting its timer.\<close>

lemma new_ctx_start:
  fixes cb :: callback
  assumes "sched_inv s" "map_of (us_timers s) name = None"
  defines "h \<equiv> us_next s"
  shows "\<exists>s'. (let (h, s2) = new_ctx name cb s in with_loop (uv_timer_start h k ms rep) s2) = Inr s' \<and>
           sched_inv s' \<and> installed name cb k ms rep s s'"
proof -
  let ?s = "snd (new_ctx name cb s)"
  have fresh: "map_of (us_ctx s) h = None" "map_of (lp_timers (us_loop s)) h = None"
  proof -
    show c: "map_of (us_ctx s) h = None"
      using assms(1) unfolding sched_inv_def h_def by (metis domIff less_irrefl)
    then show "map_of (lp_timers (us_loop s)) h = None"
      using assms(1) unfolding sched_inv_def by (metis domIff)
  qed
  have nr: "h \<notin> set (lp_ready (us_loop s))"
    using assms(1) fresh(2) by (auto simp: sched_inv_def loop_inv_def)
  have lp0: "loop_inv (uv_timer_init h (us_loop s))"
    by (rule uv_timer_init_eq [OF _ fresh(2)]) (use assms(1) in \<open>simp add: sched_inv_def\<close>)
  let ?t0 = "\<lparr>tm_active = False, tm_closing = False, tm_cb = None, tm_timeout = 0, tm_repeat = 0,
      tm_start_id = 0\<rparr> :: timer_kind uv_timer"
  have "map_of (lp_timers (uv_timer_init h (us_loop s))) h = Some ?t0" "\<not> tm_closing ?t0"
    by (simp_all add: uv_timer_init_def)
  from uv_timer_start_eq [OF lp0 this, of k ms rep] obtain lp where lp:
    "uv_timer_start h k ms rep (uv_timer_init h (us_loop s)) = Inr lp" "loop_inv lp"
    "map_of (lp_timers lp) = (map_of (lp_timers (uv_timer_init h (us_loop s))))(h \<mapsto>
       ?t0\<lparr>tm_active := True, tm_cb := Some k,
         tm_timeout := clamp_timeout (lp_time (uv_timer_init h (us_loop s))) ms,
         tm_repeat := rep, tm_start_id := lp_counter (uv_timer_init h (us_loop s))\<rparr>)"
    "lp_ready lp = filter (\<lambda>x. x \<noteq> h) (lp_ready (us_loop s))" "lp_closing lp = lp_closing (us_loop s)"
    "lp_time lp = lp_time (us_loop s)" "lp_counter lp = lp_counter (us_loop s) + 1"
    by (auto simp: uv_timer_init_def)
  let ?t = "?t0\<lparr>tm_active := True, tm_cb := Some k,
      tm_timeout := clamp_timeout (lp_time (us_loop s)) ms,
      tm_repeat := rep, tm_start_id := lp_counter (us_loop s)\<rparr>"
  have m: "map_of (lp_timers lp) = (map_of (lp_timers (us_loop s)))(h \<mapsto> ?t)"
    using lp(3) by (simp add: uv_timer_init_def)
  have r: "lp_ready lp = lp_ready (us_loop s)" using lp(4) nr by (auto simp: filter_id_conv)
  let ?s' = "?s\<lparr>us_loop := lp\<rparr>"
  have run: "(let (h, s2) = new_ctx name cb s in with_loop (uv_timer_start h k ms rep) s2) = Inr ?s'"
    using lp(1) by (simp add: new_ctx_def Let_def with_loop_def h_def)
  have "sched_inv ?s'"
  proof -
    have names: "map_of (us_timers s) n \<noteq> Some h" for n
      using sched_inv_timer [OF assms(1), of n h] fresh(1) by (metis option.distinct(1))
    have other: "cx_name ca \<noteq> name"
      if "map_of (us_ctx s) ha = Some ca" "map_of (lp_timers (us_loop s)) ha = Some ta"
        "\<not> tm_closing ta" for ha ca ta
      using sched_inv_handle [OF assms(1) that(1,2)] that(3) assms(2) by auto
    have below: "\<forall>x \<in> dom (map_of (us_ctx s)). x < us_next s" using assms(1) by (simp add: sched_inv_def)
    show ?thesis
      using assms(1) lp(2) m names other below fresh
      unfolding sched_inv_def new_ctx_def Let_def h_def
      by (auto simp: less_Suc_eq split: if_splits)
  qed
  with run m r lp(5-7) show ?thesis
    by (intro exI [of _ ?s']) (simp add: new_ctx_def Let_def h_def installed_def same_rest_def)
qed

lemma removed_free: "removed name s s1 \<Longrightarrow> map_of (us_timers s1) name = None"
  by (simp add: removed_def)

lemma add_job_eq:
  assumes "sched_inv s"
  shows "\<exists>s1 s'. add_job name ms cb s = Inr s' \<and> sched_inv s1 \<and> sched_inv s' \<and> removed name s s1 \<and>
           installed name cb TimerCb ms ms s1 s'"
proof -
  obtain s1 where s1: "remove_job name s = Inr s1" "sched_inv s1" "removed name s s1"
    using remove_job_eq [OF assms] by blast
  obtain s' where "(let (h, s2) = new_ctx name cb s1 in with_loop (uv_timer_start h TimerCb ms ms) s2) = Inr s'"
    "sched_inv s'" "installed name cb TimerCb ms ms s1 s'"
    using new_ctx_start [OF s1(2) removed_free [OF s1(3)]] by blast
  with s1 show ?thesis by (auto simp: add_job_def)
qed

lemma after_eq:
  assumes "sched_inv s"
  shows "\<exists>s1 s'. after ms cb s = Inr s' \<and> sched_inv s1 \<and> sched_inv s' \<and>
           removed (after_name (us_counter s + 1)) (s\<lparr>us_counter := us_counter s + 1\<rparr>) s1 \<and>
           installed (after_name (us_counter s + 1)) cb OneshotTimerCb ms 0 s1 s'"
proof -
  let ?s = "s\<lparr>us_counter := us_counter s + 1\<rparr>" and ?n = "after_name (us_counter s + 1)"
  have inv: "sched_inv ?s" using assms by simp
  obtain s1 where s1: "remove_job ?n ?s = Inr s1" "sched_inv s1" "removed ?n ?s s1"
    using remove_job_eq [OF inv] by blast
  obtain s' where "(let (h, s2) = new_ctx ?n cb s1 in with_loop (uv_timer_start h OneshotTimerCb ms 0) s2) = Inr s'"
    "sched_inv s'" "installed ?n cb OneshotTimerCb ms 0 s1 s'"
    using new_ctx_start [OF s1(2) removed_free [OF s1(3)]] by blast
  with s1 show ?thesis by (intro exI [of _ s1] exI [of _ s']) (simp add: after_def)
qed

text \<open>Adding a job under a name in use replaces the job: the old context closes.\<close>

lemma add_job_timers:
  assumes "sched_inv s" "add_job name ms cb s = Inr s'"
  shows "us_timers s' = mput name (us_next s) (us_timers s)"
    and "map_of (us_timers s) name = Some h \<Longrightarrow> map_of (lp_timers (us_loop s)) h = Some t \<Longrightarrow>
           map_of (lp_timers (us_loop s')) h = Some (t\<lparr>tm_closing := True, tm_active := False\<rparr>)"
proof -
  obtain s1 where s1: "removed name s s1" "installed name cb TimerCb ms ms s1 s'"
    using add_job_eq [OF assms(1), of name ms cb] assms(2) by auto
  have "mput name (us_next s) (merase name (us_timers s)) = mput name (us_next s) (us_timers s)"
    using assms(1) by (intro std.put_after_erase) (simp add: sched_inv_def)
  with s1 show "us_timers s' = mput name (us_next s) (us_timers s)"
    by (simp add: removed_def installed_def)
  assume h: "map_of (us_timers s) name = Some h" "map_of (lp_timers (us_loop s)) h = Some t"
  then obtain c where "map_of (us_ctx s) h = Some c"
    using assms(1) unfolding sched_inv_def by blast
  then have "h < us_next s" using assms(1) unfolding sched_inv_def by blast
  with s1 h show "map_of (lp_timers (us_loop s')) h = Some (t\<lparr>tm_closing := True, tm_active := False\<rparr>)"
    by (simp add: removed_def installed_def)
qed

lemma add_job_contract:
  assumes "sched_inv s"
  shows "\<exists>s'. add_job name ms cb s = Inr s' \<and> sched_inv s' \<and>
           us_timers s' = mput name (us_next s) (us_timers s) \<and>
           map_of (us_ctx s') (us_next s) = Some \<lparr>cx_name = name, cx_callback = cb, cx_owner = True\<rparr> \<and>
           map_of (lp_timers (us_loop s')) (us_next s) =
             Some \<lparr>tm_active = True, tm_closing = False, tm_cb = Some TimerCb,
               tm_timeout = clamp_timeout (lp_time (us_loop s)) ms, tm_repeat = ms,
               tm_start_id = lp_counter (us_loop s)\<rparr> \<and>
           (\<forall>h. map_of (us_timers s) name = Some h \<longrightarrow> h \<notin> set (lp_ready (us_loop s')) \<and>
              (\<exists>t. map_of (lp_timers (us_loop s')) h = Some t \<and> tm_closing t \<and> \<not> tm_active t)) \<and>
           (\<forall>h. h \<noteq> us_next s \<longrightarrow> map_of (us_timers s) name \<noteq> Some h \<longrightarrow>
              map_of (lp_timers (us_loop s')) h = map_of (lp_timers (us_loop s)) h \<and>
              map_of (us_ctx s') h = map_of (us_ctx s) h)"
proof -
  obtain s1 s' where s: "add_job name ms cb s = Inr s'" "sched_inv s'" "removed name s s1"
    "installed name cb TimerCb ms ms s1 s'"
    using add_job_eq [OF assms] by blast
  have ids: "us_next s1 = us_next s" "lp_time (us_loop s1) = lp_time (us_loop s)"
    "lp_counter (us_loop s1) = lp_counter (us_loop s)"
    using s(3) by (simp_all add: removed_def same_rest_def)
  have old: "h \<notin> set (lp_ready (us_loop s')) \<and>
      (\<exists>t. map_of (lp_timers (us_loop s')) h = Some t \<and> tm_closing t \<and> \<not> tm_active t)"
    if h: "map_of (us_timers s) name = Some h" for h
  proof -
    obtain t where "map_of (lp_timers (us_loop s)) h = Some t" using sched_inv_timer [OF assms h] by blast
    from add_job_timers(2) [OF assms s(1) h this] s(3,4) h show ?thesis
      by (auto simp: installed_def removed_def)
  qed
  show ?thesis
    by (intro exI [of _ s'])
      (use s ids old add_job_timers(1) [OF assms s(1)] in \<open>auto simp: installed_def removed_def\<close>)
qed

text \<open>Closing every context of a list of distinct ones that are open.\<close>

lemma close_all:
  assumes "loop_inv (us_loop s)" "distinct (map snd ms)"
    and "\<And>h. h \<in> snd ` set ms \<Longrightarrow>
        \<exists>c t. map_of (us_ctx s) h = Some c \<and> map_of (lp_timers (us_loop s)) h = Some t \<and> \<not> tm_closing t"
  shows "\<exists>s'. for_res (\<lambda>(name, h). close_ctx h) ms s = Inr s' \<and> loop_inv (us_loop s') \<and>
           map_of (us_ctx s') = (\<lambda>h. if h \<in> snd ` set ms
              then map_option (\<lambda>c. c\<lparr>cx_owner := False\<rparr>) (map_of (us_ctx s) h) else map_of (us_ctx s) h) \<and>
           map_of (lp_timers (us_loop s')) = (\<lambda>h. if h \<in> snd ` set ms
              then map_option (\<lambda>t. t\<lparr>tm_closing := True, tm_active := False\<rparr>) (map_of (lp_timers (us_loop s)) h)
              else map_of (lp_timers (us_loop s)) h) \<and>
           lp_closing (us_loop s') = rev (map snd ms) @ lp_closing (us_loop s) \<and>
           (msorted (us_ctx s) \<longrightarrow> msorted (us_ctx s')) \<and>
           us_timers s' = us_timers s \<and> us_next s' = us_next s \<and> us_async_inited s' = us_async_inited s \<and>
           us_counter s' = us_counter s \<and> same_rest s s'"
  using assms
proof (induction ms arbitrary: s)
  case Nil
  then show ?case by (auto simp: same_rest_def)
next
  case (Cons nh ms)
  obtain n h where nh: "nh = (n, h)" by (cases nh)
  obtain c t where c: "map_of (us_ctx s) h = Some c" "map_of (lp_timers (us_loop s)) h = Some t"
    "\<not> tm_closing t" using Cons.prems(3) [of h] nh by auto
  obtain lp where lp: "close_ctx h s = Inr (s\<lparr>us_ctx := mput h (c\<lparr>cx_owner := False\<rparr>) (us_ctx s), us_loop := lp\<rparr>)"
    "loop_inv lp"
    "map_of (lp_timers lp) = (map_of (lp_timers (us_loop s)))(h \<mapsto> t\<lparr>tm_closing := True, tm_active := False\<rparr>)"
    "lp_ready lp = filter (\<lambda>x. x \<noteq> h) (lp_ready (us_loop s))"
    "lp_closing lp = h # lp_closing (us_loop s)" "lp_time lp = lp_time (us_loop s)"
    using close_ctx_eq [OF Cons.prems(1) c] by blast
  let ?s = "s\<lparr>us_ctx := mput h (c\<lparr>cx_owner := False\<rparr>) (us_ctx s), us_loop := lp\<rparr>"
  have h: "h \<notin> snd ` set ms" using Cons.prems(2) nh by simp
  have open': "\<exists>c t. map_of (us_ctx ?s) h' = Some c \<and> map_of (lp_timers (us_loop ?s)) h' = Some t \<and> \<not> tm_closing t"
    if "h' \<in> snd ` set ms" for h'
    using Cons.prems(3) [of h'] that h lp(3) by auto
  have len: "length (filter (\<lambda>x. x \<noteq> h) (lp_ready (us_loop s))) \<le> length (lp_ready (us_loop s))" by simp
  have "loop_inv (us_loop ?s)" "distinct (map snd ms)" using lp(2) Cons.prems(2) by simp_all
  from Cons.IH [OF this open'] obtain s' where s':
    "for_res (\<lambda>(name, h). close_ctx h) ms ?s = Inr s'" "loop_inv (us_loop s')"
    "map_of (us_ctx s') = (\<lambda>h. if h \<in> snd ` set ms
        then map_option (\<lambda>c. c\<lparr>cx_owner := False\<rparr>) (map_of (us_ctx ?s) h) else map_of (us_ctx ?s) h)"
    "map_of (lp_timers (us_loop s')) = (\<lambda>h. if h \<in> snd ` set ms
        then map_option (\<lambda>t. t\<lparr>tm_closing := True, tm_active := False\<rparr>) (map_of (lp_timers (us_loop ?s)) h)
        else map_of (lp_timers (us_loop ?s)) h)"
    "lp_closing (us_loop s') = rev (map snd ms) @ lp_closing (us_loop ?s)"
    "msorted (us_ctx ?s) \<longrightarrow> msorted (us_ctx s')"
    "us_timers s' = us_timers ?s" "us_next s' = us_next ?s" "us_async_inited s' = us_async_inited ?s"
    "us_counter s' = us_counter ?s" "same_rest ?s s'"
    by blast
  have rest: "same_rest s s'" using s'(11) lp(4,6) by (auto simp: same_rest_def intro: order_trans [OF _ len])
  show ?case
    by (intro exI [of _ s'])
      (use s' lp c h nh rest in \<open>auto simp: fun_eq_iff\<close>)
qed

text \<open>\<open>stop()\<close> closes every context and the async handle; only memory to be freed is left.\<close>

lemma sched_stop_eq:
  assumes "sched_inv s" "us_started s"
  shows "\<exists>s'. sched_stop s = Inr s' \<and> sched_inv s' \<and> us_timers s' = [] \<and> \<not> us_started s' \<and>
           us_async s' = AClosing \<and> active_set (us_loop s') = {} \<and>
           (\<forall>h t. map_of (lp_timers (us_loop s')) h = Some t \<longrightarrow> tm_closing t) \<and>
           us_post_queue s' = us_post_queue s \<and> us_log s' = us_log s \<and> us_done s' = us_done s \<and>
           us_work s' = us_work s \<and> us_counter s' = us_counter s \<and>
           (\<forall>h. map_option cx_callback (map_of (us_ctx s') h) = map_option cx_callback (map_of (us_ctx s) h)) \<and>
           length (lp_ready (us_loop s')) \<le> length (lp_ready (us_loop s))"
proof -
  let ?s0 = "s\<lparr>us_started := False\<rparr>"
  have sorted: "msorted (us_timers s)" using assms(1) by (simp add: sched_inv_def)
  have dist: "distinct (map snd (us_timers s))"
  proof -
    have "n = n'" if "(n, h) \<in> set (us_timers s)" "(n', h) \<in> set (us_timers s)" for n n' h
    proof -
      have "map_of (us_timers s) n = Some h" "map_of (us_timers s) n' = Some h"
        using that map_of_Some_iff_set [OF sorted] by simp_all
      then show ?thesis using assms(1) unfolding sched_inv_def by (metis option.inject)
    qed
    then have "inj_on snd (set (us_timers s))" by (auto simp: inj_on_def)
    moreover have "distinct (us_timers s)"
      using msorted_distinct [OF sorted] by (simp add: distinct_map)
    ultimately show ?thesis by (simp add: distinct_map)
  qed
  have "\<exists>c t. map_of (us_ctx ?s0) h = Some c \<and> map_of (lp_timers (us_loop ?s0)) h = Some t \<and> \<not> tm_closing t"
    if "h \<in> snd ` set (us_timers s)" for h
  proof -
    from that obtain n where "map_of (us_timers s) n = Some h"
      using map_of_Some_iff_set [OF sorted] by force
    from sched_inv_timer [OF assms(1) this] show ?thesis by auto
  qed
  moreover have "loop_inv (us_loop ?s0)" "msorted (us_ctx ?s0)" using assms(1) by (simp_all add: sched_inv_def)
  ultimately obtain s1 where s0:
    "for_res (\<lambda>(name, h). close_ctx h) (us_timers s) ?s0 = Inr s1" "loop_inv (us_loop s1)"
    "map_of (us_ctx s1) = (\<lambda>h. if h \<in> snd ` set (us_timers s)
        then map_option (\<lambda>c. c\<lparr>cx_owner := False\<rparr>) (map_of (us_ctx ?s0) h) else map_of (us_ctx ?s0) h)"
    "map_of (lp_timers (us_loop s1)) = (\<lambda>h. if h \<in> snd ` set (us_timers s)
        then map_option (\<lambda>t. t\<lparr>tm_closing := True, tm_active := False\<rparr>) (map_of (lp_timers (us_loop ?s0)) h)
        else map_of (lp_timers (us_loop ?s0)) h)"
    "msorted (us_ctx s1)" "us_timers s1 = us_timers ?s0" "us_next s1 = us_next ?s0"
    "us_async_inited s1 = us_async_inited ?s0" "us_counter s1 = us_counter ?s0" "same_rest ?s0 s1"
    using close_all [OF _ dist, of ?s0] by blast
  have upd: "us_ctx ?s0 = us_ctx s" "us_loop ?s0 = us_loop s" "us_timers ?s0 = us_timers s"
    "us_next ?s0 = us_next s" "us_async_inited ?s0 = us_async_inited s" "us_counter ?s0 = us_counter s"
    by simp_all
  note s1 = s0 [unfolded upd]
  have live: "us_async_inited s" "\<exists>p. us_async s = ALive p" using assms by (auto simp: sched_inv_def)
  let ?s' = "s1\<lparr>us_timers := [], us_async := AClosing, us_async_inited := False\<rparr>"
  have stop: "sched_stop s = Inr ?s'"
    using assms(2) s1 live by (auto simp: sched_stop_def Let_def same_rest_def)
  have closing: "tm_closing t" if "map_of (lp_timers (us_loop s1)) h = Some t" for h t
  proof (cases "h \<in> snd ` set (us_timers s)")
    case True
    with that s1(4) show ?thesis by auto
  next
    case False
    with that s1(4) have t: "map_of (lp_timers (us_loop s)) h = Some t" by auto
    then obtain c where c: "map_of (us_ctx s) h = Some c"
      using assms(1) unfolding sched_inv_def by blast
    show ?thesis
    proof (rule ccontr)
      assume "\<not> tm_closing t"
      then have "map_of (us_timers s) (cx_name c) = Some h"
        using sched_inv_handle [OF assms(1) c t] by simp
      with False map_of_SomeD show False by force
    qed
  qed
  have "sched_inv ?s'"
  proof -
    have "dom (map_of (us_ctx s1)) = dom (map_of (us_ctx s))"
      "dom (map_of (lp_timers (us_loop s1))) = dom (map_of (lp_timers (us_loop s)))"
      unfolding s1(3,4) by (auto simp: dom_def split: if_splits)
    then show ?thesis
      using assms s1(2,5,7,10) closing by (auto simp: sched_inv_def same_rest_def)
  qed
  moreover have "active_set (us_loop ?s') = {}"
    using closing s1(2) by (auto simp: active_set_def loop_inv_def)
  moreover have "map_option cx_callback (map_of (us_ctx ?s') h) = map_option cx_callback (map_of (us_ctx s) h)" for h
    by (simp add: s1(3) option.map_comp comp_def)
  ultimately show ?thesis
    using stop closing s1(9,10) by (intro exI [of _ ?s']) (auto simp: same_rest_def)
qed

subsection \<open>What callbacks do, in order\<close>

text \<open>The events and the posts of a body: what comes before its first exception.\<close>

fun cmds_emits :: "cmd list \<Rightarrow> nat list" where
  "cmds_emits [] = []"
| "cmds_emits (Emit n # cs) = n # cmds_emits cs"
| "cmds_emits (Throw # cs) = []"
| "cmds_emits (c # cs) = cmds_emits cs"

fun cmds_posts :: "cmd list \<Rightarrow> callback list" where
  "cmds_posts [] = []"
| "cmds_posts (Post cb # cs) = cb # cmds_posts cs"
| "cmds_posts (Throw # cs) = []"
| "cmds_posts (c # cs) = cmds_posts cs"

definition cb_emits :: "callback \<Rightarrow> nat list" where
  "cb_emits cb = (case cb of None \<Rightarrow> [] | Some cs \<Rightarrow> cmds_emits cs)"

definition cb_posts :: "callback \<Rightarrow> callback list" where
  "cb_posts cb = (case cb of None \<Rightarrow> [] | Some cs \<Rightarrow> cmds_posts cs)"

lemma with_loop_keeps:
  "with_loop f s = Inr s' \<Longrightarrow> us_log s' = us_log s \<and> us_post_queue s' = us_post_queue s"
  by (auto simp: with_loop_def bind_res_Inr_iff)

lemma close_ctx_keeps:
  "close_ctx h s = Inr s' \<Longrightarrow> us_log s' = us_log s \<and> us_post_queue s' = us_post_queue s"
  by (auto simp: close_ctx_def bind_res_Inr_iff dest!: with_loop_keeps)

lemma remove_job_keeps:
  "remove_job name s = Inr s' \<Longrightarrow> us_log s' = us_log s \<and> us_post_queue s' = us_post_queue s"
  by (auto simp: remove_job_def dest!: close_ctx_keeps split: option.splits)

lemma close_all_keeps:
  "for_res (\<lambda>(name, h). close_ctx h) ms s = Inr s' \<Longrightarrow>
     us_log s' = us_log s \<and> us_post_queue s' = us_post_queue s"
  by (induction ms arbitrary: s) (auto simp: bind_res_Inr_iff dest!: close_ctx_keeps)

lemma sched_stop_keeps:
  "sched_stop s = Inr s' \<Longrightarrow> us_log s' = us_log s \<and> us_post_queue s' = us_post_queue s"
  by (auto simp: sched_stop_def Let_def bind_res_Inr_iff dest!: close_all_keeps
      split: if_splits async_handle.splits)

lemma exec_cmd_keeps:
  "exec_cmd c s = Inr s' \<Longrightarrow>
     us_log s' = us_log s @ (case c of Emit n \<Rightarrow> [n] | _ \<Rightarrow> []) \<and>
     us_post_queue s' = us_post_queue s @ (case c of Post cb \<Rightarrow> [cb] | _ \<Rightarrow> [])"
  by (cases c)
    (auto simp: post_def uv_async_send_def add_job_def after_def new_ctx_def Let_def run_blocking_def
      sched_start_def bind_res_Inr_iff
      dest!: remove_job_keeps with_loop_keeps sched_stop_keeps split: async_handle.splits if_splits)

lemma exec_cmds_keeps:
  "exec_cmds cs s = Inr s' \<Longrightarrow>
     us_log s' = us_log s @ cmds_emits cs \<and> us_post_queue s' = us_post_queue s @ cmds_posts cs"
proof (induction cs arbitrary: s)
  case (Cons c cs)
  show ?case
  proof (cases "c = Throw")
    case True
    with Cons.prems show ?thesis by simp
  next
    case False
    with Cons.prems obtain s1 where "exec_cmd c s = Inr s1" "exec_cmds cs s1 = Inr s'"
      by (auto simp: bind_res_Inr_iff)
    with Cons.IH [of s1] exec_cmd_keeps [of c s s1] False show ?thesis by (cases c) auto
  qed
qed simp

lemma run_cb_keeps:
  "run_cb cb s = Inr s' \<Longrightarrow>
     us_log s' = us_log s @ cb_emits cb \<and> us_post_queue s' = us_post_queue s @ cb_posts cb"
  by (auto simp: run_cb_def cb_emits_def cb_posts_def dest: exec_cmds_keeps split: option.splits)

lemma run_cbs_keeps:
  "for_res run_cb cbs s = Inr s' \<Longrightarrow>
     us_log s' = us_log s @ concat (map cb_emits cbs) \<and>
     us_post_queue s' = us_post_queue s @ concat (map cb_posts cbs)"
  by (induction cbs arbitrary: s) (auto simp: bind_res_Inr_iff dest!: run_cb_keeps)

text \<open>
  Draining runs every callback that was queued, once, in the order of posting, whatever the others
  throw; what they post is left for the next wake-up.
\<close>

lemma drain_fifo:
  "drain_post_queue s = Inr s' \<Longrightarrow>
     us_log s' = us_log s @ concat (map cb_emits (us_post_queue s)) \<and>
     us_post_queue s' = concat (map cb_posts (us_post_queue s))"
  by (auto simp: drain_post_queue_def dest!: run_cbs_keeps)

end
