(* ===== verification/Scheduler_Safety.thy ===== *)
theory Scheduler_Safety
  imports Uv_Scheduler
begin

text \<open>
  No undefined behaviour in the event loop. Callbacks are disciplined (\<open>cmd_ok\<close>): they do not start
  or stop the scheduler, do not use the names of one-shot timers (those that begin with \<open>_a_\<close>), and
  work for the thread pool only posts. Then every iteration of the loop succeeds and keeps the
  invariant \<open>safe\<close>: ownership of the contexts, no reused one-shot name, and a pending wake-up
  whenever something is queued. The 32-bit counter of \<open>after\<close> must not have wrapped around; \<open>budget\<close>
  bounds how far the stored callbacks can still advance it.
\<close>

subsection \<open>Disciplined callbacks\<close>

definition cb_all :: "(cmd \<Rightarrow> bool) \<Rightarrow> callback \<Rightarrow> bool" where
  "cb_all P cb = (case cb of None \<Rightarrow> True | Some cs \<Rightarrow> list_all P cs)"

definition cb_sum :: "(cmd \<Rightarrow> nat) \<Rightarrow> callback \<Rightarrow> nat" where
  "cb_sum f cb = (case cb of None \<Rightarrow> 0 | Some cs \<Rightarrow> sum_list (map f cs))"

lemma cb_all_cong [fundef_cong]:
  "cb = cb' \<Longrightarrow> (\<And>cs c. cb' = Some cs \<Longrightarrow> c \<in> set cs \<Longrightarrow> P c = Q c) \<Longrightarrow> cb_all P cb = cb_all Q cb'"
  by (auto simp: cb_all_def list_all_iff split: option.split)

lemma cb_sum_cong [fundef_cong]:
  "cb = cb' \<Longrightarrow> (\<And>cs c. cb' = Some cs \<Longrightarrow> c \<in> set cs \<Longrightarrow> f c = g c) \<Longrightarrow> cb_sum f cb = cb_sum g cb'"
  by (auto simp: cb_sum_def split: option.split intro!: arg_cong [of _ _ sum_list])

lemma cb_simps [simp]:
  "cb_all P None" "cb_all P (Some cs) = list_all P cs"
  "cb_sum f None = 0" "cb_sum f (Some cs) = sum_list (map f cs)"
  by (simp_all add: cb_all_def cb_sum_def)

definition reserved :: "string \<Rightarrow> bool" where
  "reserved name \<longleftrightarrow> starts_with ''_a_'' name"

fun worker_cmd :: "cmd \<Rightarrow> bool" where
  "worker_cmd (Emit n) = True"
| "worker_cmd Throw = True"
| "worker_cmd (Post cb) = True"
| "worker_cmd _ = False"

fun cmd_ok :: "cmd \<Rightarrow> bool" where
  "cmd_ok (Emit n) = True"
| "cmd_ok Throw = True"
| "cmd_ok (Post cb) = cb_all cmd_ok cb"
| "cmd_ok (AddJob name ms cb) = (\<not> reserved name \<and> cb_all cmd_ok cb)"
| "cmd_ok (RemoveJob name) = (\<not> reserved name)"
| "cmd_ok (After ms cb) = cb_all cmd_ok cb"
| "cmd_ok (RunBlocking w d) = (cb_all worker_cmd w \<and> cb_all cmd_ok w \<and> cb_all cmd_ok d)"
| "cmd_ok Start = False"
| "cmd_ok Stop = False"

text \<open>How many one-shot timers a command can create, itself and through what it stores.\<close>

fun cmd_afters :: "cmd \<Rightarrow> nat" where
  "cmd_afters (Post cb) = cb_sum cmd_afters cb"
| "cmd_afters (AddJob name ms cb) = cb_sum cmd_afters cb"
| "cmd_afters (After ms cb) = Suc (cb_sum cmd_afters cb)"
| "cmd_afters (RunBlocking w d) = cb_sum cmd_afters w + cb_sum cmd_afters d"
| "cmd_afters _ = 0"

abbreviation cb_ok :: "callback \<Rightarrow> bool" where
  "cb_ok \<equiv> cb_all cmd_ok"

abbreviation cb_afters :: "callback \<Rightarrow> nat" where
  "cb_afters \<equiv> cb_sum cmd_afters"

definition ctx_afters :: "scheduler \<Rightarrow> nat set \<Rightarrow> nat" where
  "ctx_afters s hs = (\<Sum>h \<in> hs. cb_afters (cx_callback (the (map_of (us_ctx s) h))))"

definition budget :: "scheduler \<Rightarrow> nat" where
  "budget s = unat (us_counter s) + sum_list (map cb_afters (us_post_queue s)) +
     sum_list (map cb_afters (us_done s)) +
     sum_list (map (\<lambda>(w, d). cb_afters w + cb_afters d) (us_work s)) +
     ctx_afters s (dom (map_of (us_ctx s)))"

subsection \<open>The invariant\<close>

definition names_ok :: "scheduler \<Rightarrow> bool" where
  "names_ok s \<longleftrightarrow> (\<forall>n \<in> dom (map_of (us_timers s)). reserved n \<longrightarrow>
     (\<exists>k. 0 < k \<and> k \<le> unat (us_counter s) \<and> n = after_name (word_of_nat k)))"

definition kinds_ok :: "scheduler \<Rightarrow> bool" where
  "kinds_ok s \<longleftrightarrow> (\<forall>h c t. map_of (us_ctx s) h = Some c \<longrightarrow>
     map_of (lp_timers (us_loop s)) h = Some t \<longrightarrow> \<not> tm_closing t \<longrightarrow>
     tm_cb t = Some OneshotTimerCb \<longrightarrow> reserved (cx_name c) \<and> tm_repeat t = 0)"

definition stored_ok :: "scheduler \<Rightarrow> bool" where
  "stored_ok s \<longleftrightarrow> list_all cb_ok (us_post_queue s) \<and> list_all cb_ok (us_done s) \<and>
     list_all (\<lambda>(w, d). cb_all worker_cmd w \<and> cb_ok w \<and> cb_ok d) (us_work s) \<and>
     (\<forall>h c. map_of (us_ctx s) h = Some c \<longrightarrow> cb_ok (cx_callback c))"

text \<open>Something queued means that the loop will wake up, unless the handle is closed.\<close>

definition wake_ok :: "scheduler \<Rightarrow> bool" where
  "wake_ok s \<longleftrightarrow> us_async s \<noteq> AUninit \<and> (us_post_queue s \<noteq> [] \<longrightarrow> us_async s \<noteq> ALive False)"

definition safe :: "scheduler \<Rightarrow> bool" where
  "safe s \<longleftrightarrow> sched_inv s \<and> names_ok s \<and> kinds_ok s \<and> stored_ok s \<and> wake_ok s"

text \<open>
  What running a disciplined body guarantees: one-shot contexts that are open stay as they are, no
  context goes away or changes its callback, and the ready queue only shrinks.
\<close>

definition keeps :: "scheduler \<Rightarrow> scheduler \<Rightarrow> bool" where
  "keeps s s' \<longleftrightarrow>
     (\<forall>h c t. map_of (us_ctx s) h = Some c \<longrightarrow> map_of (lp_timers (us_loop s)) h = Some t \<longrightarrow>
        \<not> tm_closing t \<longrightarrow> reserved (cx_name c) \<longrightarrow>
        map_of (us_ctx s') h = Some c \<and> map_of (lp_timers (us_loop s')) h = Some t) \<and>
     (\<forall>h c. map_of (us_ctx s) h = Some c \<longrightarrow>
        (\<exists>c'. map_of (us_ctx s') h = Some c' \<and> cx_callback c' = cx_callback c)) \<and>
     set (lp_ready (us_loop s')) \<subseteq> set (lp_ready (us_loop s)) \<and>
     length (lp_ready (us_loop s')) \<le> length (lp_ready (us_loop s))"

definition ok_after :: "nat \<Rightarrow> scheduler \<Rightarrow> scheduler \<Rightarrow> bool" where
  "ok_after n s s' \<longleftrightarrow> safe s' \<and> budget s' \<le> budget s + n \<and> keeps s s'"

lemma keeps_refl [simp]: "keeps s s"
  by (simp add: keeps_def)

lemma keeps_trans: "keeps s s1 \<Longrightarrow> keeps s1 s2 \<Longrightarrow> keeps s s2"
proof -
  assume k: "keeps s s1" "keeps s1 s2"
  have "\<exists>c'. map_of (us_ctx s2) h = Some c' \<and> cx_callback c' = cx_callback c"
    if "map_of (us_ctx s) h = Some c" for h c
    using k that unfolding keeps_def by metis
  with k show ?thesis unfolding keeps_def by (simp add: subset_trans [of _ "set (lp_ready (us_loop s1))"])
qed

lemma ok_after_trans: "ok_after n s s1 \<Longrightarrow> ok_after m s1 s2 \<Longrightarrow> ok_after (n + m) s s2"
  using keeps_trans by (force simp: ok_after_def)

lemma ok_after_mono: "ok_after n s s' \<Longrightarrow> n \<le> m \<Longrightarrow> ok_after m s s'"
  by (auto simp: ok_after_def)

subsection \<open>Removing and installing\<close>

lemma removed_ok:
  assumes "safe s" "sched_inv s'" "removed name s s'" "\<not> reserved name"
  shows "ok_after 0 s s'"
proof -
  have dom: "dom (map_of (us_ctx s')) = dom (map_of (us_ctx s))"
    using assms(3) by (auto simp: removed_def dom_def split: if_splits)
  have cb: "map_of (us_ctx s) h = Some c \<Longrightarrow>
      \<exists>c'. map_of (us_ctx s') h = Some c' \<and> cx_callback c' = cx_callback c" for h c
    using assms(3) by (auto simp: removed_def)
  have "ctx_afters s' (dom (map_of (us_ctx s'))) = ctx_afters s (dom (map_of (us_ctx s)))"
    unfolding ctx_afters_def dom by (intro sum.cong) (use cb in fastforce)+
  then have b: "budget s' = budget s"
    using assms(3) by (simp add: budget_def removed_def same_rest_def)
  have "names_ok s'"
    using assms(1,3) by (auto simp: safe_def names_ok_def removed_def)
  moreover have "kinds_ok s'"
    using assms(1,3) unfolding safe_def kinds_ok_def removed_def by (auto split: if_splits)
  moreover have "stored_ok s'"
    using assms(1,3) unfolding safe_def stored_ok_def removed_def same_rest_def
    by (auto split: if_splits)
  moreover have "wake_ok s'"
    using assms(1,3) by (simp add: safe_def wake_ok_def removed_def same_rest_def)
  moreover have "keeps s s'"
  proof -
    have "map_of (us_timers s) name \<noteq> Some h"
      if "map_of (us_ctx s) h = Some c" "reserved (cx_name c)" for h c
      using that sched_inv_timer [of s name h] assms(1,4) by (fastforce simp: safe_def)
    with assms(3) cb show ?thesis by (auto simp: keeps_def removed_def same_rest_def)
  qed
  ultimately show ?thesis using assms(2) b by (simp add: ok_after_def safe_def)
qed

lemma installed_ok:
  assumes "safe s" "sched_inv s'" "installed name cb k ms rep s s'" "cb_ok cb"
    and "reserved name \<Longrightarrow> \<exists>k. 0 < k \<and> k \<le> unat (us_counter s) \<and> name = after_name (word_of_nat k)"
    and "k = OneshotTimerCb \<Longrightarrow> reserved name \<and> rep = 0"
  shows "ok_after (cb_afters cb) s s'"
proof -
  have fresh: "us_next s \<notin> dom (map_of (us_ctx s))"
    using assms(1) unfolding safe_def sched_inv_def by blast
  then have fresh': "map_of (us_ctx s) (us_next s) = None" by auto
  have "ctx_afters s' (dom (map_of (us_ctx s'))) =
      ctx_afters s (dom (map_of (us_ctx s))) + cb_afters cb"
  proof -
    have "dom (map_of (us_ctx s')) = insert (us_next s) (dom (map_of (us_ctx s)))"
      using assms(3) by (auto simp: installed_def)
    then have "ctx_afters s' (dom (map_of (us_ctx s'))) =
        cb_afters cb + ctx_afters s' (dom (map_of (us_ctx s)))"
      using fresh assms(3) finite_dom_map_of [of "us_ctx s"]
      by (simp add: ctx_afters_def installed_def)
    moreover have "ctx_afters s' (dom (map_of (us_ctx s))) = ctx_afters s (dom (map_of (us_ctx s)))"
      unfolding ctx_afters_def using fresh assms(3) by (intro sum.cong) (auto simp: installed_def)
    ultimately show ?thesis by simp
  qed
  then have b: "budget s' = budget s + cb_afters cb"
    using assms(3) by (simp add: budget_def installed_def same_rest_def)
  have "names_ok s'"
    using assms(1,3,5) by (auto simp: safe_def names_ok_def installed_def)
  moreover have "kinds_ok s'"
    using assms(1,3,6) unfolding safe_def kinds_ok_def installed_def by (auto split: if_splits)
  moreover have "stored_ok s'"
    using assms(1,3,4) unfolding safe_def stored_ok_def installed_def same_rest_def
    by (auto split: if_splits)
  moreover have "wake_ok s'"
    using assms(1,3) by (simp add: safe_def wake_ok_def installed_def same_rest_def)
  moreover have "keeps s s'"
    using assms(3) fresh' by (auto simp: keeps_def installed_def same_rest_def)
  ultimately show ?thesis using assms(2) b by (simp add: ok_after_def safe_def)
qed

lemma after_name_reserved [simp]: "reserved (after_name k)"
  by (simp add: reserved_def after_name_def)

lemma after_name_inject [simp]: "after_name j = after_name k \<longleftrightarrow> j = k"
  by (auto simp: after_name_def dest: arg_cong [of _ _ "word_of_int :: int \<Rightarrow> int32"])

lemma after_name_fresh:
  assumes "safe s" "unat (us_counter s) + 1 < 2 ^ 32"
  shows "map_of (us_timers s) (after_name (us_counter s + 1)) = None"
proof (rule ccontr)
  assume "map_of (us_timers s) (after_name (us_counter s + 1)) \<noteq> None"
  then have "after_name (us_counter s + 1) \<in> dom (map_of (us_timers s))" by auto
  with assms(1) obtain k where k: "k \<le> unat (us_counter s)"
    "after_name (us_counter s + 1) = after_name (word_of_nat k)"
    unfolding safe_def names_ok_def using after_name_reserved by blast
  have "unat (us_counter s + 1) = unat (us_counter s) + 1"
    using assms(2) by (simp add: unat_word_ariths)
  moreover have "unat (word_of_nat k :: int32) = k"
    using k(1) assms(2) by (simp add: unat_of_nat take_bit_nat_eq_self)
  ultimately show False using k by simp
qed

subsection \<open>Commands and bodies\<close>

lemma ok_after_state:
  assumes "safe s" "sched_inv s'" "us_timers s' = us_timers s" "us_ctx s' = us_ctx s"
    "us_loop s' = us_loop s" "us_counter s' = us_counter s" "stored_ok s'" "wake_ok s'"
    and "budget s' \<le> budget s + n"
  shows "ok_after n s s'"
  using assms by (auto simp: ok_after_def safe_def names_ok_def kinds_ok_def keeps_def)

lemma post_ok:
  assumes "safe s" "cb_ok cb"
  shows "\<exists>s'. post cb s = Inr s' \<and> ok_after (cb_afters cb) s s' \<and> us_started s' = us_started s"
proof -
  have w: "us_async s \<noteq> AUninit" using assms(1) by (simp add: safe_def wake_ok_def)
  then obtain s' where s': "post cb s = Inr s'" "us_post_queue s' = us_post_queue s @ [cb]"
    "us_async s' = (case us_async s of ALive p \<Rightarrow> ALive True | a \<Rightarrow> a)"
    "us_timers s' = us_timers s" "us_ctx s' = us_ctx s" "us_loop s' = us_loop s"
    "us_counter s' = us_counter s" "us_started s' = us_started s" "us_done s' = us_done s"
    "us_work s' = us_work s" "us_next s' = us_next s" "us_async_inited s' = us_async_inited s"
    by (cases "us_async s") (auto simp: post_def uv_async_send_def)
  have "sched_inv s'"
    using assms(1) s' unfolding safe_def sched_inv_def by (auto split: async_handle.splits)
  moreover have "stored_ok s'"
    using assms s' by (auto simp: safe_def stored_ok_def)
  moreover have "wake_ok s'"
    using w s' by (auto simp: wake_ok_def split: async_handle.splits)
  moreover have "budget s' \<le> budget s + cb_afters cb" using s' by (simp add: budget_def ctx_afters_def)
  ultimately show ?thesis using s' ok_after_state [OF assms(1), of s'] by blast
qed

lemma exec_cmd_ok:
  assumes "safe s" "cmd_ok c" "budget s + cmd_afters c < 2 ^ 32"
  shows "\<exists>s'. exec_cmd c s = Inr s' \<and> ok_after (cmd_afters c) s s'"
proof (cases c)
  case (Emit n)
  have "ok_after 0 s (s\<lparr>us_log := us_log s @ [n]\<rparr>)"
    by (rule ok_after_state [OF assms(1)])
      (use assms(1) in \<open>simp_all add: safe_def stored_ok_def wake_ok_def budget_def ctx_afters_def\<close>)
  with Emit show ?thesis by simp
next
  case Throw
  with assms(1) show ?thesis by (simp add: ok_after_def)
next
  case (Post cb)
  with assms post_ok [OF assms(1), of cb] show ?thesis by auto
next
  case (AddJob name ms cb)
  obtain s1 s' where s: "add_job name ms cb s = Inr s'" "sched_inv s1" "sched_inv s'"
    "removed name s s1" "installed name cb TimerCb ms ms s1 s'"
    using add_job_eq [of s name ms cb] assms(1) by (auto simp: safe_def)
  have nr: "\<not> reserved name" "cb_ok cb" using assms(2) AddJob by simp_all
  have r: "ok_after 0 s s1" by (rule removed_ok [OF assms(1) s(2,4) nr(1)])
  then have "ok_after (cb_afters cb) s1 s'"
    using installed_ok [of s1 s' name cb TimerCb ms ms] s nr by (simp add: ok_after_def)
  from ok_after_trans [OF r this] s(1) AddJob show ?thesis by simp
next
  case (RemoveJob name)
  with assms obtain s' where "remove_job name s = Inr s'" "sched_inv s'" "removed name s s'"
    using remove_job_eq [of s name] by (auto simp: safe_def)
  with removed_ok [OF assms(1)] RemoveJob assms(2) show ?thesis by auto
next
  case (After ms cb)
  let ?n = "after_name (us_counter s + 1)" and ?s = "s\<lparr>us_counter := us_counter s + 1\<rparr>"
  have small: "unat (us_counter s) + 1 < 2 ^ 32"
    using assms(3) After by (simp add: budget_def)
  then have c: "unat (us_counter s + 1) = unat (us_counter s) + 1" by (simp add: unat_word_ariths)
  have safe': "safe ?s"
  proof -
    have "names_ok ?s"
      unfolding names_ok_def
    proof (intro ballI impI)
      fix n
      assume "n \<in> dom (map_of (us_timers ?s))" "reserved n"
      then obtain k where "0 < k" "k \<le> unat (us_counter s)" "n = after_name (word_of_nat k)"
        using assms(1) unfolding safe_def names_ok_def by auto
      with c show "\<exists>k. 0 < k \<and> k \<le> unat (us_counter ?s) \<and> n = after_name (word_of_nat k)"
        by (intro exI [of _ k]) simp
    qed
    with assms(1) show ?thesis by (simp add: safe_def kinds_ok_def stored_ok_def wake_ok_def)
  qed
  have k0: "ok_after 1 s ?s"
    using safe' c by (simp add: ok_after_def budget_def ctx_afters_def keeps_def)
  obtain s1 s' where s: "after ms cb s = Inr s'" "sched_inv s1" "sched_inv s'"
    "removed ?n ?s s1" "installed ?n cb OneshotTimerCb ms 0 s1 s'"
    using after_eq [of s ms cb] assms(1) unfolding safe_def by blast
  have free: "map_of (us_timers s) ?n = None" by (rule after_name_fresh [OF assms(1) small])
  have sorted: "msorted (us_timers s)" using assms(1) by (simp add: safe_def sched_inv_def)
  have same: "us_timers s1 = us_timers ?s" "map_of (us_ctx s1) = map_of (us_ctx ?s)"
    "map_of (lp_timers (us_loop s1)) = map_of (lp_timers (us_loop ?s))"
    "lp_ready (us_loop s1) = lp_ready (us_loop ?s)" "us_counter s1 = us_counter ?s"
    "same_rest ?s s1"
    using s(4) free std.erase_absent [OF sorted free] by (simp_all add: removed_def)
  have r: "ok_after 0 ?s s1"
    using same safe' s(2)
    by (auto simp: ok_after_def safe_def names_ok_def kinds_ok_def stored_ok_def wake_ok_def
        keeps_def budget_def ctx_afters_def same_rest_def)
  have "\<exists>k. 0 < k \<and> k \<le> unat (us_counter s1) \<and> ?n = after_name (word_of_nat k)"
    using same(5) c by (intro exI [of _ "unat (us_counter s + 1)"]) simp
  then have "ok_after (cb_afters cb) s1 s'"
    using installed_ok [of s1 s' ?n cb OneshotTimerCb ms 0] s(3,5) r assms(2) After
    by (simp add: ok_after_def)
  from ok_after_trans [OF ok_after_trans [OF k0 r] this] s(1) After show ?thesis by simp
next
  case (RunBlocking w d)
  have "ok_after (cmd_afters c) s (run_blocking w d s)"
    by (rule ok_after_state [OF assms(1)])
      (use assms RunBlocking in \<open>simp_all add: run_blocking_def safe_def stored_ok_def wake_ok_def
          budget_def ctx_afters_def\<close>)
  with RunBlocking show ?thesis by simp
qed (use assms(2) in simp_all)

lemma exec_cmds_ok:
  assumes "safe s" "list_all cmd_ok cs" "budget s + sum_list (map cmd_afters cs) < 2 ^ 32"
  shows "\<exists>s'. exec_cmds cs s = Inr s' \<and> ok_after (sum_list (map cmd_afters cs)) s s'"
  using assms
proof (induction cs arbitrary: s)
  case Nil
  then show ?case by (simp add: ok_after_def)
next
  case (Cons c cs)
  show ?case
  proof (cases "c = Throw")
    case True
    with Cons.prems show ?thesis by (simp add: ok_after_def)
  next
    case False
    obtain s1 where s1: "exec_cmd c s = Inr s1" "ok_after (cmd_afters c) s s1"
      using exec_cmd_ok [of s c] Cons.prems by auto
    then obtain s' where s': "exec_cmds cs s1 = Inr s'" "ok_after (sum_list (map cmd_afters cs)) s1 s'"
      using Cons.IH [of s1] Cons.prems by (auto simp: ok_after_def)
    from ok_after_trans [OF s1(2) s'(2)] s1(1) s'(1) False show ?thesis by simp
  qed
qed

lemma run_cb_ok:
  assumes "safe s" "cb_ok cb" "budget s + cb_afters cb < 2 ^ 32"
  shows "\<exists>s'. run_cb cb s = Inr s' \<and> ok_after (cb_afters cb) s s'"
  using assms exec_cmds_ok [of s] by (cases cb) (auto simp: run_cb_def ok_after_def)

lemma run_cbs_ok:
  assumes "safe s" "list_all cb_ok cbs" "budget s + sum_list (map cb_afters cbs) < 2 ^ 32"
  shows "\<exists>s'. for_res run_cb cbs s = Inr s' \<and> ok_after (sum_list (map cb_afters cbs)) s s'"
  using assms
proof (induction cbs arbitrary: s)
  case Nil
  then show ?case by (simp add: ok_after_def)
next
  case (Cons cb cbs)
  obtain s1 where s1: "run_cb cb s = Inr s1" "ok_after (cb_afters cb) s s1"
    using run_cb_ok [of s cb] Cons.prems by auto
  then obtain s' where s': "for_res run_cb cbs s1 = Inr s'" "ok_after (sum_list (map cb_afters cbs)) s1 s'"
    using Cons.IH [of s1] Cons.prems by (auto simp: ok_after_def)
  from ok_after_trans [OF s1(2) s'(2)] s1(1) s'(1) show ?case by simp
qed

subsection \<open>Polling\<close>

lemma async_io_ok:
  assumes "safe s" "budget s < 2 ^ 32"
  shows "\<exists>s'. async_io s = Inr s' \<and> safe s' \<and> budget s' \<le> budget s \<and>
           length (lp_ready (us_loop s')) \<le> length (lp_ready (us_loop s))"
proof -
  let ?s0 = "s\<lparr>us_done := []\<rparr>"
  have s0: "safe ?s0" using assms(1) by (simp add: safe_def names_ok_def kinds_ok_def stored_ok_def wake_ok_def)
  have b0: "budget ?s0 + sum_list (map cb_afters (us_done s)) = budget s"
    by (simp add: budget_def ctx_afters_def)
  have "list_all cb_ok (us_done s)" using assms(1) by (simp add: safe_def stored_ok_def)
  from run_cbs_ok [OF s0 this] obtain s1 where s1: "after_works s = Inr s1"
    "ok_after (sum_list (map cb_afters (us_done s))) ?s0 s1"
    using b0 assms(2) by (auto simp: after_works_def)
  then have safe1: "safe s1" "budget s1 \<le> budget s"
    and len1: "length (lp_ready (us_loop s1)) \<le> length (lp_ready (us_loop s))"
    using b0 by (auto simp: ok_after_def keeps_def)
  show ?thesis
  proof (cases "us_async s1 = ALive True")
    case False
    with s1(1) safe1 len1 show ?thesis by (simp add: async_io_def)
  next
    case True
    let ?s2 = "s1\<lparr>us_async := ALive False, us_post_queue := []\<rparr>"
    have "us_started s1" "us_async_inited s1"
      using safe1(1) True unfolding safe_def sched_inv_def by blast+
    then have "sched_inv ?s2" using safe1(1) by (auto simp: safe_def sched_inv_def)
    with safe1 have s2: "safe ?s2" by (simp add: safe_def names_ok_def kinds_ok_def stored_ok_def wake_ok_def)
    have b2: "budget ?s2 + sum_list (map cb_afters (us_post_queue s1)) = budget s1"
      by (simp add: budget_def ctx_afters_def)
    have "list_all cb_ok (us_post_queue s1)" using safe1 by (simp add: safe_def stored_ok_def)
    from run_cbs_ok [OF s2 this] obtain s3 where
      "for_res run_cb (us_post_queue s1) ?s2 = Inr s3"
      "ok_after (sum_list (map cb_afters (us_post_queue s1))) ?s2 s3"
      using b2 safe1(2) assms(2) by auto
    with b2 safe1(2) len1 s1(1) True show ?thesis
      by (auto simp: async_io_def drain_post_queue_def ok_after_def keeps_def)
  qed
qed

subsection \<open>Closing\<close>

lemma run_closing_handles_ok:
  assumes "safe s"
  shows "safe (run_closing_handles s)" "budget (run_closing_handles s) \<le> budget s"
    "lp_ready (us_loop (run_closing_handles s)) = lp_ready (us_loop s)"
proof -
  let ?s = "run_closing_handles s"
  have inv: "sched_inv s" using assms by (simp add: safe_def)
  then have li: "loop_inv (us_loop s)" by (simp add: sched_inv_def)
  have t: "map_of (lp_timers (us_loop ?s)) h =
      (case map_of (lp_timers (us_loop s)) h of None \<Rightarrow> None | Some t \<Rightarrow> if tm_closing t then None else Some t)" for h
    using uv_run_closing_eq(2) [OF li] by (simp add: run_closing_handles_def)
  have closing: "h \<in> set (lp_closing (us_loop s)) \<longleftrightarrow> (\<exists>t. map_of (lp_timers (us_loop s)) h = Some t \<and> tm_closing t)" for h
    using li by (auto simp: loop_inv_def)
  have c: "map_of (us_ctx ?s) h = (if h \<in> set (lp_closing (us_loop s)) then None else map_of (us_ctx s) h)" for h
    by (simp add: run_closing_handles_def map_of_fold_merase)
  have dom: "dom (map_of (us_ctx s)) = dom (map_of (lp_timers (us_loop s)))"
    using inv by (simp add: sched_inv_def)
  have open': "h \<notin> set (lp_closing (us_loop s))" if "map_of (us_timers s) n = Some h" for n h
    using sched_inv_timer [OF inv that] closing by (metis option.inject)
  have rest: "us_timers ?s = us_timers s" "us_next ?s = us_next s" "us_started ?s = us_started s"
    "us_async_inited ?s = us_async_inited s" "us_counter ?s = us_counter s"
    "us_post_queue ?s = us_post_queue s" "us_done ?s = us_done s" "us_work ?s = us_work s"
    by (simp_all add: run_closing_handles_def)
  have live: "us_async ?s = ALive p \<longleftrightarrow> us_async s = ALive p" for p
    by (auto simp: run_closing_handles_def)
  have st: "us_async_inited s \<longleftrightarrow> us_started s" "(\<exists>p. us_async s = ALive p) \<longleftrightarrow> us_started s"
    using inv unfolding sched_inv_def by blast+
  have "sched_inv ?s"
    unfolding sched_inv_def
  proof (intro conjI allI impI ballI)
    show "loop_inv (us_loop ?s)" using uv_run_closing_eq(1) [OF li] by (simp add: run_closing_handles_def)
    show "msorted (us_timers ?s)" using inv rest by (simp add: sched_inv_def)
    show "msorted (us_ctx ?s)"
      using inv by (simp add: sched_inv_def run_closing_handles_def msorted_fold_merase)
    show "dom (map_of (us_ctx ?s)) = dom (map_of (lp_timers (us_loop ?s)))"
      using dom closing by (auto simp: dom_def t c set_eq_iff split: option.split)
    show "h < us_next ?s" if "h \<in> dom (map_of (us_ctx ?s))" for h
    proof -
      have "h \<in> dom (map_of (us_ctx s))" using that by (auto simp: c split: if_splits)
      then show ?thesis using inv unfolding sched_inv_def rest by blast
    qed
    show "\<exists>c. map_of (us_ctx ?s) h = Some c \<and> cx_name c = name \<and> cx_owner c"
      if "map_of (us_timers ?s) name = Some h" for name h
      using that inv rest open' [of name h] unfolding sched_inv_def c by auto
    show "if tm_closing ta then \<forall>n. map_of (us_timers ?s) n \<noteq> Some h
        else cx_owner ca \<and> map_of (us_timers ?s) (cx_name ca) = Some h"
      if "map_of (us_ctx ?s) h = Some ca" "map_of (lp_timers (us_loop ?s)) h = Some ta" for h ca ta
    proof -
      have "map_of (us_ctx s) h = Some ca" "map_of (lp_timers (us_loop s)) h = Some ta"
        using that by (auto simp: c t split: option.splits if_splits)
      then show ?thesis using inv unfolding sched_inv_def rest by blast
    qed
    show "us_async_inited ?s \<longleftrightarrow> us_started ?s" "(\<exists>p. us_async ?s = ALive p) \<longleftrightarrow> us_started ?s"
      unfolding rest live by (rule st)+
  qed
  moreover have "kinds_ok ?s"
    using assms unfolding safe_def kinds_ok_def c t by (auto split: option.splits if_splits)
  moreover have "stored_ok ?s"
    using assms rest unfolding safe_def stored_ok_def c by (auto split: if_splits)
  moreover have "wake_ok ?s"
    using assms rest live by (auto simp: safe_def wake_ok_def run_closing_handles_def)
  ultimately show "safe ?s" using assms rest by (simp add: safe_def names_ok_def)
  have "ctx_afters ?s (dom (map_of (us_ctx ?s))) \<le> ctx_afters s (dom (map_of (us_ctx s)))"
    unfolding ctx_afters_def
  proof (rule order_trans [OF eq_refl sum_mono2])
    show "(\<Sum>h \<in> dom (map_of (us_ctx ?s)). cb_afters (cx_callback (the (map_of (us_ctx ?s) h)))) =
        (\<Sum>h \<in> dom (map_of (us_ctx ?s)). cb_afters (cx_callback (the (map_of (us_ctx s) h))))"
      by (intro sum.cong) (auto simp: c split: if_splits)
    show "dom (map_of (us_ctx ?s)) \<subseteq> dom (map_of (us_ctx s))" by (auto simp: c split: if_splits)
  qed (simp_all add: finite_dom_map_of)
  with rest show "budget ?s \<le> budget s" by (simp add: budget_def)
  show "lp_ready (us_loop ?s) = lp_ready (us_loop s)"
    by (simp add: run_closing_handles_def uv_run_closing_def)
qed

subsection \<open>The timers\<close>

text \<open>Replacing the loop by one that has the same handles and closes none.\<close>

lemma safe_loop:
  assumes "safe s" "loop_inv lp"
    and "dom (map_of (lp_timers lp)) = dom (map_of (lp_timers (us_loop s)))"
    and "\<And>h t'. map_of (lp_timers lp) h = Some t' \<Longrightarrow>
        \<exists>t. map_of (lp_timers (us_loop s)) h = Some t \<and> tm_closing t' = tm_closing t \<and>
          (tm_cb t' = Some OneshotTimerCb \<longrightarrow> tm_cb t = Some OneshotTimerCb \<and> tm_repeat t' = tm_repeat t)"
  shows "safe (s\<lparr>us_loop := lp\<rparr>)"
proof -
  have inv: "sched_inv s" using assms(1) by (simp add: safe_def)
  have "if tm_closing t' then \<forall>n. map_of (us_timers s) n \<noteq> Some h
        else cx_owner c \<and> map_of (us_timers s) (cx_name c) = Some h"
    if "map_of (us_ctx s) h = Some c" "map_of (lp_timers lp) h = Some t'" for h c t'
    using assms(4) [OF that(2)] sched_inv_handle [OF inv that(1)] by auto
  with inv assms(2,3) have "sched_inv (s\<lparr>us_loop := lp\<rparr>)"
    unfolding sched_inv_def by simp
  moreover have "kinds_ok (s\<lparr>us_loop := lp\<rparr>)"
    unfolding kinds_ok_def
  proof (intro allI impI)
    fix h c t'
    assume c: "map_of (us_ctx (s\<lparr>us_loop := lp\<rparr>)) h = Some c"
      and t': "map_of (lp_timers (us_loop (s\<lparr>us_loop := lp\<rparr>))) h = Some t'"
      and o: "\<not> tm_closing t'" "tm_cb t' = Some OneshotTimerCb"
    obtain t where "map_of (lp_timers (us_loop s)) h = Some t" "tm_closing t' = tm_closing t"
      "tm_cb t = Some OneshotTimerCb" "tm_repeat t' = tm_repeat t"
      using assms(4) [of h t'] t' o by auto
    with c o assms(1) show "reserved (cx_name c) \<and> tm_repeat t' = 0"
      unfolding safe_def kinds_ok_def by auto
  qed
  ultimately show ?thesis
    using assms(1) by (simp add: safe_def names_ok_def stored_ok_def wake_ok_def)
qed

lemma budget_loop [simp]: "budget (s\<lparr>us_loop := lp\<rparr>) = budget s"
  by (simp add: budget_def ctx_afters_def)

lemma update_time_ok: "safe s \<Longrightarrow> safe (s\<lparr>us_loop := uv_update_time now (us_loop s)\<rparr>)"
  by (rule safe_loop) (auto simp: safe_def sched_inv_def loop_inv_def uv_update_time_def)

lemma collect_ok:
  assumes "safe s"
  shows "safe (s\<lparr>us_loop := uv_collect_due (us_loop s)\<rparr>)"
proof -
  have "loop_inv (us_loop s)" using assms by (simp add: safe_def sched_inv_def)
  then obtain ds where ds: "loop_inv (uv_collect_due (us_loop s))"
    "map_of (lp_timers (uv_collect_due (us_loop s))) =
       (\<lambda>h. map_option (\<lambda>t. if h \<in> due_set (us_loop s) then t\<lparr>tm_active := False\<rparr> else t)
              (map_of (lp_timers (us_loop s)) h))"
    using uv_collect_due_spec by blast
  show ?thesis
    by (rule safe_loop [OF assms ds(1)]) (auto simp: ds(2) dom_def)
qed

text \<open>Re-arming: a periodic timer becomes active again, a one-shot timer stays as it is.\<close>

lemma again_ok:
  assumes "safe s" "map_of (lp_timers (us_loop s)) h = Some t" "\<not> tm_closing t" "tm_cb t = Some k"
    and "h \<notin> set (lp_ready (us_loop s))"
  shows "\<exists>lp t'. uv_timer_again h (us_loop s) = Inr lp \<and> safe (s\<lparr>us_loop := lp\<rparr>) \<and>
           lp_ready lp = lp_ready (us_loop s) \<and> map_of (lp_timers lp) h = Some t' \<and>
           tm_cb t' = Some k \<and> \<not> tm_closing t'"
proof (cases "tm_repeat t = 0")
  case True
  with assms show ?thesis by (auto simp: uv_timer_again_def get_timer_def)
next
  case False
  have li: "loop_inv (us_loop s)" using assms(1) by (simp add: safe_def sched_inv_def)
  obtain lp1 where lp1: "uv_timer_stop h (us_loop s) = Inr lp1" "loop_inv lp1"
    "map_of (lp_timers lp1) = (map_of (lp_timers (us_loop s)))(h \<mapsto> t\<lparr>tm_active := False\<rparr>)"
    "lp_ready lp1 = filter (\<lambda>x. x \<noteq> h) (lp_ready (us_loop s))"
    using uv_timer_stop_eq [OF li assms(2)] by blast
  have "map_of (lp_timers lp1) h = Some (t\<lparr>tm_active := False\<rparr>)" "\<not> tm_closing (t\<lparr>tm_active := False\<rparr>)"
    using lp1(3) assms(3) by simp_all
  from uv_timer_start_eq [OF lp1(2) this, of k "tm_repeat t" "tm_repeat t"] obtain lp2 t2 where lp2:
    "uv_timer_start h k (tm_repeat t) (tm_repeat t) lp1 = Inr lp2" "loop_inv lp2"
    "map_of (lp_timers lp2) = (map_of (lp_timers lp1))(h \<mapsto> t2)"
    "tm_cb t2 = Some k" "\<not> tm_closing t2" "tm_repeat t2 = tm_repeat t"
    "lp_ready lp2 = filter (\<lambda>x. x \<noteq> h) (lp_ready lp1)"
    using assms(3) by auto
  have again: "uv_timer_again h (us_loop s) = Inr lp2"
    using assms(2,4) False lp1(1) lp2(1) by (simp add: uv_timer_again_def get_timer_def)
  have "safe (s\<lparr>us_loop := lp2\<rparr>)"
  proof (rule safe_loop [OF assms(1) lp2(2)])
    show "dom (map_of (lp_timers lp2)) = dom (map_of (lp_timers (us_loop s)))"
      using assms(2) by (auto simp: lp1(3) lp2(3))
    show "\<exists>t. map_of (lp_timers (us_loop s)) h' = Some t \<and> tm_closing t' = tm_closing t \<and>
        (tm_cb t' = Some OneshotTimerCb \<longrightarrow> tm_cb t = Some OneshotTimerCb \<and> tm_repeat t' = tm_repeat t)"
      if "map_of (lp_timers lp2) h' = Some t'" for h' t'
      using that assms(2-4) lp2(4-6) by (auto simp: lp1(3) lp2(3) split: if_splits)
  qed
  moreover have "lp_ready lp2 = lp_ready (us_loop s)"
    using assms(5) by (auto simp: lp1(4) lp2(7) filter_id_conv)
  ultimately show ?thesis using again lp2(3-5) by auto
qed

text \<open>Closing the context of a one-shot timer after its callback.\<close>

lemma oneshot_close_ok:
  assumes "safe s" "map_of (us_ctx s) h = Some c" "cx_owner c"
    and "map_of (lp_timers (us_loop s)) h = Some t" "\<not> tm_closing t"
  shows "\<exists>s'. bind_res (with_loop (uv_timer_stop h) s) (\<lambda>s2. bind_res (get_ctx s2 h) (\<lambda>c2.
             with_loop (uv_close h)
               (if cx_owner c2 then s2\<lparr>us_timers := merase (cx_name c2) (us_timers s2)\<rparr> else s2))) = Inr s' \<and>
           safe s' \<and> budget s' = budget s \<and> us_ctx s' = us_ctx s \<and>
           lp_ready (us_loop s') = filter (\<lambda>x. x \<noteq> h) (lp_ready (us_loop s))"
proof -
  have inv: "sched_inv s" using assms(1) by (simp add: safe_def)
  have li: "loop_inv (us_loop s)" using inv by (simp add: sched_inv_def)
  obtain lp1 where lp1: "uv_timer_stop h (us_loop s) = Inr lp1" "loop_inv lp1"
    "map_of (lp_timers lp1) = (map_of (lp_timers (us_loop s)))(h \<mapsto> t\<lparr>tm_active := False\<rparr>)"
    "lp_ready lp1 = filter (\<lambda>x. x \<noteq> h) (lp_ready (us_loop s))"
    using uv_timer_stop_eq [OF li assms(4)] by blast
  have "map_of (lp_timers lp1) h = Some (t\<lparr>tm_active := False\<rparr>)" "\<not> tm_closing (t\<lparr>tm_active := False\<rparr>)"
    using lp1(3) assms(5) by simp_all
  from uv_close_eq [OF lp1(2) this] obtain lp2 t2 where lp2: "uv_close h lp1 = Inr lp2" "loop_inv lp2"
    "map_of (lp_timers lp2) = (map_of (lp_timers lp1))(h \<mapsto> t2)" "tm_closing t2"
    "lp_ready lp2 = filter (\<lambda>x. x \<noteq> h) (lp_ready lp1)"
    by auto
  have m: "map_of (lp_timers lp2) = (map_of (lp_timers (us_loop s)))(h \<mapsto> t2)"
    by (simp add: lp1(3) lp2(3))
  let ?s' = "s\<lparr>us_loop := lp2, us_timers := merase (cx_name c) (us_timers s)\<rparr>"
  have own: "map_of (us_timers s) (cx_name c) = Some h"
    using sched_inv_handle [OF inv assms(2,4)] assms(5) by simp
  have only: "map_of (us_timers s) n = Some h \<Longrightarrow> n = cx_name c" for n
    using sched_inv_timer [OF inv, of n h] assms(2) by (metis option.inject)
  have "sched_inv ?s'"
    unfolding sched_inv_def
  proof (intro conjI allI impI ballI)
    show "loop_inv (us_loop ?s')" "msorted (us_timers ?s')" "msorted (us_ctx ?s')"
      using lp2(2) inv by (auto simp: sched_inv_def)
    show "dom (map_of (us_ctx ?s')) = dom (map_of (lp_timers (us_loop ?s')))"
      using inv assms(4) by (auto simp: sched_inv_def m)
    show "h' < us_next ?s'" if "h' \<in> dom (map_of (us_ctx ?s'))" for h'
      using that inv unfolding sched_inv_def by simp
    show "\<exists>c. map_of (us_ctx ?s') h' = Some c \<and> cx_name c = name \<and> cx_owner c"
      if "map_of (us_timers ?s') name = Some h'" for name h'
      using that inv unfolding sched_inv_def by (auto split: if_splits)
    show "if tm_closing ta then \<forall>n. map_of (us_timers ?s') n \<noteq> Some h'
        else cx_owner ca \<and> map_of (us_timers ?s') (cx_name ca) = Some h'"
      if ca: "map_of (us_ctx ?s') h' = Some ca" "map_of (lp_timers (us_loop ?s')) h' = Some ta" for h' ca ta
    proof (cases "h' = h")
      case True
      with ca lp2(4) only show ?thesis by (auto simp: m)
    next
      case False
      with ca have t': "map_of (us_ctx s) h' = Some ca" "map_of (lp_timers (us_loop s)) h' = Some ta"
        by (simp_all add: m)
      from sched_inv_handle [OF inv t'] own False show ?thesis by (auto split: if_splits)
    qed
    show "us_async_inited ?s' \<longleftrightarrow> us_started ?s'" "(\<exists>p. us_async ?s' = ALive p) \<longleftrightarrow> us_started ?s'"
      using inv unfolding sched_inv_def by simp_all
  qed
  moreover have "kinds_ok ?s'"
    using assms(1) lp2(4) unfolding safe_def kinds_ok_def by (auto simp: m split: if_splits)
  ultimately have "safe ?s'"
    using assms(1) by (auto simp: safe_def names_ok_def stored_ok_def wake_ok_def)
  moreover have "budget ?s' = budget s" by (simp add: budget_def ctx_afters_def)
  ultimately show ?thesis
    using lp1(1,4) lp2(1,5) assms(2,3)
    by (intro exI [of _ ?s']) (simp add: with_loop_def get_ctx_def)
qed

lemma ctx_afters_mono:
  assumes "keeps s s'" "hs' \<subseteq> hs" "finite hs" "hs \<subseteq> dom (map_of (us_ctx s))"
  shows "ctx_afters s' hs' \<le> ctx_afters s hs"
proof -
  have "ctx_afters s' hs' = ctx_afters s hs'"
    unfolding ctx_afters_def
  proof (rule sum.cong [OF refl])
    fix h
    assume "h \<in> hs'"
    then obtain c where "map_of (us_ctx s) h = Some c" using assms(2,4) by blast
    with assms(1) show "cb_afters (cx_callback (the (map_of (us_ctx s') h))) =
        cb_afters (cx_callback (the (map_of (us_ctx s) h)))"
      unfolding keeps_def by (metis option.sel)
  qed
  also have "\<dots> \<le> ctx_afters s hs"
    unfolding ctx_afters_def by (rule sum_mono2 [OF assms(3,2)]) simp
  finally show ?thesis .
qed

subsection \<open>Firing the ready timers\<close>

definition fire :: "nat \<Rightarrow> scheduler \<Rightarrow> scheduler result" where
  "fire h s =
     bind_res (with_loop (uv_timer_again h) s) (\<lambda>s1.
     bind_res (get_timer (us_loop s1) h) (\<lambda>t.
       case tm_cb t of
         None \<Rightarrow> Inl Undefined
       | Some TimerCb \<Rightarrow> timer_cb h s1
       | Some OneshotTimerCb \<Rightarrow> oneshot_timer_cb h s1))"

lemma run_ready_fire:
  "run_ready (Suc n) s =
     (case lp_ready (us_loop s) of
        [] \<Rightarrow> Inr s
      | h # hs \<Rightarrow> bind_res (fire h (s\<lparr>us_loop := (us_loop s)\<lparr>lp_ready := hs\<rparr>\<rparr>)) (run_ready n))"
  by (simp add: fire_def bind_res_assoc split: list.split)

lemma fire_ok:
  assumes "safe s" "map_of (lp_timers (us_loop s)) h = Some t" "\<not> tm_closing t" "tm_cb t \<noteq> None"
    and "h \<notin> set (lp_ready (us_loop s))" "map_of (us_ctx s) h = Some c"
    and "budget s + cb_afters (cx_callback c) < 2 ^ 32"
  shows "\<exists>s' s2. fire h s = Inr s' \<and> safe s' \<and> budget s' \<le> budget s + cb_afters (cx_callback c) \<and>
           keeps s2 s' \<and> us_ctx s2 = us_ctx s \<and> lp_ready (us_loop s2) = lp_ready (us_loop s)"
proof -
  obtain k where k: "tm_cb t = Some k" using assms(4) by blast
  obtain lp t' where lp: "uv_timer_again h (us_loop s) = Inr lp" "safe (s\<lparr>us_loop := lp\<rparr>)"
    "lp_ready lp = lp_ready (us_loop s)" "map_of (lp_timers lp) h = Some t'" "tm_cb t' = Some k"
    "\<not> tm_closing t'"
    using again_ok [OF assms(1-3) k assms(5)] by blast
  let ?s1 = "s\<lparr>us_loop := lp\<rparr>"
  have cb: "cb_ok (cx_callback c)" using assms(1,6) by (simp add: safe_def stored_ok_def)
  have b1: "budget ?s1 + cb_afters (cx_callback c) < 2 ^ 32" using assms(7) by simp
  obtain s2 where s2: "run_cb (cx_callback c) ?s1 = Inr s2" "ok_after (cb_afters (cx_callback c)) ?s1 s2"
    using run_cb_ok [OF lp(2) cb b1] by blast
  show ?thesis
  proof (cases k)
    case TimerCb
    have "fire h s = Inr s2"
      using lp s2(1) assms(6) TimerCb
      by (simp add: fire_def with_loop_def get_timer_def timer_cb_def get_ctx_def)
    with s2(2) lp(3) show ?thesis
      by (intro exI [of _ s2] exI [of _ ?s1]) (auto simp: ok_after_def)
  next
    case OneshotTimerCb
    have res: "reserved (cx_name c)" and own: "cx_owner c"
    proof -
      show "reserved (cx_name c)"
        using lp OneshotTimerCb assms(6) unfolding safe_def kinds_ok_def by auto
      have "sched_inv ?s1" using lp(2) by (simp add: safe_def)
      from sched_inv_handle [OF this, of h c t'] lp(4,6) assms(6) show "cx_owner c" by simp
    qed
    have c2: "map_of (us_ctx s2) h = Some c" "map_of (lp_timers (us_loop s2)) h = Some t'"
      using s2(2) lp(4,6) assms(6) res unfolding ok_after_def keeps_def by auto
    have safe2: "safe s2" using s2(2) by (simp add: ok_after_def)
    obtain s3 where s3: "bind_res (with_loop (uv_timer_stop h) s2) (\<lambda>s2. bind_res (get_ctx s2 h) (\<lambda>c2.
             with_loop (uv_close h)
               (if cx_owner c2 then s2\<lparr>us_timers := merase (cx_name c2) (us_timers s2)\<rparr> else s2))) = Inr s3"
      "safe s3" "budget s3 = budget s2" "us_ctx s3 = us_ctx s2"
      "lp_ready (us_loop s3) = filter (\<lambda>x. x \<noteq> h) (lp_ready (us_loop s2))"
      using oneshot_close_ok [OF safe2 c2(1) own c2(2) lp(6)] by blast
    have "fire h s = Inr s3"
      using lp s2(1) assms(6) OneshotTimerCb s3(1)
      by (simp add: fire_def with_loop_def get_timer_def oneshot_timer_cb_def get_ctx_def)
    moreover
    let ?sk = "?s1\<lparr>us_loop := lp\<lparr>lp_timers := []\<rparr>\<rparr>"
    have "keeps ?sk s3"
    proof -
      have "set (lp_ready (us_loop s3)) \<subseteq> set (lp_ready lp)"
        "length (lp_ready (us_loop s3)) \<le> length (lp_ready lp)"
        using s2(2) s3(5) le_trans [OF length_filter_le] by (auto simp: ok_after_def keeps_def)
      with s2(2) s3(4) show ?thesis unfolding keeps_def ok_after_def by auto
    qed
    ultimately show ?thesis
      using s2(2) s3 lp(3) by (intro exI [of _ s3] exI [of _ ?sk]) (auto simp: ok_after_def)
  qed
qed

lemma ready_open:
  assumes "safe s" "h \<in> set (lp_ready (us_loop s))"
  obtains t c where "map_of (lp_timers (us_loop s)) h = Some t" "\<not> tm_closing t" "tm_cb t \<noteq> None"
    "map_of (us_ctx s) h = Some c"
proof -
  have inv: "loop_inv (us_loop s)" "dom (map_of (us_ctx s)) = dom (map_of (lp_timers (us_loop s)))"
    using assms(1) by (simp_all add: safe_def sched_inv_def)
  from inv(1) assms(2) obtain t where t: "map_of (lp_timers (us_loop s)) h = Some t"
    "\<not> tm_closing t" "tm_cb t \<noteq> None" unfolding loop_inv_def by blast
  then have "h \<in> dom (map_of (us_ctx s))" unfolding inv(2) by blast
  with t that show ?thesis by blast
qed

lemma ready_dom: "safe s \<Longrightarrow> set (lp_ready (us_loop s)) \<subseteq> dom (map_of (us_ctx s))"
  by (blast elim: ready_open)

lemma run_ready_ok:
  assumes "safe s" "length (lp_ready (us_loop s)) \<le> n"
    and "budget s + ctx_afters s (set (lp_ready (us_loop s))) < 2 ^ 32"
  shows "\<exists>s'. run_ready n s = Inr s' \<and> safe s' \<and> lp_ready (us_loop s') = [] \<and>
           budget s' \<le> budget s + ctx_afters s (set (lp_ready (us_loop s)))"
  using assms
proof (induction n arbitrary: s)
  case 0
  then show ?case by simp
next
  case (Suc n)
  show ?case
  proof (cases "lp_ready (us_loop s)")
    case Nil
    with Suc.prems show ?thesis by (simp add: run_ready_fire del: run_ready.simps)
  next
    case (Cons h hs)
    have li: "loop_inv (us_loop s)" using Suc.prems(1) by (simp add: safe_def sched_inv_def)
    obtain t c where t: "map_of (lp_timers (us_loop s)) h = Some t" "\<not> tm_closing t" "tm_cb t \<noteq> None"
      and c: "map_of (us_ctx s) h = Some c"
      using ready_open [OF Suc.prems(1), of h] Cons by auto
    note dom = ready_dom [OF Suc.prems(1)]
    let ?s0 = "s\<lparr>us_loop := (us_loop s)\<lparr>lp_ready := hs\<rparr>\<rparr>"
    have "h \<notin> set hs" "loop_inv ((us_loop s)\<lparr>lp_ready := hs\<rparr>)"
      using li Cons by (auto simp: loop_inv_def)
    then have s0: "safe ?s0" and nh: "h \<notin> set (lp_ready (us_loop ?s0))"
      using safe_loop [OF Suc.prems(1), of "(us_loop s)\<lparr>lp_ready := hs\<rparr>"] by auto
    have split: "ctx_afters s (set (lp_ready (us_loop s))) = cb_afters (cx_callback c) + ctx_afters s (set hs)"
      using c \<open>h \<notin> set hs\<close> by (simp add: ctx_afters_def Cons)
    have "budget ?s0 + cb_afters (cx_callback c) < 2 ^ 32" using Suc.prems(3) split by simp
    then obtain s1 s2 where s1: "fire h ?s0 = Inr s1" "safe s1"
      "budget s1 \<le> budget s + cb_afters (cx_callback c)"
      "keeps s2 s1" "us_ctx s2 = us_ctx s" "lp_ready (us_loop s2) = hs"
      using fire_ok [OF s0, of h t c] t c nh by auto
    have rd: "set (lp_ready (us_loop s1)) \<subseteq> set hs" "length (lp_ready (us_loop s1)) \<le> n"
      using s1(4,6) Suc.prems(2) Cons by (auto simp: keeps_def)
    have "ctx_afters s1 (set (lp_ready (us_loop s1))) \<le> ctx_afters s2 (set hs)"
      by (rule ctx_afters_mono [OF s1(4) rd(1)]) (use dom Cons s1(5) in auto)
    also have "\<dots> = ctx_afters s (set hs)" using s1(5) by (simp add: ctx_afters_def)
    finally have b: "budget s1 + ctx_afters s1 (set (lp_ready (us_loop s1))) \<le>
        budget s + ctx_afters s (set (lp_ready (us_loop s)))"
      using s1(3) split by simp
    with Suc.IH [OF s1(2) rd(2)] Suc.prems(3) obtain s' where "run_ready n s1 = Inr s'" "safe s'"
      "lp_ready (us_loop s') = []" "budget s' \<le> budget s + ctx_afters s (set (lp_ready (us_loop s)))"
      by fastforce
    with s1(1) Cons show ?thesis by (simp add: run_ready_fire del: run_ready.simps)
  qed
qed

lemma ctx_afters_le_budget:
  assumes "safe s"
  shows "ctx_afters s (set (lp_ready (us_loop s))) \<le> budget s"
proof -
  note ready_dom [OF assms]
  then have "ctx_afters s (set (lp_ready (us_loop s))) \<le> ctx_afters s (dom (map_of (us_ctx s)))"
    unfolding ctx_afters_def by (intro sum_mono2) (simp_all add: finite_dom_map_of)
  then show ?thesis by (simp add: budget_def)
qed

lemma run_timers_ok:
  assumes "safe s" "2 * budget s < 2 ^ 32"
  shows "\<exists>s'. run_timers s = Inr s' \<and> safe s' \<and> lp_ready (us_loop s') = [] \<and> budget s' \<le> 2 * budget s"
proof -
  let ?s = "s\<lparr>us_loop := uv_collect_due (us_loop s)\<rparr>"
  have s: "safe ?s" by (rule collect_ok [OF assms(1)])
  have "ctx_afters ?s (set (lp_ready (us_loop ?s))) \<le> budget s"
    using ctx_afters_le_budget [OF s] by simp
  then have "budget ?s + ctx_afters ?s (set (lp_ready (us_loop ?s))) \<le> 2 * budget s" by simp
  with run_ready_ok [OF s order_refl] assms(2) show ?thesis
    by (fastforce simp: run_timers_def Let_def)
qed

subsection \<open>A whole iteration\<close>

lemma loop_iteration_ok:
  assumes "safe s" "2 * budget s < 2 ^ 32"
  shows "\<exists>s'. loop_iteration clock s = Inr s' \<and> safe s' \<and> lp_ready (us_loop s') = [] \<and>
           budget s' \<le> 2 * budget s"
proof -
  let ?s0 = "s\<lparr>us_loop := uv_update_time (fst clock) (us_loop s)\<rparr>"
  have "safe ?s0" by (rule update_time_ok [OF assms(1)])
  with async_io_ok [of ?s0] assms(2) obtain s1 where s1: "async_io ?s0 = Inr s1" "safe s1"
    "budget s1 \<le> budget s" by auto
  let ?s2 = "run_closing_handles s1"
  have s2: "safe ?s2" "budget ?s2 \<le> budget s" using run_closing_handles_ok [OF s1(2)] s1(3) by auto
  let ?s3 = "?s2\<lparr>us_loop := uv_update_time (snd clock) (us_loop ?s2)\<rparr>"
  have s3: "safe ?s3" by (rule update_time_ok [OF s2(1)])
  have "2 * budget ?s3 < 2 ^ 32" using s2(2) assms(2) by simp
  from run_timers_ok [OF s3 this] s2(2) obtain s' where "run_timers ?s3 = Inr s'" "safe s'"
    "lp_ready (us_loop s') = []" "budget s' \<le> 2 * budget s" by auto
  with s1(1) show ?thesis by (cases clock) (simp add: loop_iteration_def Let_def)
qed

lemma step_ok:
  assumes "safe s" "2 * budget s < 2 ^ 32" "lp_ready (us_loop s) = []"
  shows "\<exists>s'. step clock s = Inr s' \<and> safe s' \<and> lp_ready (us_loop s') = [] \<and> budget s' \<le> 2 * budget s"
  using assms loop_iteration_ok [OF assms(1,2)] update_time_ok [OF assms(1)]
  by (auto simp: step_def uv_update_time_def)

end
