(* ===== verification/Scheduler_Runs.thy ===== *)
theory Scheduler_Runs
  imports Scheduler_Safety
begin

text \<open>
  Whole sessions of the scheduler: what the embedding program does on the loop thread, in any order
  (calls of the interface, \<open>step()\<close>, the pool finishing a work, the final \<open>stop()\<close>), and what
  \<open>run()\<close> does after \<open>stop()\<close>.
\<close>

datatype event = Call cmd | Pool nat | Step "u64 \<times> u64" | Shutdown

definition do_event :: "event \<Rightarrow> scheduler \<Rightarrow> scheduler result" where
  "do_event ev s =
     (case ev of
        Call c \<Rightarrow> exec_cmd c s
      | Pool i \<Rightarrow> work_cb i s
      | Step clock \<Rightarrow> step clock s
      | Shutdown \<Rightarrow> sched_stop s)"

definition run_events :: "event list \<Rightarrow> scheduler \<Rightarrow> scheduler result" where
  "run_events evs s = for_res do_event evs s"

text \<open>A session from the construction of the scheduler on.\<close>

definition session :: "scheduler_config \<Rightarrow> event list \<Rightarrow> scheduler result" where
  "session c evs = bind_res (sched_start (new_scheduler c)) (run_events evs)"

fun event_ok :: "event \<Rightarrow> bool" where
  "event_ok (Call c) = cmd_ok c"
| "event_ok _ = True"

fun event_afters :: "event \<Rightarrow> nat" where
  "event_afters (Call c) = cmd_afters c"
| "event_afters _ = 0"

text \<open>Between two events no timer is waiting in the ready queue.\<close>

definition rested :: "scheduler \<Rightarrow> bool" where
  "rested s \<longleftrightarrow> safe s \<and> lp_ready (us_loop s) = []"

subsection \<open>The thread pool\<close>

lemma exec_worker_ok:
  assumes "safe s" "list_all worker_cmd cs" "list_all cmd_ok cs"
    "budget s + sum_list (map cmd_afters cs) < 2 ^ 32"
  shows "\<exists>s'. exec_worker cs s = Inr s' \<and> ok_after (sum_list (map cmd_afters cs)) s s'"
  using assms
proof (induction cs arbitrary: s)
  case Nil
  then show ?case by (simp add: ok_after_def)
next
  case (Cons c cs)
  show ?case
  proof (cases "c = Throw")
    case True
    with Cons.prems show ?thesis by (simp add: ok_after_def)
  next
    case False
    obtain s1 where s1: "exec_cmd c s = Inr s1" "ok_after (cmd_afters c) s s1"
      using exec_cmd_ok [of s c] Cons.prems by auto
    then obtain s' where s': "exec_worker cs s1 = Inr s'" "ok_after (sum_list (map cmd_afters cs)) s1 s'"
      using Cons.IH [of s1] Cons.prems by (auto simp: ok_after_def)
    have "exec_worker (c # cs) s = bind_res (exec_cmd c s) (exec_worker cs)"
      using False Cons.prems(2) by (cases c) simp_all
    with ok_after_trans [OF s1(2) s'(2)] s1(1) s'(1) show ?thesis by simp
  qed
qed

lemma take_drop_sum:
  "i < length xs \<Longrightarrow> f (xs ! i) + sum_list (map f (take i xs @ drop (Suc i) xs)) = (sum_list (map f xs) :: nat)"
  by (subst (3) id_take_nth_drop [of i xs]) simp_all

lemma work_cb_ok:
  assumes "safe s" "budget s < 2 ^ 32"
  shows "\<exists>s'. work_cb i s = Inr s' \<and> safe s' \<and> budget s' \<le> budget s \<and>
           length (lp_ready (us_loop s')) \<le> length (lp_ready (us_loop s))"
proof (cases "i < length (us_work s)")
  case False
  with assms show ?thesis by (simp add: work_cb_def)
next
  case True
  obtain w d where wd: "us_work s ! i = (w, d)" by fastforce
  let ?rest = "take i (us_work s) @ drop (Suc i) (us_work s)"
  let ?s1 = "s\<lparr>us_work := ?rest\<rparr>"
  have mem: "(w, d) \<in> set (us_work s)" using True wd nth_mem by metis
  have sub: "set ?rest \<subseteq> set (us_work s)" by (auto dest: in_set_takeD in_set_dropD)
  have ok: "cb_all worker_cmd w" "cb_ok w" "cb_ok d"
    using assms(1) mem by (auto simp: safe_def stored_ok_def list_all_iff)
  have st1: "stored_ok ?s1"
    using assms(1) sub by (fastforce simp: safe_def stored_ok_def list_all_iff)
  have s1: "safe ?s1"
    using assms(1) st1 by (simp add: safe_def names_ok_def kinds_ok_def wake_ok_def)
  have b1: "budget ?s1 + (cb_afters w + cb_afters d) = budget s"
    using take_drop_sum [OF True, of "\<lambda>(w, d). cb_afters w + cb_afters d"] wd
    by (simp add: budget_def ctx_afters_def)
  have "\<exists>s2. (case w of None \<Rightarrow> Inr ?s1 | Some cs \<Rightarrow> exec_worker cs ?s1) = Inr s2 \<and>
      ok_after (cb_afters w) ?s1 s2"
  proof (cases w)
    case None
    with s1 show ?thesis by (simp add: ok_after_def)
  next
    case (Some cs)
    with exec_worker_ok [OF s1, of cs] ok b1 assms(2) show ?thesis by simp
  qed
  then obtain s2 where s2: "(case w of None \<Rightarrow> Inr ?s1 | Some cs \<Rightarrow> exec_worker cs ?s1) = Inr s2"
    "ok_after (cb_afters w) ?s1 s2" by blast
  let ?s3 = "s2\<lparr>us_done := us_done s2 @ [d]\<rparr>"
  have run: "work_cb i s = Inr ?s3" using True wd s2(1) by (simp add: work_cb_def Let_def)
  have b3: "budget ?s3 = budget s2 + cb_afters d" by (simp add: budget_def ctx_afters_def)
  have safe3: "safe ?s3"
    using s2(2) ok(3)
    by (simp add: ok_after_def safe_def names_ok_def kinds_ok_def stored_ok_def wake_ok_def)
  have le: "budget s2 \<le> budget ?s1 + cb_afters w" "length (lp_ready (us_loop s2)) \<le> length (lp_ready (us_loop s))"
    using s2(2) by (simp_all add: ok_after_def keeps_def)
  show ?thesis
  proof (intro exI conjI)
    show "work_cb i s = Inr ?s3" by (rule run)
    show "safe ?s3" by (rule safe3)
    show "budget ?s3 \<le> budget s" using b3 b1 le(1) by linarith
    show "length (lp_ready (us_loop ?s3)) \<le> length (lp_ready (us_loop s))" using le(2) by simp
  qed
qed

subsection \<open>One event, and sessions\<close>

lemma ctx_afters_cong:
  assumes "\<And>h. map_option cx_callback (map_of (us_ctx s') h) = map_option cx_callback (map_of (us_ctx s) h)"
  shows "ctx_afters s' (dom (map_of (us_ctx s'))) = ctx_afters s (dom (map_of (us_ctx s)))"
proof -
  have d: "dom (map_of (us_ctx s')) = dom (map_of (us_ctx s))"
  proof (rule set_eqI)
    fix h
    show "h \<in> dom (map_of (us_ctx s')) \<longleftrightarrow> h \<in> dom (map_of (us_ctx s))"
      using assms [of h] by (cases "map_of (us_ctx s') h"; cases "map_of (us_ctx s) h") auto
  qed
  show ?thesis
    unfolding ctx_afters_def d
  proof (rule sum.cong [OF refl])
    fix h
    assume "h \<in> dom (map_of (us_ctx s))"
    with assms [of h] show "cb_afters (cx_callback (the (map_of (us_ctx s') h))) =
        cb_afters (cx_callback (the (map_of (us_ctx s) h)))" by auto
  qed
qed

lemma stop_rested:
  assumes "rested s"
  shows "\<exists>s'. sched_stop s = Inr s' \<and> rested s' \<and> budget s' \<le> budget s"
proof (cases "us_started s")
  case False
  with assms show ?thesis by (simp add: sched_stop_def)
next
  case True
  have inv: "sched_inv s" using assms by (simp add: rested_def safe_def)
  obtain s' where s': "sched_stop s = Inr s'" "sched_inv s'" "us_timers s' = []"
    "us_async s' = AClosing" "\<And>h t. map_of (lp_timers (us_loop s')) h = Some t \<Longrightarrow> tm_closing t"
    "us_post_queue s' = us_post_queue s" "us_done s' = us_done s" "us_work s' = us_work s"
    "us_counter s' = us_counter s"
    "\<And>h. map_option cx_callback (map_of (us_ctx s') h) = map_option cx_callback (map_of (us_ctx s) h)"
    "length (lp_ready (us_loop s')) \<le> length (lp_ready (us_loop s))"
    using sched_stop_eq [OF inv True] by blast
  have cb: "cb_ok (cx_callback c)" if "map_of (us_ctx s') h = Some c" for h c
  proof -
    from that s'(10) [of h] obtain c0 where "map_of (us_ctx s) h = Some c0" "cx_callback c0 = cx_callback c"
      by (cases "map_of (us_ctx s) h") auto
    moreover from this assms have "cb_ok (cx_callback c0)"
      unfolding rested_def safe_def stored_ok_def by blast
    ultimately show ?thesis by simp
  qed
  have st: "stored_ok s'"
    using assms s'(6-8) cb by (auto simp: rested_def safe_def stored_ok_def)
  have "kinds_ok s'" using s'(5) by (auto simp: kinds_ok_def)
  with s' st have safe': "safe s'" by (simp add: safe_def names_ok_def wake_ok_def)
  have "budget s' = budget s"
    using s'(6-9) ctx_afters_cong [OF s'(10)] by (simp add: budget_def)
  with s' safe' assms show ?thesis by (intro exI [of _ s']) (auto simp: rested_def)
qed

lemma do_event_ok:
  assumes "rested s" "event_ok ev" "2 * budget s + event_afters ev < 2 ^ 32"
  shows "\<exists>s'. do_event ev s = Inr s' \<and> rested s' \<and> budget s' \<le> 2 * budget s + event_afters ev"
proof (cases ev)
  case (Call c)
  obtain s' where "exec_cmd c s = Inr s'" "ok_after (cmd_afters c) s s'"
    using exec_cmd_ok [of s c] assms Call by (auto simp: rested_def)
  with assms(1) Call show ?thesis
    by (intro exI [of _ s']) (auto simp: do_event_def rested_def ok_after_def keeps_def)
next
  case (Pool i)
  with work_cb_ok [of s i] assms show ?thesis
    by (fastforce simp: do_event_def rested_def)
next
  case (Step clock)
  with step_ok [of s clock] assms show ?thesis by (auto simp: do_event_def rested_def)
next
  case Shutdown
  from stop_rested [OF assms(1)] obtain s' where "sched_stop s = Inr s'" "rested s'" "budget s' \<le> budget s"
    by blast
  with Shutdown show ?thesis by (intro exI [of _ s']) (simp add: do_event_def)
qed

text \<open>A session goes on until its events end, or the numbers of one-shot timers may be used up.\<close>

lemma run_events_ok:
  assumes "rested s" "list_all event_ok evs"
  shows "\<exists>k s'. k \<le> length evs \<and> run_events (take k evs) s = Inr s' \<and> rested s' \<and>
           (k = length evs \<or> 2 ^ 32 \<le> 2 * budget s' + event_afters (evs ! k))"
  using assms
proof (induction evs arbitrary: s)
  case Nil
  then show ?case by (simp add: run_events_def)
next
  case (Cons ev evs)
  show ?case
  proof (cases "2 * budget s + event_afters ev < 2 ^ 32")
    case False
    with Cons.prems show ?thesis by (intro exI [of _ 0] exI [of _ s]) (simp add: run_events_def)
  next
    case True
    with do_event_ok [of s ev] Cons.prems obtain s1 where s1: "do_event ev s = Inr s1" "rested s1"
      by auto
    from Cons.IH [OF s1(2)] Cons.prems(2) obtain k s' where k: "k \<le> length evs"
      "run_events (take k evs) s1 = Inr s'" "rested s'"
      "k = length evs \<or> 2 ^ 32 \<le> 2 * budget s' + event_afters (evs ! k)" by auto
    show ?thesis
      by (intro exI [of _ "Suc k"] exI [of _ s']) (use k s1 in \<open>auto simp: run_events_def\<close>)
  qed
qed

text \<open>Without one-shot timers there is no bound on the length of the session.\<close>

lemma run_events_unbounded:
  assumes "rested s" "budget s = 0" "list_all event_ok evs" "list_all (\<lambda>ev. event_afters ev = 0) evs"
  shows "\<exists>s'. run_events evs s = Inr s' \<and> rested s' \<and> budget s' = 0"
  using assms
proof (induction evs arbitrary: s)
  case Nil
  then show ?case by (simp add: run_events_def)
next
  case (Cons ev evs)
  with do_event_ok [of s ev] obtain s1 where s1: "do_event ev s = Inr s1" "rested s1" "budget s1 = 0"
    by auto
  with Cons.IH [of s1] Cons.prems show ?case by (auto simp: run_events_def)
qed

lemma started_rested:
  assumes "sched_start (new_scheduler c) = Inr s"
  shows "rested s" "budget s = 0"
proof -
  have s: "s = (new_scheduler c)\<lparr>us_async := ALive False, us_async_inited := True, us_started := True\<rparr>"
    using assms by (simp add: sched_start_def new_scheduler_def)
  have "sched_inv s" using sched_inv_new [of c] by (auto simp: s sched_inv_def new_scheduler_def)
  then show "rested s" "budget s = 0"
    by (simp_all add: rested_def safe_def s new_scheduler_def names_ok_def kinds_ok_def stored_ok_def
        wake_ok_def new_loop_def budget_def ctx_afters_def)
qed

lemma start_new: "\<exists>s. sched_start (new_scheduler c) = Inr s"
  by (simp add: sched_start_def new_scheduler_def)

subsection \<open>After \<open>stop()\<close>\<close>

lemma map_of_None_Nil: "(\<And>k. map_of m k = None) \<Longrightarrow> m = []"
  by (metis map_of_eq_empty_iff)

text \<open>
  Once stopped, and with no work in the pool, one iteration frees every context, and \<open>run()\<close> ends:
  nothing is alive in the loop, and no callback has run.
\<close>

lemma stopped_run_ends:
  assumes "sched_inv s" "us_started s" "us_work s = []" "us_done s = []" "lp_ready (us_loop s) = []"
  shows "\<exists>s1 s2. sched_stop s = Inr s1 \<and> loop_iteration clock s1 = Inr s2 \<and> run_loop (clock # cs) s1 = Inr s2 \<and>
           \<not> loop_alive s2 \<and> us_ctx s2 = [] \<and> lp_timers (us_loop s2) = [] \<and> us_log s2 = us_log s \<and>
           us_async s2 = AClosed"
proof -
  obtain s1 where s1: "sched_stop s = Inr s1" "sched_inv s1" "us_timers s1 = []" "\<not> us_started s1"
    "us_async s1 = AClosing" "\<And>h t. map_of (lp_timers (us_loop s1)) h = Some t \<Longrightarrow> tm_closing t"
    "us_log s1 = us_log s" "us_done s1 = []" "us_work s1 = []"
    "length (lp_ready (us_loop s1)) \<le> length (lp_ready (us_loop s))"
    using sched_stop_eq [OF assms(1,2)] assms(3,4) by metis
  have inv: "loop_inv (us_loop s1)" using s1(2) by (simp add: sched_inv_def)
  let ?s0 = "s1\<lparr>us_loop := uv_update_time (fst clock) (us_loop s1)\<rparr>"
  have io: "async_io ?s0 = Inr ?s0" using s1 by (simp add: async_io_def after_works_def)
  have inv0: "loop_inv (us_loop ?s0)" using inv by (simp add: uv_update_time_def loop_inv_def)
  let ?s2 = "run_closing_handles ?s0"
  have none: "map_of (lp_timers (us_loop ?s2)) h = None" for h
    using uv_run_closing_eq(2) [OF inv0, of h] s1(6) [of h]
    by (auto simp: run_closing_handles_def uv_update_time_def split: option.splits)
  then have t: "lp_timers (us_loop ?s2) = []" by (rule map_of_None_Nil)
  have ctx: "map_of (us_ctx ?s2) h = None" for h
  proof -
    have "dom (map_of (us_ctx s1)) = dom (map_of (lp_timers (us_loop s1)))"
      using s1(2) by (simp add: sched_inv_def)
    moreover have "h \<in> set (lp_closing (us_loop s1))" if "h \<in> dom (map_of (lp_timers (us_loop s1)))"
      using that s1(6) inv unfolding loop_inv_def by blast
    ultimately show ?thesis
      by (auto simp: run_closing_handles_def uv_update_time_def map_of_fold_merase domIff)
  qed
  then have c: "us_ctx ?s2 = []" by (rule map_of_None_Nil)
  let ?s3 = "?s2\<lparr>us_loop := uv_update_time (snd clock) (us_loop ?s2)\<rparr>"
  have r: "lp_ready (us_loop ?s3) = []"
    using s1(10) assms(5) by (simp add: run_closing_handles_def uv_run_closing_def uv_update_time_def)
  have col: "uv_collect_due (us_loop ?s3) = us_loop ?s3"
    using t by (simp add: uv_collect_due_def uv_update_time_def)
  have timers: "run_timers ?s3 = Inr ?s3" using col r by (simp add: run_timers_def Let_def)
  have iter: "loop_iteration clock s1 = Inr ?s3"
    using io timers by (cases clock) (simp add: loop_iteration_def Let_def)
  have dead: "\<not> loop_alive ?s3"
    using t s1 by (auto simp: loop_alive_def timers_alive_def run_closing_handles_def uv_update_time_def
        uv_run_closing_def)
  have alive: "loop_alive s1" using s1(5) by (simp add: loop_alive_def)
  have "run_loop (clock # cs) s1 = Inr ?s3"
    using iter dead alive by (cases cs) simp_all
  with s1 iter dead t c show ?thesis
    by (intro exI [of _ s1] exI [of _ ?s3]) (simp add: run_closing_handles_def uv_update_time_def)
qed

text \<open>\<open>stop()\<close> called from a one-shot callback: its context is closed twice.\<close>

lemma stop_in_oneshot:
  assumes "sched_inv s" "us_started s" "map_of (us_timers s) name = Some h"
    "map_of (us_ctx s) h = Some c" "cx_callback c = Some [Stop]"
  shows "oneshot_timer_cb h s = Inl Undefined"
proof -
  obtain s1 where s1: "sched_stop s = Inr s1" "sched_inv s1"
    "\<And>h t. map_of (lp_timers (us_loop s1)) h = Some t \<Longrightarrow> tm_closing t"
    "\<And>h. map_option cx_callback (map_of (us_ctx s1) h) = map_option cx_callback (map_of (us_ctx s) h)"
    using sched_stop_eq [OF assms(1,2)] by metis
  obtain c1 where c1: "map_of (us_ctx s1) h = Some c1" using s1(4) [of h] assms(4) by auto
  then obtain t where t: "map_of (lp_timers (us_loop s1)) h = Some t"
    using s1(2) unfolding sched_inv_def by blast
  have inv: "loop_inv (us_loop s1)" using s1(2) by (simp add: sched_inv_def)
  obtain lp where lp: "uv_timer_stop h (us_loop s1) = Inr lp"
    "map_of (lp_timers lp) = (map_of (lp_timers (us_loop s1)))(h \<mapsto> t\<lparr>tm_active := False\<rparr>)"
    using uv_timer_stop_eq [OF inv t] by blast
  have "uv_close h lp = Inl Undefined"
    using lp(2) s1(3) [OF t] by (intro uv_close_twice [of _ _ "t\<lparr>tm_active := False\<rparr>"]) simp_all
  with lp c1 s1(1) assms(4,5) show ?thesis
    by (simp add: oneshot_timer_cb_def get_ctx_def run_cb_def with_loop_def)
qed

end
