(* ===== verification/Config.thy ===== *)
theory Config
  imports Json_Roundtrip
begin

text \<open>
  Configuration (src/wheel/config): the five structs of config_models.h with their \<open>from_json\<close>
  functions, \<open>JsonConfigLoader\<close> and its factory. The file is given by its content (\<open>None\<close>: it
  cannot be opened). The lemmas: a section of the wrong type is ignored and a missing field takes
  the default of the header; a configuration written as JSON text is loaded exactly; a load that
  throws leaves the previous configuration in place.
\<close>

record server_config =
  sc_port :: int32
  sc_auto_open_browser :: bool

record llm_section =
  lc_provider :: string
  lc_api_key :: string
  lc_base_url :: string
  lc_model :: string
  lc_temperature :: u64
  lc_max_tokens :: int32
  lc_timeout :: int32

record browser_section =
  bc_headless :: bool
  bc_slow_mo :: int32
  bc_viewport_width :: int32
  bc_viewport_height :: int32
  bc_locale :: string
  bc_timeout :: int32

record platform_config =
  pc_enabled :: bool
  pc_session_file :: string
  pc_base_url :: string
  pc_account :: "(string, string) smap"

record task_config =
  tc_name :: string
  tc_platforms :: "string list"
  tc_intent :: string
  tc_schedule :: string

record config =
  cfg_server :: server_config
  cfg_llm :: llm_section
  cfg_browser :: browser_section
  cfg_platforms :: "(string, platform_config) smap"
  cfg_tasks :: "task_config list"

subsection \<open>The member initialisers\<close>

text \<open>The double nearest to 0.7.\<close>

definition double_0_7 :: u64 where
  "double_0_7 = 0x3FE6666666666666"

definition default_server :: server_config where
  "default_server = \<lparr>sc_port = 7890, sc_auto_open_browser = True\<rparr>"

definition default_llm :: llm_section where
  "default_llm =
     \<lparr>lc_provider = ''deepseek'', lc_api_key = [], lc_base_url = [], lc_model = ''deepseek-chat'',
      lc_temperature = double_0_7, lc_max_tokens = 4096, lc_timeout = 60\<rparr>"

definition default_browser :: browser_section where
  "default_browser =
     \<lparr>bc_headless = False, bc_slow_mo = 500, bc_viewport_width = 1920, bc_viewport_height = 1080,
      bc_locale = ''zh-CN'', bc_timeout = 30000\<rparr>"

definition default_platform :: platform_config where
  "default_platform =
     \<lparr>pc_enabled = False, pc_session_file = [], pc_base_url = [], pc_account = []\<rparr>"

definition default_task :: task_config where
  "default_task = \<lparr>tc_name = [], tc_platforms = [], tc_intent = [], tc_schedule = ''manual''\<rparr>"

definition default_config :: config where
  "default_config =
     \<lparr>cfg_server = default_server, cfg_llm = default_llm, cfg_browser = default_browser,
      cfg_platforms = [], cfg_tasks = []\<rparr>"

subsection \<open>\<open>from_json\<close>\<close>

text \<open>\<open>if (j.contains(k) && test(j.at(k))) f(j.at(k))\<close>.\<close>

definition read_section ::
  "(json \<Rightarrow> bool) \<Rightarrow> json \<Rightarrow> string \<Rightarrow> (json \<Rightarrow> 'r \<Rightarrow> 'r result) \<Rightarrow> 'r \<Rightarrow> 'r result" where
  "read_section test j k f r =
     (if json_contains j k
      then bind_res (json_at j k) (\<lambda>v. if test v then f v r else Inr r)
      else Inr r)"

definition server_from_json :: "json \<Rightarrow> server_config \<Rightarrow> server_config result" where
  "server_from_json j = seq_res
     [read_field get_int j ''port'' 7890 (\<lambda>v. sc_port_update (\<lambda>_. v)),
      read_field get_bool j ''auto_open_browser'' True (\<lambda>v. sc_auto_open_browser_update (\<lambda>_. v))]"

definition llm_from_json :: "json \<Rightarrow> llm_section \<Rightarrow> llm_section result" where
  "llm_from_json j = seq_res
     [read_field get_string j ''provider'' ''deepseek'' (\<lambda>v. lc_provider_update (\<lambda>_. v)),
      read_field get_string j ''api_key'' [] (\<lambda>v. lc_api_key_update (\<lambda>_. v)),
      read_field get_string j ''base_url'' [] (\<lambda>v. lc_base_url_update (\<lambda>_. v)),
      read_field get_string j ''model'' ''deepseek-chat'' (\<lambda>v. lc_model_update (\<lambda>_. v)),
      read_field get_double j ''temperature'' double_0_7 (\<lambda>v. lc_temperature_update (\<lambda>_. v)),
      read_field get_int j ''max_tokens'' 4096 (\<lambda>v. lc_max_tokens_update (\<lambda>_. v)),
      read_field get_int j ''timeout'' 60 (\<lambda>v. lc_timeout_update (\<lambda>_. v))]"

definition browser_from_json :: "json \<Rightarrow> browser_section \<Rightarrow> browser_section result" where
  "browser_from_json j = seq_res
     [read_field get_bool j ''headless'' False (\<lambda>v. bc_headless_update (\<lambda>_. v)),
      read_field get_int j ''slow_mo'' 500 (\<lambda>v. bc_slow_mo_update (\<lambda>_. v)),
      read_field get_int j ''viewport_width'' 1920 (\<lambda>v. bc_viewport_width_update (\<lambda>_. v)),
      read_field get_int j ''viewport_height'' 1080 (\<lambda>v. bc_viewport_height_update (\<lambda>_. v)),
      read_field get_string j ''locale'' ''zh-CN'' (\<lambda>v. bc_locale_update (\<lambda>_. v)),
      read_field get_int j ''timeout'' 30000 (\<lambda>v. bc_timeout_update (\<lambda>_. v))]"

definition platform_from_json :: "json \<Rightarrow> platform_config \<Rightarrow> platform_config result" where
  "platform_from_json j = seq_res
     [read_field get_bool j ''enabled'' False (\<lambda>v. pc_enabled_update (\<lambda>_. v)),
      read_field get_string j ''session_file'' [] (\<lambda>v. pc_session_file_update (\<lambda>_. v)),
      read_field get_string j ''base_url'' [] (\<lambda>v. pc_base_url_update (\<lambda>_. v)),
      read_section is_object j ''account''
        (\<lambda>a. for_res (\<lambda>(k, v) c. bind_res (get_string v)
                        (\<lambda>s. Inr (c\<lparr>pc_account := mput k s (pc_account c)\<rparr>)))
               (json_items a))]"

definition task_from_json :: "json \<Rightarrow> task_config \<Rightarrow> task_config result" where
  "task_from_json j = seq_res
     [read_field get_string j ''name'' [] (\<lambda>v. tc_name_update (\<lambda>_. v)),
      read_field get_string j ''intent'' [] (\<lambda>v. tc_intent_update (\<lambda>_. v)),
      read_field get_string j ''schedule'' ''manual'' (\<lambda>v. tc_schedule_update (\<lambda>_. v)),
      read_section is_array j ''platforms''
        (\<lambda>a. for_res (\<lambda>p c. bind_res (get_string p)
                        (\<lambda>s. Inr (c\<lparr>tc_platforms := tc_platforms c @ [s]\<rparr>)))
               (json_elements a))]"

definition config_from_json :: "json \<Rightarrow> config \<Rightarrow> config result" where
  "config_from_json j = seq_res
     [read_section is_object j ''server''
        (\<lambda>s c. bind_res (server_from_json s (cfg_server c)) (\<lambda>x. Inr (c\<lparr>cfg_server := x\<rparr>))),
      read_section is_object j ''llm''
        (\<lambda>s c. bind_res (llm_from_json s (cfg_llm c)) (\<lambda>x. Inr (c\<lparr>cfg_llm := x\<rparr>))),
      read_section is_object j ''browser''
        (\<lambda>s c. bind_res (browser_from_json s (cfg_browser c)) (\<lambda>x. Inr (c\<lparr>cfg_browser := x\<rparr>))),
      read_section is_object j ''platforms''
        (\<lambda>s. for_res (\<lambda>(k, v) c. bind_res (platform_from_json v default_platform)
                        (\<lambda>p. Inr (c\<lparr>cfg_platforms := mput k p (cfg_platforms c)\<rparr>)))
               (json_items s)),
      read_section is_array j ''tasks''
        (\<lambda>s. for_res (\<lambda>t c. bind_res (task_from_json t default_task)
                        (\<lambda>x. Inr (c\<lparr>cfg_tasks := cfg_tasks c @ [x]\<rparr>)))
               (json_elements s))]"

subsection \<open>\<open>JsonConfigLoader\<close>\<close>

record loader =
  ld_path :: string
  ld_config :: config
  ld_loaded :: bool

definition new_loader :: "string \<Rightarrow> loader" where
  "new_loader path = \<lparr>ld_path = path, ld_config = default_config, ld_loaded = False\<rparr>"

definition read_file :: "(string \<Rightarrow> string option) \<Rightarrow> loader \<Rightarrow> string" where
  "read_file files ld = (case files (ld_path ld) of None \<Rightarrow> [] | Some s \<Rightarrow> s)"

definition parse_and_resolve :: "float_io \<Rightarrow> string \<Rightarrow> config result" where
  "parse_and_resolve fl raw =
     (if raw = [] then Inr default_config
      else bind_res (json_parse fl raw)
             (\<lambda>j. if is_null j then Inr default_config else config_from_json j default_config))"

text \<open>\<open>load\<close>: the new state of the loader and what is returned or thrown.\<close>

definition load :: "float_io \<Rightarrow> (string \<Rightarrow> string option) \<Rightarrow> loader \<Rightarrow> loader \<times> config result" where
  "load fl files ld =
     (let ld1 = ld\<lparr>ld_loaded := True\<rparr>;
          raw = read_file files ld1
      in case parse_and_resolve fl raw of
           Inl e \<Rightarrow> (ld1, Inl e)
         | Inr c \<Rightarrow> (ld1\<lparr>ld_config := c\<rparr>, Inr c))"

definition reload :: "float_io \<Rightarrow> (string \<Rightarrow> string option) \<Rightarrow> loader \<Rightarrow> loader \<times> config result" where
  "reload fl files ld = load fl files ld"

text \<open>\<open>ConfigLoaderFactory::create\<close>; a null pointer is \<open>None\<close>.\<close>

definition create_loader :: "string option \<Rightarrow> loader" where
  "create_loader path =
     (case path of
        Some p \<Rightarrow> if p \<noteq> [] then new_loader p else new_loader ''config.json''
      | None \<Rightarrow> new_loader ''config.json'')"

subsection \<open>Defaults and errors\<close>

lemma read_section_absent [simp]:
  "\<not> json_contains j k \<Longrightarrow> read_section test j k f r = Inr r"
  by (simp add: read_section_def)

lemma read_section_ignored:
  "json_at j k = Inr v \<Longrightarrow> \<not> test v \<Longrightarrow> read_section test j k f r = Inr r"
  by (simp add: read_section_def)

lemma sections_default:
  "server_from_json (JObject []) s = Inr default_server"
  "llm_from_json (JObject []) l = Inr default_llm"
  "browser_from_json (JObject []) b = Inr default_browser"
  by (simp_all add: server_from_json_def llm_from_json_def browser_from_json_def read_field_def
      default_server_def default_llm_def default_browser_def)

lemma load_error_keeps:
  "load fl files ld = (ld', Inl e) \<Longrightarrow> ld' = ld\<lparr>ld_loaded := True\<rparr>"
  by (auto simp: load_def Let_def split: sum.splits)

lemma load_ok_stores:
  "load fl files ld = (ld', Inr c) \<Longrightarrow> ld' = ld\<lparr>ld_loaded := True, ld_config := c\<rparr>"
  by (auto simp: load_def Let_def split: sum.splits)

text \<open>What is loaded depends on the file only, not on what was loaded before.\<close>

lemma load_result: "snd (load fl files ld) = parse_and_resolve fl (read_file files ld)"
  by (simp add: load_def Let_def read_file_def split: sum.splits)

lemma reload_idempotent:
  assumes "load fl files ld = (ld1, r1)"
  shows "reload fl files ld1 = (ld1, r1)"
proof -
  have "read_file files ld1 = read_file files ld"
    using assms by (cases r1) (auto simp: read_file_def dest!: load_error_keeps load_ok_stores)
  with load_result [of fl files ld] assms show ?thesis
    by (cases r1) (auto simp: reload_def load_def Let_def read_file_def split: sum.splits)
qed

subsection \<open>Which exceptions loading throws\<close>

lemma fails_read_section [fails_intros]:
  "(\<And>v. fails_with P (f v)) \<Longrightarrow> fails_with P (read_section test j k f)"
proof -
  assume f: "\<And>v. fails_with P (f v)"
  have "read_section test j k f r = Inl e \<Longrightarrow> P e" for r e
    using f contains_at [of j k]
    by (auto simp: read_section_def fails_with_def bind_res_Inl_iff split: if_splits)
  then show ?thesis by (simp add: fails_with_def)
qed

lemma fails_sections [fails_intros]:
  "fails_with conv_error (server_from_json j)"
  "fails_with conv_error (llm_from_json j)"
  "fails_with conv_error (browser_from_json j)"
  "fails_with conv_error (platform_from_json j)"
  "fails_with conv_error (task_from_json j)"
  unfolding server_from_json_def llm_from_json_def browser_from_json_def platform_from_json_def
    task_from_json_def
  by (intro fails_intros)+

lemma fails_config: "fails_with conv_error (config_from_json j)"
  unfolding config_from_json_def by (intro fails_intros fails_sections [THEN fails_comp])

lemma load_throws: "load fl files ld = (ld', Inl e) \<Longrightarrow> parse_error e \<or> conv_error e"
proof -
  assume "load fl files ld = (ld', Inl e)"
  then have "parse_and_resolve fl (read_file files ld) = Inl e" using load_result [of fl files ld] by simp
  then show ?thesis
    using json_parse_error fails_withD [OF fails_config]
    by (auto simp: parse_and_resolve_def bind_res_Inl_iff split: if_splits)
qed

lemma load_defaults:
  assumes "files (ld_path ld) = None \<or> files (ld_path ld) = Some [] \<or> files (ld_path ld) = Some ''null''"
  shows "snd (load fl files ld) = Inr default_config"
proof -
  have "json_parse fl ''null'' = Inr JNull" by (rule reads_parse [OF reads_scalars(1)])
  with assms show ?thesis by (auto simp: load_result read_file_def parse_and_resolve_def)
qed

subsection \<open>A configuration written as JSON is read exactly\<close>

text \<open>The documented format of the file, as a value.\<close>

definition server_json :: "server_config \<Rightarrow> json" where
  "server_json s = json_object
     [(''port'', json_of_int (sc_port s)), (''auto_open_browser'', JBool (sc_auto_open_browser s))]"

definition llm_json :: "llm_section \<Rightarrow> json" where
  "llm_json l = json_object
     [(''provider'', JString (lc_provider l)), (''api_key'', JString (lc_api_key l)),
      (''base_url'', JString (lc_base_url l)), (''model'', JString (lc_model l)),
      (''temperature'', JFloat (lc_temperature l)), (''max_tokens'', json_of_int (lc_max_tokens l)),
      (''timeout'', json_of_int (lc_timeout l))]"

definition browser_json :: "browser_section \<Rightarrow> json" where
  "browser_json b = json_object
     [(''headless'', JBool (bc_headless b)), (''slow_mo'', json_of_int (bc_slow_mo b)),
      (''viewport_width'', json_of_int (bc_viewport_width b)),
      (''viewport_height'', json_of_int (bc_viewport_height b)),
      (''locale'', JString (bc_locale b)), (''timeout'', json_of_int (bc_timeout b))]"

definition platform_json :: "platform_config \<Rightarrow> json" where
  "platform_json p = json_object
     [(''enabled'', JBool (pc_enabled p)), (''session_file'', JString (pc_session_file p)),
      (''base_url'', JString (pc_base_url p)),
      (''account'', JObject (map (\<lambda>kv. (fst kv, JString (snd kv))) (pc_account p)))]"

definition task_json :: "task_config \<Rightarrow> json" where
  "task_json t = json_object
     [(''name'', JString (tc_name t)), (''intent'', JString (tc_intent t)),
      (''schedule'', JString (tc_schedule t)), (''platforms'', of_string_vec (tc_platforms t))]"

definition config_json :: "config \<Rightarrow> json" where
  "config_json c = json_object
     [(''server'', server_json (cfg_server c)), (''llm'', llm_json (cfg_llm c)),
      (''browser'', browser_json (cfg_browser c)),
      (''platforms'', JObject (map (\<lambda>kv. (fst kv, platform_json (snd kv))) (cfg_platforms c))),
      (''tasks'', JArray (map task_json (cfg_tasks c)))]"

text \<open>Maps are ordered, and the temperature is a number.\<close>

definition wf_config :: "config \<Rightarrow> bool" where
  "wf_config c \<longleftrightarrow>
     double_finite (lc_temperature (cfg_llm c)) \<and> msorted (cfg_platforms c) \<and>
     list_all (\<lambda>(k, p). msorted (pc_account p)) (cfg_platforms c)"

lemma sections_read:
  "server_from_json (norm_json (server_json s)) s0 = Inr s"
  "double_finite (lc_temperature l) \<Longrightarrow> llm_from_json (norm_json (llm_json l)) l0 = Inr l"
  "browser_from_json (norm_json (browser_json b)) b0 = Inr b"
  by (simp_all add: server_from_json_def server_json_def llm_from_json_def llm_json_def
      browser_from_json_def browser_json_def norm_json_value read_field_def)

lemma account_read:
  "for_res (\<lambda>(k, v) c. bind_res (get_string v) (\<lambda>s. Inr (c\<lparr>pc_account := mput k s (pc_account c)\<rparr>)))
     (map (\<lambda>kv. (fst kv, JString (snd kv))) m) p =
   Inr (p\<lparr>pc_account := foldl (\<lambda>m (k, v). mput k v m) (pc_account p) m\<rparr>)"
  by (induction m arbitrary: p) auto

lemma platform_read:
  assumes "msorted (pc_account p)"
  shows "platform_from_json (norm_json (platform_json p)) default_platform = Inr p"
proof -
  have "foldl (\<lambda>m (k, v). mput k v m) [] (pc_account p) = pc_account p"
    using map_list_sorted [OF assms] by (simp add: map_list_def)
  then show ?thesis
    by (simp add: account_read platform_from_json_def platform_json_def norm_json_value read_field_def
        read_section_def default_platform_def comp_def)
qed

lemma task_platforms_read:
  "for_res (\<lambda>p c. bind_res (get_string p) (\<lambda>s. Inr (c\<lparr>tc_platforms := tc_platforms c @ [s]\<rparr>)))
     (map JString ss) t = Inr (t\<lparr>tc_platforms := tc_platforms t @ ss\<rparr>)"
  by (induction ss arbitrary: t) auto

lemma task_read: "task_from_json (norm_json (task_json t)) default_task = Inr t"
  by (simp add: task_platforms_read task_from_json_def task_json_def norm_json_value read_field_def read_section_def
      default_task_def of_string_vec_def comp_def)

lemma platforms_read:
  assumes "list_all (\<lambda>(k, p). msorted (pc_account p)) m"
  shows "for_res (\<lambda>(k, v) c. bind_res (platform_from_json v default_platform)
             (\<lambda>p. Inr (c\<lparr>cfg_platforms := mput k p (cfg_platforms c)\<rparr>)))
           (map (\<lambda>kv. (fst kv, norm_json (platform_json (snd kv)))) m) c =
         Inr (c\<lparr>cfg_platforms := foldl (\<lambda>m (k, v). mput k v m) (cfg_platforms c) m\<rparr>)"
  using assms by (induction m arbitrary: c) (auto simp: platform_read)

lemma tasks_read:
  "for_res (\<lambda>t c. bind_res (task_from_json t default_task)
       (\<lambda>x. Inr (c\<lparr>cfg_tasks := cfg_tasks c @ [x]\<rparr>)))
     (map (\<lambda>t. norm_json (task_json t)) ts) c = Inr (c\<lparr>cfg_tasks := cfg_tasks c @ ts\<rparr>)"
  by (induction ts arbitrary: c) (auto simp: task_read)

lemma is_object_sections [simp]:
  "is_object (norm_json (server_json s))" "is_object (norm_json (llm_json l))"
  "is_object (norm_json (browser_json b))"
  by (simp_all add: server_json_def llm_json_def browser_json_def norm_json_value)

lemma config_read:
  assumes "wf_config c"
  shows "config_from_json (norm_json (config_json c)) default_config = Inr c"
proof -
  have m: "foldl (\<lambda>m (k, v). mput k v m) [] (cfg_platforms c) = cfg_platforms c"
    using assms map_list_sorted [of "cfg_platforms c"] by (simp add: wf_config_def map_list_def)
  have "double_finite (lc_temperature (cfg_llm c))"
    "list_all (\<lambda>(k, p). msorted (pc_account p)) (cfg_platforms c)"
    using assms by (simp_all add: wf_config_def)
  with m show ?thesis
    by (simp add: platforms_read tasks_read config_from_json_def config_json_def norm_json_value read_section_def
        default_config_def sections_read comp_def)
qed

lemma wf_sections:
  "wf_json (server_json s)" "wf_json (llm_json l)" "wf_json (browser_json b)" "wf_json (task_json t)"
  by (simp_all add: server_json_def llm_json_def browser_json_def task_json_def wf_json_object)

lemma wf_platform: "msorted (pc_account p) \<Longrightarrow> wf_json (platform_json p)"
  unfolding platform_json_def
  by (rule wf_json_object) (simp add: msorted_map_snd case_prod_beta list_all_iff)

lemma wf_config_json: "wf_config c \<Longrightarrow> wf_json (config_json c)"
  unfolding config_json_def wf_config_def
  by (rule wf_json_object)
    (auto simp: msorted_map_snd case_prod_beta list_all_iff wf_sections wf_platform)

lemma load_written:
  assumes "float_io_ok fl" "wf_config c" "json_dump_indent fl 2 (config_json c) = Inr t"
  shows "parse_and_resolve fl t = Inr c"
proof -
  have p: "json_parse fl t = Inr (norm_json (config_json c))"
    using assms wf_config_json by (blast intro: parse_dump_indent)
  have "t \<noteq> []" using p by (auto simp: json_parse_def skip_bom_def scan_def parse_value.simps)
  moreover have "\<not> is_null (norm_json (config_json c))"
    by (simp add: config_json_def norm_json_value json_object_def)
  ultimately show ?thesis using p config_read [OF assms(2)] by (simp add: parse_and_resolve_def)
qed

end
