(* ===== verification/Samples.thy ===== *)
theory Samples
  imports Jsonl_Storage Scheduler_Runs Config
begin

text \<open>
  Concrete inputs at which the hypotheses of the properties hold: an empty file system with a home
  directory, a few items, a started scheduler.
\<close>

definition sample_fs :: fs where
  "sample_fs = \<lparr>fs_cwd = [''home''],
     fs_node = (\<lambda>p. if p = [] \<or> p = [''home''] then Some Dir else None)\<rparr>"

definition sample_storage :: jsonl_storage where
  "sample_storage = new_storage ''data''"

lemma sample_paths [simp]:
  "resolve sample_fs (js_data_dir sample_storage) = [''home'', ''data'']"
  "fs_node sample_fs [] = Some Dir" "fs_node sample_fs [''home''] = Some Dir"
  by (simp_all add: sample_fs_def sample_storage_def new_storage_def resolve_def path_step_def)

lemma sample_deep [simp]: "fs_node sample_fs (a # b # p) = None"
  by (simp add: sample_fs_def)

lemma sample_no_file [simp]: "fs_node sample_fs p \<noteq> Some (File s)"
  by (simp add: sample_fs_def)

lemma sample_wf: "wf_fs sample_fs"
proof -
  have "fs_node sample_fs p = Some Dir" if "fs_node sample_fs (p @ [c]) \<noteq> None" for p c
    using that by (cases p) (auto simp: sample_fs_def split: if_splits)
  then show ?thesis by (simp add: wf_fs_def) (simp add: sample_fs_def)
qed

lemma sample_storable: "is_name d \<Longrightarrow> storable sample_storage d sample_fs"
  by (simp add: storable_def sample_wf)

lemma sample_names [simp]: "is_name ''2024-01-02''" "is_name ''2024-01-03''"
  by (simp_all add: is_name_def)

lemma sample_exists: "\<not> fs_exists sample_fs (path_join (path_join (js_data_dir sample_storage) d) x)"
  if "is_name d" "is_name x" for d x
proof -
  have "resolve sample_fs (path_join (path_join ''data'' d) x) = [''home'', ''data'', d, x]"
    using resolve_join [OF that(2), of sample_fs "path_join ''data'' d"]
      resolve_join [OF that(1), of sample_fs "''data''"]
    by (simp add: sample_fs_def resolve_def path_step_def path_join_def)
  then show ?thesis by (simp add: fs_exists_def sample_storage_def new_storage_def)
qed

lemma sample_no_items: "is_name d \<Longrightarrow> load_items fl today sample_storage d pf sample_fs = Inr []"
  using sample_exists [of d "''items.jsonl''"] by (simp add: load_items_def or_today_name)

definition sample_item :: unified_item where
  "sample_item = default_item\<lparr>ui_platform := ''x'', ui_metrics := JObject [(''likes'', JInteger 5)]\<rparr>"

definition bad_item :: unified_item where
  "bad_item = default_item\<lparr>ui_url := [CHR 0xFF]\<rparr>"

lemma sample_items:
  "good_item default_item" "good_item sample_item" "\<not> json_utf8 (item_to_json bad_item)"
  "wf_json (ui_metrics bad_item)"
  "norm_item sample_item =
     default_item\<lparr>ui_platform := ''x'', ui_metrics := JObject [(''likes'', JUnsigned 5)]\<rparr>"
  by code_simp+

lemma sample_doubles: "double_finite 7" "double_finite double_0_7"
  by (simp_all add: double_finite_def double_exp_def double_0_7_def)

definition sample_scheduler :: scheduler where
  "sample_scheduler = (new_scheduler default_scheduler_config)
     \<lparr>us_async := ALive False, us_async_inited := True, us_started := True\<rparr>"

lemma sample_scheduler_start: "sched_start (new_scheduler default_scheduler_config) = Inr sample_scheduler"
  by (simp add: sched_start_def new_scheduler_def sample_scheduler_def)

lemma sample_scheduler_inv: "sched_inv sample_scheduler" "us_started sample_scheduler"
  using started_rested(1) [OF sample_scheduler_start]
  by (simp_all add: rested_def safe_def sample_scheduler_def)

end
