(* ===== verification/Storage_Spec.thy ===== *)
theory Storage_Spec
  imports Jsonl_Storage
begin

text \<open>
  The interface \<open>Storage\<close> (src/wheel/storage/storage.h) and what it promises: a store that holds, for
  every date, a list of items, a report and a summary. \<open>storage_call\<close> is a call on \<open>JsonlStorage\<close> with
  what it returns, \<open>store_call\<close> the same call on the store; the file system represents the store as long
  as every date in use can be stored, and calls with valid UTF-8 keep it so and return what the store
  returns.
\<close>

datatype storage_op =
    SaveItems "unified_item list" string
  | LoadItems string string
  | SaveReport string string
  | LoadReport string
  | SaveSummary json string
  | LoadSummary string

datatype storage_reply = Done | Items "unified_item list" | Report string | Summary json

definition answer :: "('a \<Rightarrow> storage_reply) \<Rightarrow> fs \<times> 'a result \<Rightarrow> fs \<times> storage_reply result" where
  "answer reply r = (fst r, bind_res (snd r) (\<lambda>x. Inr (reply x)))"

fun storage_call :: "float_io \<Rightarrow> string \<Rightarrow> jsonl_storage \<Rightarrow> storage_op \<Rightarrow> fs \<Rightarrow> fs \<times> storage_reply result" where
  "storage_call fl today st (SaveItems is date) f = answer (\<lambda>_. Done) (save_items fl today st is date f)"
| "storage_call fl today st (LoadItems date platform) f = answer Items (f, load_items fl today st date platform f)"
| "storage_call fl today st (SaveReport markdown date) f = answer (\<lambda>_. Done) (save_report today st markdown date f)"
| "storage_call fl today st (LoadReport date) f = answer Report (f, load_report today st date f)"
| "storage_call fl today st (SaveSummary summary date) f = answer (\<lambda>_. Done) (save_summary fl today st summary date f)"
| "storage_call fl today st (LoadSummary date) f = answer Summary (f, load_summary fl today st date f)"

fun storage_calls ::
  "float_io \<Rightarrow> string \<Rightarrow> jsonl_storage \<Rightarrow> storage_op list \<Rightarrow> fs \<Rightarrow> fs \<times> storage_reply result list" where
  "storage_calls fl today st [] f = (f, [])"
| "storage_calls fl today st (p # ps) f =
     (case storage_call fl today st p f of (f1, r) \<Rightarrow>
        (case storage_calls fl today st ps f1 of (f2, rs) \<Rightarrow> (f2, r # rs)))"

subsection \<open>The store\<close>

record day =
  dy_items :: "unified_item list"
  dy_report :: string
  dy_summary :: json

definition empty_day :: day where
  "empty_day = \<lparr>dy_items = [], dy_report = [], dy_summary = JNull\<rparr>"

type_synonym day_store = "string \<Rightarrow> day"

fun op_date :: "storage_op \<Rightarrow> string" where
  "op_date (SaveItems is date) = date"
| "op_date (LoadItems date platform) = date"
| "op_date (SaveReport markdown date) = date"
| "op_date (LoadReport date) = date"
| "op_date (SaveSummary summary date) = date"
| "op_date (LoadSummary date) = date"

fun day_call :: "storage_op \<Rightarrow> day \<Rightarrow> day \<times> storage_reply" where
  "day_call (SaveItems is date) a = (a\<lparr>dy_items := dy_items a @ map norm_item is\<rparr>, Done)"
| "day_call (LoadItems date platform) a =
     (a, Items (if platform = [] then dy_items a else filter (\<lambda>i. ui_platform i = platform) (dy_items a)))"
| "day_call (SaveReport markdown date) a = (a\<lparr>dy_report := markdown\<rparr>, Done)"
| "day_call (LoadReport date) a = (a, Report (dy_report a))"
| "day_call (SaveSummary summary date) a = (a\<lparr>dy_summary := norm_json summary\<rparr>, Done)"
| "day_call (LoadSummary date) a = (a, Summary (dy_summary a))"

definition store_call :: "string \<Rightarrow> storage_op \<Rightarrow> day_store \<Rightarrow> day_store \<times> storage_reply" where
  "store_call today p a =
     (let d = or_today today (op_date p); (b, r) = day_call p (a d) in (a(d := b), r))"

fun store_calls :: "string \<Rightarrow> storage_op list \<Rightarrow> day_store \<Rightarrow> day_store \<times> storage_reply list" where
  "store_calls today [] a = (a, [])"
| "store_calls today (p # ps) a =
     (case store_call today p a of (b, r) \<Rightarrow> (case store_calls today ps b of (c, rs) \<Rightarrow> (c, r # rs)))"

text \<open>What is saved is valid UTF-8.\<close>

fun op_good :: "storage_op \<Rightarrow> bool" where
  "op_good (SaveItems is date) \<longleftrightarrow> list_all good_item is"
| "op_good (SaveSummary summary date) \<longleftrightarrow> wf_json summary \<and> json_utf8 summary"
| "op_good _ \<longleftrightarrow> True"

subsection \<open>The file system represents the store\<close>

definition represents ::
  "float_io \<Rightarrow> string \<Rightarrow> jsonl_storage \<Rightarrow> string set \<Rightarrow> fs \<Rightarrow> day_store \<Rightarrow> bool" where
  "represents fl today st dates f a \<longleftrightarrow> (\<forall>d \<in> dates. storable st d f \<and>
     load_items fl today st d [] f = Inr (dy_items (a d)) \<and>
     load_report today st d f = Inr (dy_report (a d)) \<and>
     load_summary fl today st d f = Inr (dy_summary (a d)))"

lemma representsD:
  assumes "represents fl today st dates f a" "d \<in> dates"
  shows "storable st d f" "is_name d" "load_items fl today st d [] f = Inr (dy_items (a d))"
    "load_report today st d f = Inr (dy_report (a d))" "load_summary fl today st d f = Inr (dy_summary (a d))"
  using assms by (auto simp: represents_def storable_def)

text \<open>What a call gives is determined by the name of the date.\<close>

lemma calls_by_name:
  assumes "is_name d" "d = or_today today date"
  shows "load_items fl today st date pf f = load_items fl today st d pf f"
    "load_report today st date f = load_report today st d f"
    "load_summary fl today st date f = load_summary fl today st d f"
  using assms or_today_name [OF assms(1), of today]
  by (simp_all add: load_items_def load_report_def load_summary_def)

text \<open>A file of one date is written: the other files are read as before.\<close>

lemma others_kept:
  assumes w: "only_file (resolve f (js_data_dir st) @ [d, x]) (Suc (length (resolve f (js_data_dir st)))) f g"
    and d': "is_name d'"
  shows "(d', ''items.jsonl'') \<noteq> (d, x) \<Longrightarrow> load_items fl today st d' pf g = load_items fl today st d' pf f"
    and "(d', ''report.md'') \<noteq> (d, x) \<Longrightarrow> load_report today st d' g = load_report today st d' f"
    and "(d', ''summary.json'') \<noteq> (d, x) \<Longrightarrow> load_summary fl today st d' g = load_summary fl today st d' f"
proof -
  have r: "resolve g p = resolve f p" for p using w by (intro resolve_cwd) (simp add: only_file_def)
  have n: "fs_node g (resolve f (js_data_dir st) @ [d', y]) = fs_node f (resolve f (js_data_dir st) @ [d', y])"
    if "(d', y) \<noteq> (d, x)" for y
    using w that by (auto simp: only_file_def)
  note eqs = load_items_eq [OF d' or_today_name [OF d', symmetric]] load_report_eq [OF d' or_today_name [OF d', symmetric]]
    load_summary_eq [OF d' or_today_name [OF d', symmetric]]
  show "load_items fl today st d' pf g = load_items fl today st d' pf f" if "(d', ''items.jsonl'') \<noteq> (d, x)"
    using n [OF that] by (simp add: eqs r)
  show "load_report today st d' g = load_report today st d' f" if "(d', ''report.md'') \<noteq> (d, x)"
    using n [OF that] by (simp add: eqs r)
  show "load_summary fl today st d' g = load_summary fl today st d' f" if "(d', ''summary.json'') \<noteq> (d, x)"
    using n [OF that] by (simp add: eqs r)
qed

lemma represents_write:
  assumes a: "represents fl today st dates f a" and d: "d \<in> dates"
    and w: "only_file (resolve f (js_data_dir st) @ [d, x]) (Suc (length (resolve f (js_data_dir st)))) f g"
    and s: "\<exists>s. fs_node g (resolve f (js_data_dir st) @ [d, x]) = Some (File s) \<and> (x = ''items.jsonl'' \<longrightarrow> whole_lines s)"
    and b: "load_items fl today st d [] g = Inr (dy_items b)" "load_report today st d g = Inr (dy_report b)"
      "load_summary fl today st d g = Inr (dy_summary b)"
  shows "represents fl today st dates g (a(d := b))"
  unfolding represents_def
proof
  fix d'
  assume d': "d' \<in> dates"
  note old = representsD [OF a d']
  have st: "storable st d' g"
    using storable_only_file [OF old(1) representsD(2) [OF a d] w s] .
  show "storable st d' g \<and> load_items fl today st d' [] g = Inr (dy_items ((a(d := b)) d')) \<and>
     load_report today st d' g = Inr (dy_report ((a(d := b)) d')) \<and>
     load_summary fl today st d' g = Inr (dy_summary ((a(d := b)) d'))"
  proof (cases "d' = d")
    case True
    with st b show ?thesis by simp
  next
    case False
    with st old(3-5) others_kept [OF w old(2)] show ?thesis by simp
  qed
qed

lemma call_represented:
  assumes a: "represents fl today st dates f a" and fl: "float_io_ok fl"
    and p: "op_good p" "or_today today (op_date p) \<in> dates"
  shows "\<exists>f' b r. storage_call fl today st p f = (f', Inr r) \<and> store_call today p a = (b, r) \<and>
    represents fl today st dates f' b"
proof -
  define d where "d = or_today today (op_date p)"
  note d = representsD [OF a p(2) [folded d_def]]
  have dn: "d = or_today today d" using or_today_name [OF d(2)] by simp
  have same: "represents fl today st dates f (a(d := a d))" using a by simp
  let ?r = "resolve f (js_data_dir st)"
  show ?thesis
  proof (cases p)
    case (LoadItems date pf)
    then have "d = or_today today date" by (simp add: d_def)
    note by_name = calls_by_name [OF d(2) this]
    show ?thesis
      using same by (auto simp: LoadItems answer_def by_name load_items_filter [of _ _ _ _ pf] d(3) store_call_def Let_def
          d_def [symmetric, unfolded LoadItems op_date.simps])
  next
    case (LoadReport date)
    then have "d = or_today today date" by (simp add: d_def)
    note by_name = calls_by_name [OF d(2) this]
    show ?thesis
      using same by (auto simp: LoadReport answer_def by_name d(4) store_call_def Let_def
          d_def [symmetric, unfolded LoadReport op_date.simps])
  next
    case (LoadSummary date)
    then have "d = or_today today date" by (simp add: d_def)
    note by_name = calls_by_name [OF d(2) this]
    show ?thesis
      using same by (auto simp: LoadSummary answer_def by_name d(5) store_call_def Let_def
          d_def [symmetric, unfolded LoadSummary op_date.simps])
  next
    case (SaveItems "is" date)
    then have date: "d = or_today today date" by (simp add: d_def)
    have good: "list_all good_item is" using p(1) SaveItems by simp
    obtain g where g: "save_items fl today st is date f = (g, Inr ())"
      "only_file (?r @ [d, ''items.jsonl'']) (Suc (length ?r)) f g"
      "fs_node g (?r @ [d, ''items.jsonl'']) = Some (File (old_content f (?r @ [d, ''items.jsonl'']) @ jsonl (fst (dump_prefix fl is))))"
      using save_items_effect [OF d(1) date, of fl "is"] dump_prefix_good [OF good, of fl] by auto
    have "whole_lines (old_content f (?r @ [d, ''items.jsonl'']))"
      using d(1) by (auto simp: storable_def old_content_def split: option.split node.split)
    then have w: "\<exists>s. fs_node g (?r @ [d, ''items.jsonl'']) = Some (File s) \<and> (''items.jsonl'' = ''items.jsonl'' \<longrightarrow> whole_lines s)"
      using g(3) by (simp add: whole_lines_append whole_lines_jsonl)
    have metrics: "list_all (\<lambda>i. wf_json (ui_metrics i)) is"
      using good by (auto simp: list_all_iff good_item_def)
    have name: "save_items fl today st is d f = (g, Inr ())"
      using g(1) by (simp add: save_items_def date [symmetric] or_today_name [OF d(2)])
    have items: "load_items fl today st d [] g = Inr (dy_items (a d) @ map norm_item is)"
      using items_loaded_after_save [OF fl d(1) metrics, of today] dump_prefix_good [OF good, of fl] d(3) by (simp add: name)
    have "represents fl today st dates g (a(d := (a d)\<lparr>dy_items := dy_items (a d) @ map norm_item is\<rparr>))"
      by (rule represents_write [OF a p(2) [folded d_def] g(2) w])
        (use items d(4,5) others_kept [OF g(2) d(2)] in simp_all)
    then show ?thesis
      by (simp add: SaveItems answer_def g(1) store_call_def Let_def d_def [symmetric, unfolded SaveItems op_date.simps])
  next
    case (SaveReport md date)
    then have date: "d = or_today today date" by (simp add: d_def)
    obtain g where g: "save_report today st md date f = (g, Inr ())" "only_file (?r @ [d, ''report.md'']) (Suc (length ?r)) f g"
      "fs_node g (?r @ [d, ''report.md'']) = Some (File md)"
      using save_report_effect [OF d(1) date] by blast
    have r: "resolve g q = resolve f q" for q using g(2) by (intro resolve_cwd) (simp add: only_file_def)
    have "represents fl today st dates g (a(d := (a d)\<lparr>dy_report := md\<rparr>))"
      by (rule represents_write [OF a p(2) [folded d_def] g(2)])
        (use g(3) d(3,5) others_kept [OF g(2) d(2)] load_report_eq [OF d(2) dn] r in simp_all)
    then show ?thesis
      by (simp add: SaveReport answer_def g(1) store_call_def Let_def d_def [symmetric, unfolded SaveReport op_date.simps])
  next
    case (SaveSummary j date)
    then have date: "d = or_today today date" by (simp add: d_def)
    have j: "wf_json j" "json_utf8 j" using p(1) SaveSummary by simp_all
    obtain t where t: "json_dump_indent fl 2 j = Inr t"
      using dump_val_ok_iff [of fl True 2 0 j] j(2) by (auto simp: json_dump_indent_def)
    obtain g where g: "save_summary fl today st j date f = (g, Inr ())" "only_file (?r @ [d, ''summary.json'']) (Suc (length ?r)) f g"
      "fs_node g (?r @ [d, ''summary.json'']) = Some (File t)"
      using save_summary_effect [OF d(1) date t] by blast
    have r: "resolve g q = resolve f q" for q using g(2) by (intro resolve_cwd) (simp add: only_file_def)
    have "represents fl today st dates g (a(d := (a d)\<lparr>dy_summary := norm_json j\<rparr>))"
      by (rule represents_write [OF a p(2) [folded d_def] g(2)])
        (use g(3) d(3,4) others_kept [OF g(2) d(2)] load_summary_eq [OF d(2) dn] r parse_dump_indent [OF fl j(1) t] in simp_all)
    then show ?thesis
      by (simp add: SaveSummary answer_def g(1) store_call_def Let_def d_def [symmetric, unfolded SaveSummary op_date.simps])
  qed
qed

lemma calls_represented:
  assumes "represents fl today st dates f a" "float_io_ok fl"
    and "list_all op_good ps" "\<forall>p \<in> set ps. or_today today (op_date p) \<in> dates"
  shows "\<exists>f' b rs. storage_calls fl today st ps f = (f', map Inr rs) \<and> store_calls today ps a = (b, rs) \<and>
    represents fl today st dates f' b"
  using assms
proof (induction ps arbitrary: f a)
  case (Cons p ps)
  then obtain f1 b1 r where 1: "storage_call fl today st p f = (f1, Inr r)" "store_call today p a = (b1, r)"
    "represents fl today st dates f1 b1"
    using call_represented [OF Cons.prems(1,2), of p] by auto
  obtain f' b rs where "storage_calls fl today st ps f1 = (f', map Inr rs)" "store_calls today ps b1 = (b, rs)"
    "represents fl today st dates f' b"
    using Cons.IH [OF 1(3) Cons.prems(2)] Cons.prems(3,4) by auto
  with 1 show ?case by simp
qed simp

text \<open>A data directory without files represents the empty store.\<close>

lemma represents_empty:
  assumes "\<forall>d \<in> dates. storable st d f \<and> (\<forall>x \<in> set file_names. fs_node f (resolve f (js_data_dir st) @ [d, x]) = None)"
  shows "represents fl today st dates f (\<lambda>_. empty_day)"
  unfolding represents_def
proof
  fix d
  assume "d \<in> dates"
  with assms have d: "storable st d f" "is_name d" "\<And>x. x \<in> set file_names \<Longrightarrow> fs_node f (resolve f (js_data_dir st) @ [d, x]) = None"
    by (auto simp: storable_def)
  note dn = or_today_name [OF d(2), of today, symmetric]
  show "storable st d f \<and> load_items fl today st d [] f = Inr (dy_items empty_day) \<and>
     load_report today st d f = Inr (dy_report empty_day) \<and> load_summary fl today st d f = Inr (dy_summary empty_day)"
    using d(1,3) load_items_eq [OF d(2) dn] load_report_eq [OF d(2) dn] load_summary_eq [OF d(2) dn]
    by (simp add: file_names_def empty_day_def)
qed

end
