(* ===== verification/Loop_Queue.thy ===== *)
theory Loop_Queue
  imports Lynne_Prelude
begin

text \<open>
  The contract between the scheduler and whoever posts to it: posting appends to a queue and, while the
  scheduler runs, wakes the loop; a turn of a woken loop takes the whole queue. The scheduler itself, the
  browser manager's view of it and the WebSocket client's view of it all meet this contract.
\<close>

locale loop_queue =
  fixes queue :: "'s \<Rightarrow> 't list"
    and awake :: "'s \<Rightarrow> bool"
    and running :: "'s \<Rightarrow> bool"
    and post :: "'t \<Rightarrow> 's \<Rightarrow> 's"
    and turn :: "'s \<Rightarrow> 't list \<times> 's"
  assumes post_queue: "queue (post t s) = queue s @ [t]"
    and post_running: "running (post t s) = running s"
    and post_awake: "awake (post t s) \<longleftrightarrow> awake s \<or> running s"
    and turn_idle: "\<not> awake s \<Longrightarrow> turn s = ([], s)"
    and turn_takes: "awake s \<Longrightarrow> fst (turn s) = queue s \<and> queue (snd (turn s)) = [] \<and> \<not> awake (snd (turn s))"
begin

lemma posts:
  "queue (fold post ts s) = queue s @ ts" "running (fold post ts s) = running s"
  "awake (fold post ts s) \<longleftrightarrow> awake s \<or> running s \<and> ts \<noteq> []"
proof -
  show "queue (fold post ts s) = queue s @ ts" by (induction ts arbitrary: s) (simp_all add: post_queue)
  show "running (fold post ts s) = running s" by (induction ts arbitrary: s) (simp_all add: post_running)
  show "awake (fold post ts s) \<longleftrightarrow> awake s \<or> running s \<and> ts \<noteq> []"
    by (induction ts arbitrary: s) (auto simp: post_awake post_running)
qed

text \<open>What is posted while the scheduler runs is taken by the next turn, in order, and not again.\<close>

lemma next_turn:
  assumes "running s" "ts \<noteq> []"
  shows "fst (turn (fold post ts s)) = queue s @ ts" "fst (turn (snd (turn (fold post ts s)))) = []"
proof -
  have "awake (fold post ts s)" using assms posts(3) by simp
  note t = turn_takes [OF this]
  from t show "fst (turn (fold post ts s)) = queue s @ ts" by (simp add: posts(1))
  from t show "fst (turn (snd (turn (fold post ts s)))) = []" by (simp add: turn_idle)
qed

text \<open>What is posted while it is stopped stays queued.\<close>

lemma stopped_turn:
  assumes "\<not> running s" "\<not> awake s"
  shows "turn (fold post ts s) = ([], fold post ts s)" "queue (fold post ts s) = queue s @ ts"
proof -
  have "\<not> awake (fold post ts s)" using assms posts(3) by simp
  then show "turn (fold post ts s) = ([], fold post ts s)" by (rule turn_idle)
  show "queue (fold post ts s) = queue s @ ts" by (rule posts(1))
qed

end

end
