(* ===== verification/Scheduler_Contracts.thy ===== *)
theory Scheduler_Contracts
  imports Uv_Scheduler Loop_Queue
begin

text \<open>
  What the scheduler promises to those who use it: a table of jobs and a queue of callbacks.
  For the table, the interface promises that \<open>add_job\<close> and \<open>remove_job\<close> work like the
  update and the deletion of a finite map from names to intervals and callbacks; what follows for
  sequences of calls is proved from that promise. The scheduler's timers, contexts and handles
  implement the table.
\<close>

datatype 'c job_op = AddOp string u64 'c | RemoveOp string

fun table_op :: "'c job_op \<Rightarrow> (string \<Rightarrow> (u64 \<times> 'c) option) \<Rightarrow> string \<Rightarrow> (u64 \<times> 'c) option" where
  "table_op (AddOp name ms cb) jobs = jobs(name \<mapsto> (ms, cb))"
| "table_op (RemoveOp name) jobs = jobs(name := None)"

fun op_name :: "'c job_op \<Rightarrow> string" where
  "op_name (AddOp name ms cb) = name"
| "op_name (RemoveOp name) = name"

locale job_table =
  fixes inv :: "'s \<Rightarrow> bool"
    and jobs :: "'s \<Rightarrow> string \<Rightarrow> (u64 \<times> 'c) option"
    and add :: "string \<Rightarrow> u64 \<Rightarrow> 'c \<Rightarrow> 's \<Rightarrow> 's result"
    and remove :: "string \<Rightarrow> 's \<Rightarrow> 's result"
  assumes add_law: "inv s \<Longrightarrow> \<exists>s'. add name ms cb s = Inr s' \<and> inv s' \<and> jobs s' = (jobs s)(name \<mapsto> (ms, cb))"
    and remove_law: "inv s \<Longrightarrow> \<exists>s'. remove name s = Inr s' \<and> inv s' \<and> jobs s' = (jobs s)(name := None)"
begin

definition perform :: "'c job_op \<Rightarrow> 's \<Rightarrow> 's result" where
  "perform p s = (case p of AddOp name ms cb \<Rightarrow> add name ms cb s | RemoveOp name \<Rightarrow> remove name s)"

lemma perform_op: "inv s \<Longrightarrow> \<exists>s'. perform p s = Inr s' \<and> inv s' \<and> jobs s' = table_op p (jobs s)"
  using add_law remove_law by (cases p) (simp_all add: perform_def)

lemma perform_all:
  "inv s \<Longrightarrow> \<exists>s'. for_res perform ps s = Inr s' \<and> inv s' \<and> jobs s' = fold table_op ps (jobs s)"
proof (induction ps arbitrary: s)
  case (Cons p ps)
  from perform_op [OF Cons.prems] obtain s1 where "perform p s = Inr s1" "inv s1" "jobs s1 = table_op p (jobs s)" by blast
  with Cons.IH [of s1] show ?case by simp
qed simp

text \<open>The last operation on a name decides.\<close>

lemma other_names: "name \<notin> op_name ` set ps \<Longrightarrow> fold table_op ps js name = js name"
proof (induction ps arbitrary: js)
  case (Cons p ps)
  then show ?case by (cases p) simp_all
qed simp

lemma last_decides:
  assumes "inv s" "op_name p \<notin> op_name ` set qs"
  shows "\<exists>s'. for_res perform (ps @ p # qs) s = Inr s' \<and> inv s' \<and>
    jobs s' (op_name p) = (case p of AddOp name ms cb \<Rightarrow> Some (ms, cb) | RemoveOp name \<Rightarrow> None)"
proof -
  from perform_all [OF assms(1), of "ps @ p # qs"] obtain s' where
    "for_res perform (ps @ p # qs) s = Inr s'" "inv s'" "jobs s' = fold table_op (ps @ p # qs) (jobs s)" by blast
  with other_names [OF assms(2)] show ?thesis by (cases p) simp_all
qed

end

subsection \<open>The scheduler implements the table\<close>

definition sched_jobs :: "scheduler \<Rightarrow> string \<Rightarrow> (u64 \<times> callback) option" where
  "sched_jobs s name =
     (case map_of (us_timers s) name of
        None \<Rightarrow> None
      | Some h \<Rightarrow>
          (case (map_of (us_ctx s) h, map_of (lp_timers (us_loop s)) h) of
             (Some c, Some t) \<Rightarrow> Some (tm_repeat t, cx_callback c)
           | _ \<Rightarrow> None))"

lemma handle_names: "sched_inv s \<Longrightarrow> map_of (us_timers s) m = Some h \<Longrightarrow> map_of (us_timers s) n = Some h \<Longrightarrow> m = n"
  by (metis sched_inv_timer option.inject)

lemma handle_bound: "sched_inv s \<Longrightarrow> map_of (us_timers s) n = Some h \<Longrightarrow> h < us_next s"
  unfolding sched_inv_def by blast

lemma sched_jobs_add:
  assumes "sched_inv s"
  shows "\<exists>s'. add_job name ms cb s = Inr s' \<and> sched_inv s' \<and> sched_jobs s' = (sched_jobs s)(name \<mapsto> (ms, cb))"
proof -
  from add_job_contract [OF assms, of name ms cb] obtain s' where s': "add_job name ms cb s = Inr s'" "sched_inv s'"
    "us_timers s' = mput name (us_next s) (us_timers s)"
    "map_of (us_ctx s') (us_next s) = Some \<lparr>cx_name = name, cx_callback = cb, cx_owner = True\<rparr>"
    "\<exists>t. map_of (lp_timers (us_loop s')) (us_next s) = Some t \<and> tm_repeat t = ms"
    and other: "\<And>h. h \<noteq> us_next s \<Longrightarrow> map_of (us_timers s) name \<noteq> Some h \<Longrightarrow>
      map_of (lp_timers (us_loop s')) h = map_of (lp_timers (us_loop s)) h \<and> map_of (us_ctx s') h = map_of (us_ctx s) h"
    by auto
  have "sched_jobs s' n = ((sched_jobs s)(name \<mapsto> (ms, cb))) n" for n
  proof (cases "n = name")
    case True
    with s' show ?thesis by (auto simp: sched_jobs_def)
  next
    case False
    then have "map_of (us_timers s') n = map_of (us_timers s) n" using s'(3) by simp
    moreover have "map_of (lp_timers (us_loop s')) h = map_of (lp_timers (us_loop s)) h \<and> map_of (us_ctx s') h = map_of (us_ctx s) h"
      if "map_of (us_timers s) n = Some h" for h
      using other [of h] handle_bound [OF assms that] handle_names [OF assms that, of name] False by blast
    ultimately show ?thesis using False by (simp add: sched_jobs_def split: option.split)
  qed
  with s'(1,2) show ?thesis by blast
qed

lemma sched_jobs_remove:
  assumes "sched_inv s"
  shows "\<exists>s'. remove_job name s = Inr s' \<and> sched_inv s' \<and> sched_jobs s' = (sched_jobs s)(name := None)"
proof -
  from remove_job_eq [OF assms, of name] obtain s' where s': "remove_job name s = Inr s'" "sched_inv s'" "removed name s s'" by blast
  have "sched_jobs s' n = ((sched_jobs s)(name := None)) n" for n
  proof (cases "n = name")
    case True
    with s'(3) assms show ?thesis by (simp add: sched_jobs_def removed_def sched_inv_def)
  next
    case False
    have "map_of (us_timers s') n = map_of (us_timers s) n" using False s'(3) assms by (simp add: removed_def sched_inv_def)
    moreover have "map_of (us_timers s) name \<noteq> Some h" if "map_of (us_timers s) n = Some h" for h
      using handle_names [OF assms that, of name] False by blast
    ultimately show ?thesis using False s'(3) by (simp add: sched_jobs_def removed_def split: option.split)
  qed
  with s'(1,2) show ?thesis by blast
qed

interpretation table: job_table sched_inv sched_jobs Uv_Scheduler.add_job Uv_Scheduler.remove_job
  by unfold_locales (rule sched_jobs_add sched_jobs_remove; assumption)+

text \<open>The operations as the interface performs them.\<close>

fun sched_op :: "callback job_op \<Rightarrow> scheduler \<Rightarrow> scheduler result" where
  "sched_op (AddOp name ms cb) s = add_job name ms cb s"
| "sched_op (RemoveOp name) s = remove_job name s"

lemma sched_op_perform: "sched_op = table.perform"
proof (intro ext)
  fix p s
  show "sched_op p s = table.perform p s" by (cases p) (simp_all add: table.perform_def)
qed

subsection \<open>The queue of callbacks\<close>

definition sched_post :: "callback \<Rightarrow> scheduler \<Rightarrow> scheduler" where
  "sched_post cb s =
     (case post cb s of Inr s' \<Rightarrow> s' | Inl _ \<Rightarrow> s\<lparr>us_post_queue := us_post_queue s @ [cb]\<rparr>)"

definition sched_turn :: "scheduler \<Rightarrow> callback list \<times> scheduler" where
  "sched_turn s =
     (if us_async s = ALive True then (us_post_queue s, s\<lparr>us_async := ALive False, us_post_queue := []\<rparr>)
      else ([], s))"

interpretation posted: loop_queue us_post_queue "\<lambda>s. us_async s = ALive True" "\<lambda>s. \<exists>p. us_async s = ALive p"
    sched_post sched_turn
  by unfold_locales
    (auto simp: sched_post_def sched_turn_def post_def uv_async_send_def split: async_handle.splits)

lemma drain_is_turn:
  "us_async s = ALive True \<Longrightarrow>
   drain_post_queue (s\<lparr>us_async := ALive False\<rparr>) = for_res run_cb (fst (sched_turn s)) (snd (sched_turn s))"
  by (simp add: drain_post_queue_def sched_turn_def)

end
