(* ===== verification/Llm_Engine.thy ===== *)
theory Llm_Engine
  imports Json_Parse Module_Models
begin

text \<open>
  \<open>DeepSeekEngine\<close> (src/wheel/llm/imp/deepseek_engine.cpp): the base URL, the request of \<open>chat\<close>, the
  HTTP call on the worker thread with every outcome, and the callback afterwards. The environment
  variables and the readable files are parameters, and so is what the HTTPS client answers; the
  scheduler is seen through its queue of works (theory \<open>Uv_Scheduler\<close>).
\<close>

subsection \<open>The base URL\<close>

definition default_base_url :: string where
  "default_base_url = ''https://api.deepseek.com/v1''"

text \<open>The host and port of the part before the path; \<open>port\<close> is the default of the scheme.\<close>

definition split_host_port :: "string \<Rightarrow> int32 \<Rightarrow> (string \<times> int32) result" where
  "split_host_port host_port port =
     (case char_find (CHR '':'') host_port of
        None \<Rightarrow> Inr (host_port, port)
      | Some colon \<Rightarrow>
          bind_res (bind_res (substr_from (colon + 1) host_port) stoi)
            (\<lambda>p. Inr (take colon host_port, p)))"

text \<open>\<open>None\<close>: the function returns false.\<close>

definition parse_base_url :: "string \<Rightarrow> (string \<times> int32 \<times> string) option result" where
  "parse_base_url url =
     (let scheme = (if starts_with ''https://'' url then Some (8, 443)
                    else if starts_with ''http://'' url then Some (7, 80) else None)
      in case scheme of
           None \<Rightarrow> Inr None
         | Some (scheme_len, port) \<Rightarrow>
             (let s = drop scheme_len url;
                  (host_port, path) = (case char_find (CHR ''/'') s of
                     None \<Rightarrow> (s, []) | Some slash \<Rightarrow> (take slash s, drop slash s))
              in bind_res (split_host_port host_port port) (\<lambda>(host, p). Inr (Some (host, p, path)))))"

subsection \<open>State\<close>

record environment =
  env_ssl_cert_file :: "string option"
  env_api_key :: "string option"
  env_readable :: "string \<Rightarrow> bool"

definition ca_cert_files :: "string list" where
  "ca_cert_files =
     [''/etc/ssl/certs/ca-certificates.crt'', ''/etc/pki/tls/certs/ca-bundle.crt'', ''/etc/ssl/cert.pem'']"

definition detect_ca_cert_path :: "environment \<Rightarrow> string" where
  "detect_ca_cert_path env =
     (case env_ssl_cert_file env of
        Some f \<Rightarrow> if f \<noteq> [] then f else (case find (env_readable env) ca_cert_files of None \<Rightarrow> [] | Some p \<Rightarrow> p)
      | None \<Rightarrow> (case find (env_readable env) ca_cert_files of None \<Rightarrow> [] | Some p \<Rightarrow> p))"

record chat_ctx =
  ct_host :: string
  ct_port :: int32
  ct_path :: string
  ct_body :: string
  ct_api_key :: string
  ct_timeout_sec :: int32
  ct_ca_cert_path :: string
  ct_result :: json
  ct_ok :: bool
  ct_error :: string

text \<open>
  A callback of the caller is a number, or \<open>None\<close> when it is empty. A call is recorded; what it does
  is the caller's next step, as the engine does nothing after it.
\<close>

datatype llm_value = LlmResult json | LlmError string

record llm_engine =
  le_config :: llm_config
  le_started :: bool
  le_work :: "(chat_ctx \<times> nat option \<times> nat option) list"
  le_done :: "(chat_ctx \<times> nat option \<times> nat option) list"
  le_log :: "(nat \<times> llm_value) list"

definition new_engine :: "llm_config \<Rightarrow> llm_engine" where
  "new_engine c = \<lparr>le_config = c, le_started = False, le_work = [], le_done = [], le_log = []\<rparr>"

text \<open>\<open>LLMEngineFactory\<close>.\<close>

definition create_engine :: "llm_config \<Rightarrow> llm_engine" where
  "create_engine c = new_engine c"

definition engine_name :: "llm_engine \<Rightarrow> string" where
  "engine_name e = ''llm('' @ lm_provider (le_config e) @ '':'' @ lm_model (le_config e) @ '')''"

definition engine_health_check :: "llm_engine \<Rightarrow> bool" where
  "engine_health_check e = le_started e"

definition note_llm :: "nat option \<Rightarrow> llm_value \<Rightarrow> llm_engine \<Rightarrow> llm_engine" where
  "note_llm cb v e = (case cb of None \<Rightarrow> e | Some n \<Rightarrow> e\<lparr>le_log := le_log e @ [(n, v)]\<rparr>)"

subsection \<open>\<open>chat\<close>\<close>

definition chat_body :: "llm_config \<Rightarrow> json \<Rightarrow> json \<Rightarrow> json" where
  "chat_body c messages tools = json_object
     ([(''model'', JString (lm_model c)), (''messages'', messages),
       (''temperature'', JFloat (lm_temperature c)), (''max_tokens'', json_of_int (lm_max_tokens c))] @
      (if is_null tools then [] else [(''tools'', tools)]))"

definition chat_request :: "environment \<Rightarrow> llm_config \<Rightarrow> string \<Rightarrow> int32 \<Rightarrow> string \<Rightarrow> string \<Rightarrow> chat_ctx" where
  "chat_request env c host port path_prefix body_str =
     \<lparr>ct_host = host, ct_port = port, ct_path = path_prefix @ ''/chat/completions'', ct_body = body_str,
      ct_api_key = (if lm_api_key c \<noteq> [] then lm_api_key c
                    else case env_api_key env of None \<Rightarrow> [] | Some k \<Rightarrow> k),
      ct_timeout_sec = lm_timeout c,
      ct_ca_cert_path = (if lm_ca_cert_path c \<noteq> [] then lm_ca_cert_path c else detect_ca_cert_path env),
      ct_result = JNull, ct_ok = False, ct_error = []\<rparr>"

text \<open>An exception of \<open>std::stoi\<close> or \<open>dump\<close> leaves \<open>chat\<close> before anything is queued.\<close>

definition chat ::
  "float_io \<Rightarrow> environment \<Rightarrow> json \<Rightarrow> nat option \<Rightarrow> nat option \<Rightarrow> json \<Rightarrow> llm_engine \<Rightarrow> llm_engine \<times> unit result" where
  "chat fl env messages on_result on_error tools e =
     (let c = le_config e;
          base_url = (if lm_base_url c = [] then default_base_url else lm_base_url c)
      in case parse_base_url base_url of
           Inl x \<Rightarrow> (e, Inl x)
         | Inr None \<Rightarrow> (note_llm on_error (LlmError (''invalid base_url: '' @ base_url)) e, Inr ())
         | Inr (Some (host, port, path_prefix)) \<Rightarrow>
             (case json_dump fl (chat_body c messages tools) of
                Inl x \<Rightarrow> (e, Inl x)
              | Inr body_str \<Rightarrow>
                  (e\<lparr>le_work := le_work e @
                       [(chat_request env c host port path_prefix body_str, on_result, on_error)]\<rparr>, Inr ())))"

subsection \<open>The worker and the callback\<close>

text \<open>What the HTTPS client gives: a response, an error of the connection, or an exception.\<close>

datatype http_outcome =
    HttpResponse int32 string
  | HttpFailed string
  | HttpException string

text \<open>\<open>what\<close> is the text of an exception.\<close>

definition run_chat :: "float_io \<Rightarrow> (exn \<Rightarrow> string) \<Rightarrow> http_outcome \<Rightarrow> chat_ctx \<Rightarrow> chat_ctx" where
  "run_chat fl what out ctx =
     (case out of
        HttpResponse status body \<Rightarrow>
          if sint status = 200 then
            (case json_parse fl body of
               Inr j \<Rightarrow> ctx\<lparr>ct_result := j, ct_ok := True\<rparr>
             | Inl x \<Rightarrow> ctx\<lparr>ct_error := ''LLM exception: '' @ what x, ct_ok := False\<rparr>)
          else ctx\<lparr>ct_error := ''LLM API returned '' @ int_str (sint status) @ '': '' @ take 300 body,
                    ct_ok := False\<rparr>
      | HttpFailed err \<Rightarrow> ctx\<lparr>ct_error := ''LLM API connection failed: '' @ err, ct_ok := False\<rparr>
      | HttpException msg \<Rightarrow> ctx\<lparr>ct_error := ''LLM exception: '' @ msg, ct_ok := False\<rparr>)"

text \<open>The pool finishes the \<open>i\<close>th work.\<close>

definition chat_work ::
  "float_io \<Rightarrow> (exn \<Rightarrow> string) \<Rightarrow> nat \<Rightarrow> http_outcome \<Rightarrow> llm_engine \<Rightarrow> llm_engine" where
  "chat_work fl what i out e =
     (if length (le_work e) \<le> i then e
      else (case le_work e ! i of
              (ctx, cbs) \<Rightarrow>
                e\<lparr>le_work := take i (le_work e) @ drop (Suc i) (le_work e),
                  le_done := le_done e @ [(run_chat fl what out ctx, cbs)]\<rparr>))"

definition chat_done :: "chat_ctx \<times> nat option \<times> nat option \<Rightarrow> llm_engine \<Rightarrow> llm_engine" where
  "chat_done d e =
     (case d of (ctx, on_result, on_error) \<Rightarrow>
        if ct_ok ctx \<and> on_result \<noteq> None then note_llm on_result (LlmResult (ct_result ctx)) e
        else if \<not> ct_ok ctx \<and> on_error \<noteq> None then note_llm on_error (LlmError (ct_error ctx)) e
        else e)"

definition chats_done :: "llm_engine \<Rightarrow> llm_engine" where
  "chats_done e = foldl (\<lambda>e d. chat_done d e) (e\<lparr>le_done := []\<rparr>) (le_done e)"

subsection \<open>Life cycle\<close>

definition engine_start :: "llm_engine \<Rightarrow> llm_engine" where
  "engine_start e = (if le_started e then e else e\<lparr>le_started := True\<rparr>)"

text \<open>\<open>step()\<close>: one turn of the loop calls back for the works that are done.\<close>

definition engine_step :: "llm_engine \<Rightarrow> llm_engine" where
  "engine_step e = chats_done e"

definition engine_stop :: "llm_engine \<Rightarrow> llm_engine" where
  "engine_stop e = (if \<not> le_started e then e else (engine_step e)\<lparr>le_started := False\<rparr>)"

definition engine_destroy :: "llm_engine \<Rightarrow> llm_engine" where
  "engine_destroy e = engine_stop e"

subsection \<open>What is read from a URL\<close>

lemma starts_http [simp]:
  "starts_with ''https://'' (''http://'' @ s) \<longleftrightarrow> False"
  by simp

lemma split_host_plain: "CHR '':'' \<notin> set h \<Longrightarrow> split_host_port h port = Inr (h, port)"
  by (simp add: split_host_port_def char_find_None_iff [THEN iffD2])

lemma split_host_number:
  assumes "CHR '':'' \<notin> set h" "n < 2 ^ 31"
  shows "split_host_port (h @ CHR '':'' # nat_str n) port = Inr (h, word_of_nat n)"
  using assms stoi_nat_str [of n "[]"] by (simp add: split_host_port_def char_find_append substr_from_def)

text \<open>The parts of a well-formed URL are read back.\<close>

definition url_scheme :: "bool \<Rightarrow> string" where
  "url_scheme secure = (if secure then ''https://'' else ''http://'')"

definition url_authority :: "string \<Rightarrow> nat option \<Rightarrow> string" where
  "url_authority h p = h @ (case p of None \<Rightarrow> [] | Some n \<Rightarrow> CHR '':'' # nat_str n)"

lemma parse_url_parts:
  assumes "set h \<inter> {CHR '':'', CHR ''/''} = {}" "\<And>n. p = Some n \<Longrightarrow> n < 2 ^ 31"
    and "path = [] \<or> hd path = CHR ''/''"
  shows "parse_base_url (url_scheme secure @ url_authority h p @ path) =
     Inr (Some (h, (case p of None \<Rightarrow> if secure then 443 else 80 | Some n \<Rightarrow> word_of_nat n), path))"
proof -
  have noslash: "CHR ''/'' \<notin> set (url_authority h p)"
    using assms(1) by (auto simp: url_authority_def split: option.splits dest: nat_str_digits)
  have auth: "split_host_port (url_authority h p) port =
      Inr (h, (case p of None \<Rightarrow> port | Some n \<Rightarrow> word_of_nat n))" for port
    using assms(1,2) split_host_plain [of h] split_host_number [of h]
    by (cases p) (auto simp: url_authority_def)
  have split: "(case char_find (CHR ''/'') (url_authority h p @ path) of
      None \<Rightarrow> (url_authority h p @ path, []) | Some i \<Rightarrow> (take i (url_authority h p @ path), drop i (url_authority h p @ path))) =
      (url_authority h p, path)"
  proof (cases path)
    case Nil
    with noslash show ?thesis by (simp add: char_find_None_iff [THEN iffD2])
  next
    case (Cons c t)
    with assms(3) have "path = CHR ''/'' # t" by simp
    with noslash show ?thesis by (simp add: char_find_append)
  qed
  define s where "s = url_authority h p @ path"
  show ?thesis
    unfolding s_def [symmetric]
  proof (cases secure)
    case True
    then show "parse_base_url (url_scheme secure @ s) =
        Inr (Some (h, (case p of None \<Rightarrow> if secure then 443 else 80 | Some n \<Rightarrow> word_of_nat n), path))"
      using split [folded s_def] auth [of 443] by (simp add: parse_base_url_def url_scheme_def)
  next
    case False
    then show "parse_base_url (url_scheme secure @ s) =
        Inr (Some (h, (case p of None \<Rightarrow> if secure then 443 else 80 | Some n \<Rightarrow> word_of_nat n), path))"
      using split [folded s_def] auth [of 80] by (simp add: parse_base_url_def url_scheme_def)
  qed
qed

lemma parse_url_other_scheme:
  "\<not> starts_with ''https://'' url \<Longrightarrow> \<not> starts_with ''http://'' url \<Longrightarrow> parse_base_url url = Inr None"
  by (simp add: parse_base_url_def)

lemma chat_other_scheme:
  assumes "lm_base_url (le_config e) = url" "url \<noteq> []" "take 8 url \<noteq> ''https://''" "take 7 url \<noteq> ''http://''"
  shows "chat fl env messages on_result on_error tools e =
    (case on_error of None \<Rightarrow> e
     | Some n \<Rightarrow> e\<lparr>le_log := le_log e @ [(n, LlmError (''invalid base_url: '' @ url))]\<rparr>, Inr ())"
proof -
  have "\<not> starts_with ''https://'' url" "\<not> starts_with ''http://'' url"
    using assms(3,4) by (simp_all add: starts_with_def eval_nat_numeral)
  with assms(1,2) show ?thesis
    by (cases on_error) (simp_all add: chat_def parse_url_other_scheme note_llm_def)
qed

lemma chat_queues:
  assumes "parse_base_url url = Inr (Some (host, port, path))" "lm_base_url (le_config e) = url"
    and "json_dump fl (chat_body (le_config e) messages tools) = Inr body"
  shows "chat fl env messages on_result on_error tools e =
    (e\<lparr>le_work := le_work e @ [(chat_request env (le_config e) host port path body, on_result, on_error)]\<rparr>, Inr ())"
proof -
  have "url \<noteq> []" using assms(1) by (auto simp: parse_base_url_def)
  with assms show ?thesis by (simp add: chat_def Let_def)
qed

subsection \<open>Runs of the engine\<close>

datatype engine_event =
    LeStart
  | LeStop
  | LeChat environment json "nat option" "nat option" json
  | LeWork nat http_outcome
  | LeStep

fun engine_do :: "float_io \<Rightarrow> (exn \<Rightarrow> string) \<Rightarrow> engine_event \<Rightarrow> llm_engine \<Rightarrow> llm_engine" where
  "engine_do fl what LeStart e = engine_start e"
| "engine_do fl what LeStop e = engine_stop e"
| "engine_do fl what (LeChat env messages on_result on_error tools) e =
     fst (chat fl env messages on_result on_error tools e)"
| "engine_do fl what (LeWork i out) e = chat_work fl what i out e"
| "engine_do fl what LeStep e = engine_step e"

fun engine_run :: "float_io \<Rightarrow> (exn \<Rightarrow> string) \<Rightarrow> engine_event list \<Rightarrow> llm_engine \<Rightarrow> llm_engine" where
  "engine_run fl what [] e = e"
| "engine_run fl what (ev # evs) e = engine_run fl what evs (engine_do fl what ev e)"

text \<open>How often \<open>chat\<close> was called with callback \<open>n\<close> for both outcomes and returned.\<close>

fun chats_with :: "float_io \<Rightarrow> (exn \<Rightarrow> string) \<Rightarrow> nat \<Rightarrow> engine_event list \<Rightarrow> llm_engine \<Rightarrow> nat" where
  "chats_with fl what n [] e = 0"
| "chats_with fl what n (ev # evs) e =
     (case ev of
        LeChat env messages on_result on_error tools \<Rightarrow>
          (if on_result = Some n \<and> on_error = Some n \<and>
              snd (chat fl env messages on_result on_error tools e) = Inr () then 1 else 0)
      | _ \<Rightarrow> 0) + chats_with fl what n evs (engine_do fl what ev e)"

text \<open>Callback \<open>n\<close> is given for both outcomes or for none.\<close>

definition both_or_none :: "nat \<Rightarrow> nat option \<Rightarrow> nat option \<Rightarrow> bool" where
  "both_or_none n a b \<longleftrightarrow> (a = Some n \<longleftrightarrow> b = Some n)"

fun event_pairs :: "nat \<Rightarrow> engine_event \<Rightarrow> bool" where
  "event_pairs n (LeChat env messages a b tools) = both_or_none n a b"
| "event_pairs n _ = True"

definition answers :: "nat \<Rightarrow> llm_engine \<Rightarrow> nat" where
  "answers n e = length (filter (\<lambda>(k, _). k = n) (le_log e))"

definition owed :: "nat \<Rightarrow> (chat_ctx \<times> nat option \<times> nat option) list \<Rightarrow> nat" where
  "owed n ws = length (filter (\<lambda>(_, a, b). a = Some n \<and> b = Some n) ws)"

definition paired :: "nat \<Rightarrow> llm_engine \<Rightarrow> bool" where
  "paired n e \<longleftrightarrow> list_all (\<lambda>(_, a, b). both_or_none n a b) (le_work e @ le_done e)"

lemma owed_simps [simp]:
  "owed n [] = 0" "owed n (ws @ vs) = owed n ws + owed n vs"
  "owed n ((c, a, b) # ws) = (if a = Some n \<and> b = Some n then 1 else 0) + owed n ws"
  by (simp_all add: owed_def)

lemma answers_note: "answers n (note_llm cb v e) = answers n e + (if cb = Some n then 1 else 0)"
  by (cases cb) (auto simp: note_llm_def answers_def)

lemma note_fields [simp]:
  "le_work (note_llm cb v e) = le_work e" "le_done (note_llm cb v e) = le_done e"
  "le_started (note_llm cb v e) = le_started e" "le_config (note_llm cb v e) = le_config e"
  by (simp_all add: note_llm_def split: option.split)

lemma chat_done_owed:
  "both_or_none n a b \<Longrightarrow> answers n (chat_done (c, a, b) e) = answers n e + owed n [(c, a, b)]"
  by (auto simp: chat_done_def answers_note both_or_none_def)

lemma chat_done_fields: "le_work (chat_done d e) = le_work e \<and> le_done (chat_done d e) = le_done e"
  by (simp add: chat_done_def split: prod.split)

lemma chats_done_fold:
  "list_all (\<lambda>(_, a, b). both_or_none n a b) ds \<Longrightarrow>
   answers n (foldl (\<lambda>e d. chat_done d e) e ds) = answers n e + owed n ds \<and>
   le_work (foldl (\<lambda>e d. chat_done d e) e ds) = le_work e \<and> le_done (foldl (\<lambda>e d. chat_done d e) e ds) = le_done e"
proof (induction ds arbitrary: e)
  case (Cons d ds)
  obtain c a b where d: "d = (c, a, b)" by (cases d)
  with Cons.prems Cons.IH [of "chat_done d e"] chat_done_fields [of d e] chat_done_owed [of n a b c e]
  show ?case by simp
qed simp

lemma step_owed:
  assumes "paired n e"
  shows "answers n (engine_step e) = answers n e + owed n (le_done e)" "le_work (engine_step e) = le_work e"
    "le_done (engine_step e) = []"
  using chats_done_fold [of n "le_done e" "e\<lparr>le_done := []\<rparr>"] assms
  by (simp_all add: engine_step_def chats_done_def paired_def answers_def)

definition balance :: "nat \<Rightarrow> llm_engine \<Rightarrow> nat" where
  "balance n e = answers n e + owed n (le_work e) + owed n (le_done e)"

lemma work_owed:
  "balance n (chat_work fl what i out e) = balance n e \<and> (paired n e \<longrightarrow> paired n (chat_work fl what i out e))"
proof (cases "length (le_work e) \<le> i")
  case False
  then have split: "le_work e = take i (le_work e) @ le_work e ! i # drop (Suc i) (le_work e)"
    by (simp add: id_take_nth_drop)
  obtain c a b where w: "le_work e ! i = (c, a, b)" by (cases "le_work e ! i")
  have o: "owed n (le_work e) = owed n (take i (le_work e)) + owed n ((c, a, b) # drop (Suc i) (le_work e))"
    using arg_cong [OF split, of "owed n"] by (simp add: w)
  have p: "list_all P (le_work e) = list_all P (take i (le_work e) @ (c, a, b) # drop (Suc i) (le_work e))" for P
    using arg_cong [OF split, of "list_all P"] by (simp add: w)
  show ?thesis
    using False o p by (simp add: chat_work_def w balance_def answers_def paired_def)
qed (simp add: chat_work_def)

lemma do_owed:
  assumes "paired n e" "event_pairs n ev"
  shows "balance n (engine_do fl what ev e) = balance n e + chats_with fl what n [ev] e \<and>
    paired n (engine_do fl what ev e)"
proof (cases ev)
  case (LeChat env messages a b tools)
  with assms show ?thesis
    by (auto simp: chat_def Let_def balance_def answers_note paired_def both_or_none_def
        answers_def [of n "_ \<lparr>le_work := _\<rparr>"] answers_def [of n e, symmetric]
        split: sum.split option.split prod.split)
next
  case (LeWork i out)
  with assms work_owed show ?thesis by simp
next
  case LeStop
  have "answers n (s\<lparr>le_started := False\<rparr>) = answers n s" for s by (simp add: answers_def)
  with LeStop assms(1) step_owed [OF assms(1)] show ?thesis
    by (simp add: engine_stop_def balance_def paired_def)
next
  case LeStep
  with assms(1) step_owed [OF assms(1)] show ?thesis by (simp add: balance_def paired_def)
next
  case LeStart
  with assms(1) show ?thesis by (simp add: engine_start_def balance_def paired_def answers_def)
qed

lemma run_owed:
  "paired n e \<Longrightarrow> list_all (event_pairs n) evs \<Longrightarrow>
   balance n (engine_run fl what evs e) = balance n e + chats_with fl what n evs e \<and>
   paired n (engine_run fl what evs e)"
proof (induction evs arbitrary: e)
  case (Cons ev evs)
  then show ?case using do_owed [of n e ev fl what] by (cases ev) auto
qed simp

text \<open>When the pool has finished and the loop has turned, every call is answered, exactly once.\<close>

lemma all_answered:
  assumes "list_all (event_pairs n) evs" "le_work (engine_run fl what evs (new_engine c)) = []"
  shows "answers n (engine_step (engine_run fl what evs (new_engine c))) = chats_with fl what n evs (new_engine c)"
proof -
  have "paired n (new_engine c)" "balance n (new_engine c) = 0"
    by (simp_all add: paired_def new_engine_def balance_def answers_def)
  with run_owed [OF this(1) assms(1), of fl what] step_owed assms(2) show ?thesis
    by (simp add: balance_def)
qed

text \<open>What the caller is told.\<close>

lemma chat_answer:
  assumes "ct_ok ctx = False" "fl_ctx = run_chat fl what out ctx"
  shows "chat_done (fl_ctx, Some r, Some x) e =
    note_llm (Some (if ct_ok fl_ctx then r else x))
      (if ct_ok fl_ctx then LlmResult (ct_result fl_ctx) else LlmError (ct_error fl_ctx)) e"
    "ct_ok fl_ctx \<longleftrightarrow> (\<exists>body. out = HttpResponse 200 body \<and> json_parse fl body = Inr (ct_result fl_ctx))"
proof -
  have "sint s = 200 \<longleftrightarrow> s = 200" for s :: int32
    using signed_word_eqI [of s 200] by auto
  then show "chat_done (fl_ctx, Some r, Some x) e =
    note_llm (Some (if ct_ok fl_ctx then r else x))
      (if ct_ok fl_ctx then LlmResult (ct_result fl_ctx) else LlmError (ct_error fl_ctx)) e"
    "ct_ok fl_ctx \<longleftrightarrow> (\<exists>body. out = HttpResponse 200 body \<and> json_parse fl body = Inr (ct_result fl_ctx))"
    using assms by (auto simp: chat_done_def run_chat_def split: http_outcome.splits sum.splits if_splits)
qed

end
