(* ===== verification/Scheduler_Clients.thy ===== *)
theory Scheduler_Clients
  imports Scheduler_Contracts
begin

text \<open>
  Clients of the scheduler that start no timers (the LLM engine and the WebSocket client): they post
  callbacks and hand works to the pool. A callback is a signal: it names the closure of the client that
  it stands for, and the client acts on the signals a turn of the loop has given, in their order. The
  lemmas say what start, stop, a step, a post and a finished work do to such a scheduler, whatever the
  clock shows; the locale \<open>simulation\<close> carries what holds step by step over to sequences of events.
\<close>

locale simulation =
  fixes inv :: "'s \<Rightarrow> bool"
    and abs :: "'s \<Rightarrow> 'a"
    and conc :: "'e \<Rightarrow> 's \<Rightarrow> 's result"
    and spec :: "'e \<Rightarrow> 'a \<Rightarrow> 'a \<Rightarrow> bool"
  assumes sim: "inv s \<Longrightarrow> conc e s = Inr s' \<Longrightarrow> inv s' \<and> spec e (abs s) (abs s')"
begin

lemma sim_run:
  "inv s \<Longrightarrow> for_res conc es s = Inr s' \<Longrightarrow> inv s' \<and> (\<lambda>a b. \<exists>e. spec e a b)\<^sup>*\<^sup>* (abs s) (abs s')"
proof (induction es arbitrary: s)
  case (Cons e es)
  from Cons.prems(2) obtain s1 where s1: "conc e s = Inr s1" "for_res conc es s1 = Inr s'"
    by (cases "conc e s") simp_all
  from sim [OF Cons.prems(1) s1(1)] have "inv s1" "\<exists>e. spec e (abs s) (abs s1)" by blast+
  with Cons.IH [OF _ s1(2)] show ?case
    by (blast intro: converse_rtranclp_into_rtranclp [where r = "\<lambda>a b. \<exists>e. spec e a b"])
qed simp

lemma sim_fun:
  assumes "\<And>e a b. spec e a b \<Longrightarrow> b = f e a"
  shows "inv s \<Longrightarrow> for_res conc es s = Inr s' \<Longrightarrow> abs s' = fold f es (abs s)"
proof (induction es arbitrary: s)
  case (Cons e es)
  from Cons.prems(2) obtain s1 where s1: "conc e s = Inr s1" "for_res conc es s1 = Inr s'"
    by (cases "conc e s") simp_all
  from sim [OF Cons.prems(1) s1(1)] have "inv s1" "abs s1 = f e (abs s)" using assms by blast+
  with Cons.IH [OF _ s1(2)] show ?case by simp
qed simp

end

locale total_simulation = simulation +
  assumes progress: "inv s \<Longrightarrow> \<exists>s'. conc e s = Inr s'"
begin

lemma run_total: "inv s \<Longrightarrow> \<exists>s'. for_res conc es s = Inr s'"
proof (induction es arbitrary: s)
  case (Cons e es)
  from progress [OF Cons.prems] obtain s1 where s1: "conc e s = Inr s1" by blast
  with sim [OF Cons.prems s1] Cons.IH [of s1] show ?case by simp
qed simp

end

subsection \<open>Signals\<close>

definition signal :: "nat \<Rightarrow> callback" where
  "signal k = Some [Emit k]"

definition work_of :: "nat \<Rightarrow> callback \<times> callback" where
  "work_of k = (Some [], signal k)"

fun signal_of :: "callback \<Rightarrow> nat" where
  "signal_of (Some [Emit k]) = k"
| "signal_of _ = 0"

lemma signal_of_signal [simp]: "signal_of (signal k) = k"
  by (simp add: signal_def)

lemma run_signals: "for_res run_cb (map signal ks) s = Inr (s\<lparr>us_log := us_log s @ ks\<rparr>)"
  by (induction ks arbitrary: s) (simp_all add: signal_def run_cb_def)

subsection \<open>A scheduler without timers\<close>

text \<open>\<open>ks\<close>, \<open>ds\<close> and \<open>ps\<close>: the signals of the works on the pool, of the finished works, of the posts.\<close>

definition plain :: "nat list \<Rightarrow> nat list \<Rightarrow> nat list \<Rightarrow> scheduler \<Rightarrow> bool" where
  "plain ks ds ps s \<longleftrightarrow>
     us_timers s = [] \<and> us_ctx s = [] \<and> lp_timers (us_loop s) = [] \<and> lp_ready (us_loop s) = [] \<and>
     lp_closing (us_loop s) = [] \<and> (us_async_inited s \<longleftrightarrow> us_started s) \<and> ((\<exists>b. us_async s = ALive b) \<longleftrightarrow> us_started s) \<and>
     us_work s = map work_of ks \<and> us_done s = map signal ds \<and> us_post_queue s = map signal ps"

lemma plain_new: "plain [] [] [] (new_scheduler c)"
  by (simp add: plain_def new_scheduler_def new_loop_def)

lemma plain_start:
  assumes "plain ks ds ps s" "us_async s \<noteq> AClosing" "\<not> us_started s"
  shows "\<exists>s'. sched_start s = Inr s' \<and> plain ks ds ps s' \<and> us_async s' = ALive False \<and> us_started s' \<and> us_log s' = us_log s"
  using assms by (cases "us_async s") (auto simp: sched_start_def plain_def)

text \<open>What an iteration leaves of the async handle.\<close>

fun handle_after :: "async_handle \<Rightarrow> async_handle" where
  "handle_after (ALive b) = ALive False"
| "handle_after AClosing = AClosed"
| "handle_after a = a"

lemma plain_step:
  assumes s: "plain ks ds ps s"
  shows "\<exists>s'. step clock s = Inr s' \<and> plain ks [] (if us_async s = ALive True then [] else ps) s' \<and>
    us_log s' = us_log s @ ds @ (if us_async s = ALive True then ps else []) \<and>
    us_async s' = handle_after (us_async s) \<and> us_started s' = us_started s"
proof (cases "loop_alive s")
  case False
  with s have "ds = []" "us_async s \<noteq> AClosing" "\<nexists>b. us_async s = ALive b"
    by (auto simp: loop_alive_def plain_def)
  with s False show ?thesis
    by (cases "us_async s") (simp_all add: step_def plain_def uv_update_time_def)
next
  case True
  let ?s = "s\<lparr>us_loop := uv_update_time (fst clock) (us_loop s)\<rparr>"
  have works: "after_works ?s = Inr (?s\<lparr>us_done := [], us_log := us_log s @ ds\<rparr>)"
    using s run_signals [of ds "?s\<lparr>us_done := []\<rparr>"] by (simp add: after_works_def plain_def)
  let ?s1 = "?s\<lparr>us_done := [], us_log := us_log s @ ds\<rparr>"
  let ?s2 = "if us_async s = ALive True
    then ?s1\<lparr>us_async := ALive False, us_post_queue := [], us_log := us_log s @ ds @ ps\<rparr> else ?s1"
  have drain: "async_io ?s = Inr ?s2"
    using s run_signals [of ps "?s1\<lparr>us_async := ALive False, us_post_queue := []\<rparr>"]
    by (simp add: async_io_def works drain_post_queue_def plain_def)
  have timers: "run_timers (x\<lparr>us_loop := l\<rparr>) = Inr (x\<lparr>us_loop := l\<rparr>)"
    if "lp_timers l = []" "lp_ready l = []" for x l
    using that by (simp add: run_timers_def uv_collect_due_def)
  have "step clock s = Inr ((run_closing_handles ?s2)
      \<lparr>us_loop := uv_update_time (snd clock) (us_loop (run_closing_handles ?s2))\<rparr>)"
    using True s drain
    by (simp add: step_def loop_iteration_def Let_def split_beta timers run_closing_handles_def
        uv_run_closing_def uv_update_time_def plain_def)
  with s show ?thesis
    by (cases "us_async s") (auto simp: plain_def run_closing_handles_def uv_run_closing_def uv_update_time_def)
qed

lemma iteration_step: "loop_alive s \<Longrightarrow> loop_iteration clock s = step clock s"
  by (simp add: step_def)

text \<open>Further iterations find nothing to do.\<close>

lemma plain_loop_idle:
  assumes "plain ks [] ps s" "us_async s \<noteq> ALive True" "us_async s \<noteq> AClosing"
  shows "\<exists>s'. run_loop clocks s = Inr s' \<and> plain ks [] ps s' \<and> us_log s' = us_log s \<and> us_async s' = us_async s \<and>
    us_started s' = us_started s"
  using assms
proof (induction clocks arbitrary: s)
  case (Cons c cs)
  obtain s1 where s1: "step c s = Inr s1" "plain ks [] ps s1" "us_log s1 = us_log s" "us_async s1 = us_async s"
    "us_started s1 = us_started s"
    using plain_step [OF Cons.prems(1), of c] Cons.prems(2,3) by (cases "us_async s") auto
  with Cons.IH [of s1] Cons.prems show ?case by (auto simp: iteration_step)
qed auto

lemma alive_time: "loop_alive (s\<lparr>us_loop := uv_update_time now (us_loop s)\<rparr>) = loop_alive s"
  by (simp add: loop_alive_def uv_update_time_def timers_alive_def)

lemma plain_run:
  assumes s: "plain ks ds ps s"
  shows "\<exists>s'. run now (clock # clocks) s = Inr s' \<and> plain ks [] (if us_async s = ALive True then [] else ps) s' \<and>
    us_log s' = us_log s @ ds @ (if us_async s = ALive True then ps else []) \<and>
    us_async s' = handle_after (us_async s) \<and> us_started s' = us_started s"
proof -
  let ?s = "s\<lparr>us_loop := uv_update_time now (us_loop s)\<rparr>"
  have p: "plain ks ds ps ?s" using s by (simp add: plain_def uv_update_time_def)
  have timers: "run_timers ?s = Inr ?s"
    using p by (simp add: run_timers_def uv_collect_due_def plain_def)
  show ?thesis
  proof (cases "loop_alive ?s")
    case False
    with p have "ds = []" "us_async s \<noteq> AClosing" "\<nexists>b. us_async s = ALive b"
      by (auto simp: loop_alive_def plain_def)
    with p False show ?thesis by (cases "us_async s") (simp_all add: run_def alive_time)
  next
    case True
    obtain s1 where s1: "step clock ?s = Inr s1" "plain ks [] (if us_async s = ALive True then [] else ps) s1"
      "us_log s1 = us_log s @ ds @ (if us_async s = ALive True then ps else [])"
      "us_async s1 = handle_after (us_async s)" "us_started s1 = us_started s"
      using plain_step [OF p, of clock] by auto
    have "us_async s1 \<noteq> ALive True" "us_async s1 \<noteq> AClosing" using s1(4) by (cases "us_async s"; simp)+
    with plain_loop_idle [OF s1(2), of clocks] s1 True timers show ?thesis
      by (auto simp: run_def iteration_step alive_time)
  qed
qed

text \<open>\<open>stop()\<close> and the step after it, as every client does it.\<close>

lemma plain_stop:
  assumes s: "plain ks ds ps s" "us_started s"
  shows "\<exists>s1 s'. sched_stop s = Inr s1 \<and> step clock s1 = Inr s' \<and> plain ks [] ps s' \<and>
    us_log s1 = us_log s \<and> us_log s' = us_log s @ ds \<and> us_async s' = AClosed \<and> \<not> us_started s'"
proof -
  let ?s1 = "s\<lparr>us_started := False, us_timers := [], us_async := AClosing, us_async_inited := False\<rparr>"
  have "sched_stop s = Inr ?s1"
    using s by (auto simp: sched_stop_def plain_def)
  moreover have "plain ks ds ps ?s1" using s(1) by (simp add: plain_def)
  from plain_step [OF this, of clock] obtain s' where "step clock ?s1 = Inr s'" "plain ks [] ps s'"
    "us_log s' = us_log s @ ds" "us_async s' = AClosed" "\<not> us_started s'" by auto
  moreover have "us_log ?s1 = us_log s" by simp
  ultimately show ?thesis by blast
qed

lemma plain_blocking: "plain ks ds ps s \<Longrightarrow> plain (ks @ [k]) ds ps (run_blocking (Some []) (signal k) s)"
  by (simp add: plain_def run_blocking_def work_of_def)

lemma plain_work:
  assumes "plain ks ds ps s" "i < length ks"
  shows "\<exists>s'. work_cb i s = Inr s' \<and> plain (take i ks @ drop (Suc i) ks) (ds @ [ks ! i]) ps s' \<and>
    us_async s' = us_async s \<and> us_started s' = us_started s \<and> us_log s' = us_log s"
proof -
  have "us_work s = map work_of ks" using assms(1) by (simp add: plain_def)
  with assms show ?thesis
    by (simp add: work_cb_def work_of_def Let_def plain_def take_map drop_map)
qed

lemma plain_post:
  assumes "plain ks ds ps s" "us_async s \<noteq> AUninit"
  shows "\<exists>s'. post (signal k) s = Inr s' \<and> plain ks ds (ps @ [k]) s' \<and>
    us_async s' = (if us_started s then ALive True else us_async s) \<and> us_started s' = us_started s \<and> us_log s' = us_log s"
  using assms by (cases "us_async s") (auto simp: post_def uv_async_send_def plain_def)

end
