(* ===== verification/Llm_On_Scheduler.thy ===== *)
theory Llm_On_Scheduler
  imports Llm_Engine Scheduler_Clients
begin

text \<open>
  The LLM engine together with its scheduler: \<open>chat\<close> hands its work to \<open>run_blocking\<close>, the pool finishes
  works with \<open>work_cb\<close>, and start, stop and step are those of \<open>UvScheduler\<close>, on its loop. A closure that
  the engine gives to the scheduler is an entry of \<open>ly_closures\<close>, and the signals of a turn tell which
  completion callbacks the scheduler has called. The engine of theory \<open>Llm_Engine\<close>, which sees the
  scheduler as two lists of works, is an abstraction of it: every event succeeds on the scheduler and
  does to the lists what \<open>engine_do\<close> does.
\<close>

record llm_system =
  ly_engine :: llm_engine
  ly_closures :: "(chat_ctx \<times> nat option \<times> nat option) list"
  ly_sched :: scheduler

definition new_llm_system :: "llm_config \<Rightarrow> llm_system" where
  "new_llm_system c =
     \<lparr>ly_engine = new_engine c, ly_closures = [], ly_sched = create_scheduler None\<rparr>"

definition sys_start :: "llm_system \<Rightarrow> llm_system result" where
  "sys_start y =
     (if le_started (ly_engine y) then Inr y
      else bind_res (sched_start (ly_sched y))
             (\<lambda>s. Inr (y\<lparr>ly_sched := s, ly_engine := (ly_engine y)\<lparr>le_started := True\<rparr>\<rparr>)))"

text \<open>What \<open>chat\<close> queues goes to \<open>run_blocking\<close>.\<close>

definition sys_chat ::
  "float_io \<Rightarrow> environment \<Rightarrow> json \<Rightarrow> nat option \<Rightarrow> nat option \<Rightarrow> json \<Rightarrow> llm_system \<Rightarrow> llm_system" where
  "sys_chat fl env messages on_result on_error tools y =
     (let e = fst (chat fl env messages on_result on_error tools (ly_engine y))
      in case le_work e of
           [] \<Rightarrow> y\<lparr>ly_engine := e\<rparr>
         | w # _ \<Rightarrow> y\<lparr>ly_closures := ly_closures y @ [w],
                       ly_sched := run_blocking (Some []) (signal (length (ly_closures y))) (ly_sched y)\<rparr>)"

text \<open>The work runs on the pool and writes its result into the shared \<open>ctx\<close>.\<close>

definition sys_work ::
  "float_io \<Rightarrow> (exn \<Rightarrow> string) \<Rightarrow> nat \<Rightarrow> http_outcome \<Rightarrow> llm_system \<Rightarrow> llm_system result" where
  "sys_work fl what i out y =
     (if length (us_work (ly_sched y)) \<le> i then Inr y
      else let k = signal_of (snd (us_work (ly_sched y) ! i));
               (ctx, cbs) = ly_closures y ! k
           in bind_res (work_cb i (ly_sched y))
                (\<lambda>s. Inr (y\<lparr>ly_sched := s, ly_closures := (ly_closures y)[k := (run_chat fl what out ctx, cbs)]\<rparr>)))"

definition sys_step :: "u64 \<times> u64 \<Rightarrow> llm_system \<Rightarrow> llm_system result" where
  "sys_step clock y =
     bind_res (step clock (ly_sched y)) (\<lambda>s. Inr (y\<lparr>ly_sched := s,
       ly_engine := foldl (\<lambda>e k. chat_done (ly_closures y ! k) e) (ly_engine y)
         (drop (length (us_log (ly_sched y))) (us_log s))\<rparr>))"

definition sys_stop :: "u64 \<times> u64 \<Rightarrow> llm_system \<Rightarrow> llm_system result" where
  "sys_stop clock y =
     (if \<not> le_started (ly_engine y) then Inr y
      else bind_res (sched_stop (ly_sched y)) (\<lambda>s.
           bind_res (sys_step clock (y\<lparr>ly_sched := s\<rparr>)) (\<lambda>y1.
             Inr (y1\<lparr>ly_engine := (ly_engine y1)\<lparr>le_started := False\<rparr>\<rparr>))))"

text \<open>\<open>run()\<close> up to the readings of the clock that are given; the first ones are those of one iteration.\<close>

definition sys_run :: "u64 \<Rightarrow> u64 \<times> u64 \<Rightarrow> (u64 \<times> u64) list \<Rightarrow> llm_system \<Rightarrow> llm_system result" where
  "sys_run now clock clocks y =
     bind_res (run now (clock # clocks) (ly_sched y)) (\<lambda>s. Inr (y\<lparr>ly_sched := s,
       ly_engine := foldl (\<lambda>e k. chat_done (ly_closures y ! k) e) (ly_engine y)
         (drop (length (us_log (ly_sched y))) (us_log s))\<rparr>))"

text \<open>The events of the system, with the readings of the clock during them, and what they are for the
  engine by itself.\<close>

datatype sys_event =
    SyStart
  | SyStop "u64 \<times> u64"
  | SyChat environment json "nat option" "nat option" json
  | SyWork nat http_outcome
  | SyStep "u64 \<times> u64"
  | SyRun u64 "u64 \<times> u64" "(u64 \<times> u64) list"

fun sys_do :: "float_io \<Rightarrow> (exn \<Rightarrow> string) \<Rightarrow> sys_event \<Rightarrow> llm_system \<Rightarrow> llm_system result" where
  "sys_do fl what SyStart y = sys_start y"
| "sys_do fl what (SyStop clock) y = sys_stop clock y"
| "sys_do fl what (SyChat env messages on_result on_error tools) y =
     Inr (sys_chat fl env messages on_result on_error tools y)"
| "sys_do fl what (SyWork i out) y = sys_work fl what i out y"
| "sys_do fl what (SyStep clock) y = sys_step clock y"
| "sys_do fl what (SyRun now clock clocks) y = sys_run now clock clocks y"

fun engine_sees :: "sys_event \<Rightarrow> engine_event" where
  "engine_sees SyStart = LeStart"
| "engine_sees (SyStop clock) = LeStop"
| "engine_sees (SyChat env messages on_result on_error tools) = LeChat env messages on_result on_error tools"
| "engine_sees (SyWork i out) = LeWork i out"
| "engine_sees (SyStep clock) = LeStep"
| "engine_sees (SyRun now clock clocks) = LeStep"

subsection \<open>The abstraction\<close>

definition llm_view :: "llm_system \<Rightarrow> llm_engine" where
  "llm_view y = (ly_engine y)
     \<lparr>le_work := map (\<lambda>w. ly_closures y ! signal_of (snd w)) (us_work (ly_sched y)),
      le_done := map (\<lambda>d. ly_closures y ! signal_of d) (us_done (ly_sched y))\<rparr>"

text \<open>\<open>ks\<close> and \<open>ds\<close> are the requests on the pool and the finished ones.\<close>

definition llm_state :: "nat list \<Rightarrow> nat list \<Rightarrow> llm_system \<Rightarrow> bool" where
  "llm_state ks ds y \<longleftrightarrow> plain ks ds [] (ly_sched y) \<and> distinct (ks @ ds) \<and>
     (\<forall>k \<in> set (ks @ ds). k < length (ly_closures y)) \<and> us_async (ly_sched y) \<noteq> AClosing \<and>
     le_started (ly_engine y) = us_started (ly_sched y) \<and> le_work (ly_engine y) = [] \<and> le_done (ly_engine y) = []"

definition llm_inv :: "llm_system \<Rightarrow> bool" where
  "llm_inv y \<longleftrightarrow> (\<exists>ks ds. llm_state ks ds y)"

lemma llm_view_state:
  "llm_state ks ds y \<Longrightarrow>
   llm_view y = (ly_engine y)\<lparr>le_work := map (\<lambda>k. ly_closures y ! k) ks, le_done := map (\<lambda>k. ly_closures y ! k) ds\<rparr>"
  by (simp add: llm_view_def llm_state_def plain_def work_of_def comp_def)

lemma chat_done_queues:
  "chat_done d (e\<lparr>le_work := w, le_done := v\<rparr>) = (chat_done d e)\<lparr>le_work := w, le_done := v\<rparr>"
  by (cases d) (simp add: chat_done_def note_llm_def split: option.split)

lemma chats_done_queues:
  "foldl (\<lambda>e d. chat_done d e) (e\<lparr>le_work := w, le_done := v\<rparr>) ds =
   (foldl (\<lambda>e d. chat_done d e) e ds)\<lparr>le_work := w, le_done := v\<rparr>"
  by (induction ds arbitrary: e) (simp_all add: chat_done_queues)

lemma chats_done_same:
  "le_work (foldl (\<lambda>e d. chat_done d e) e ds) = le_work e"
  "le_done (foldl (\<lambda>e d. chat_done d e) e ds) = le_done e"
  "le_started (foldl (\<lambda>e d. chat_done d e) e ds) = le_started e"
  by (induction ds arbitrary: e) (simp_all add: chat_done_fields, simp add: chat_done_def split: prod.split)

lemma foldl_closures: "foldl (\<lambda>e k. chat_done (cs ! k) e) e ks = foldl (\<lambda>e d. chat_done d e) e (map (\<lambda>k. cs ! k) ks)"
  by (induction ks arbitrary: e) simp_all

text \<open>A turn calls the completion callbacks of the finished requests.\<close>

lemma turn_simulated:
  assumes y: "llm_state ks ds y"
    and s': "plain ks [] [] s'" "us_log s' = us_log (ly_sched y) @ ds"
      "us_async s' = handle_after (us_async (ly_sched y))" "us_started s' = us_started (ly_sched y)"
  defines "y' \<equiv> y\<lparr>ly_sched := s', ly_engine := foldl (\<lambda>e k. chat_done (ly_closures y ! k) e) (ly_engine y)
         (drop (length (us_log (ly_sched y))) (us_log s'))\<rparr>"
  shows "llm_state ks [] y' \<and> llm_view y' = engine_step (llm_view y)"
proof -
  have st: "llm_state ks [] y'"
    unfolding y'_def using y s' by (cases "us_async (ly_sched y)") (auto simp: llm_state_def foldl_closures chats_done_same)
  show ?thesis
    unfolding llm_view_state [OF st] llm_view_state [OF y] engine_step_def chats_done_def
    using st s'(2) by (simp add: y'_def foldl_closures chats_done_queues)
qed

lemma step_simulated:
  assumes y: "llm_state ks ds y"
  shows "\<exists>y'. sys_step clock y = Inr y' \<and> llm_state ks [] y' \<and> llm_view y' = engine_step (llm_view y)"
proof -
  have "plain ks ds [] (ly_sched y)" using y by (simp add: llm_state_def)
  from plain_step [OF this, of clock] obtain s' where s': "step clock (ly_sched y) = Inr s'" "plain ks [] [] s'"
    "us_log s' = us_log (ly_sched y) @ ds"
    "us_async s' = handle_after (us_async (ly_sched y))" "us_started s' = us_started (ly_sched y)" by auto
  with turn_simulated [OF y s'(2-5)] show ?thesis by (simp add: sys_step_def)
qed

lemma run_simulated:
  assumes y: "llm_state ks ds y"
  shows "\<exists>y'. sys_run now clock clocks y = Inr y' \<and> llm_state ks [] y' \<and> llm_view y' = engine_step (llm_view y)"
proof -
  have "plain ks ds [] (ly_sched y)" using y by (simp add: llm_state_def)
  from plain_run [OF this, of now clock clocks] obtain s' where s': "run now (clock # clocks) (ly_sched y) = Inr s'"
    "plain ks [] [] s'" "us_log s' = us_log (ly_sched y) @ ds"
    "us_async s' = handle_after (us_async (ly_sched y))" "us_started s' = us_started (ly_sched y)" by auto
  with turn_simulated [OF y s'(2-5)] show ?thesis by (simp add: sys_run_def)
qed

lemma stop_simulated:
  assumes y: "llm_state ks ds y"
  shows "\<exists>y'. sys_stop clock y = Inr y' \<and> llm_inv y' \<and> llm_view y' = engine_stop (llm_view y)"
proof (cases "le_started (ly_engine y)")
  case False
  with y show ?thesis by (auto simp: sys_stop_def engine_stop_def llm_view_def llm_inv_def)
next
  case True
  then have p: "plain ks ds [] (ly_sched y)" "us_started (ly_sched y)" using y by (simp_all add: llm_state_def)
  obtain s1 s' where s': "sched_stop (ly_sched y) = Inr s1" "step clock s1 = Inr s'" "plain ks [] [] s'"
    "us_log s' = us_log (ly_sched y) @ ds" "us_async s' = AClosed" "\<not> us_started s'" "us_log s1 = us_log (ly_sched y)"
    using plain_stop [OF p, of clock] by auto
  let ?e = "foldl (\<lambda>e k. chat_done (ly_closures y ! k) e) (ly_engine y) ds"
  let ?y = "y\<lparr>ly_sched := s', ly_engine := ?e\<lparr>le_started := False\<rparr>\<rparr>"
  have r: "sys_stop clock y = Inr ?y" using s' True by (simp add: sys_stop_def sys_step_def)
  have st: "llm_state ks [] ?y"
    using y s' by (auto simp: llm_state_def foldl_closures chats_done_same)
  have "llm_view ?y = engine_stop (llm_view y)"
    using True unfolding llm_view_state [OF st] llm_view_state [OF y] engine_stop_def engine_step_def chats_done_def
    by (simp add: foldl_closures chats_done_queues)
  with r st show ?thesis by (auto simp: llm_inv_def)
qed

lemma start_simulated:
  assumes y: "llm_state ks ds y"
  shows "\<exists>y'. sys_start y = Inr y' \<and> llm_state ks ds y' \<and> llm_view y' = engine_start (llm_view y)"
proof (cases "le_started (ly_engine y)")
  case True
  with y show ?thesis by (simp add: sys_start_def engine_start_def llm_view_def)
next
  case False
  with y have p: "plain ks ds [] (ly_sched y)" "us_async (ly_sched y) \<noteq> AClosing" "\<not> us_started (ly_sched y)"
    by (simp_all add: llm_state_def)
  obtain s' where s': "sched_start (ly_sched y) = Inr s'" "plain ks ds [] s'" "us_async s' = ALive False" "us_started s'"
    using plain_start [OF p] by blast
  let ?y = "y\<lparr>ly_sched := s', ly_engine := (ly_engine y)\<lparr>le_started := True\<rparr>\<rparr>"
  have st: "llm_state ks ds ?y" using y s' by (simp add: llm_state_def)
  have "sys_start y = Inr ?y" using s'(1) False by (simp add: sys_start_def)
  moreover have "llm_view ?y = engine_start (llm_view y)"
    unfolding llm_view_state [OF st] llm_view_state [OF y] using False by (simp add: engine_start_def)
  ultimately show ?thesis using st by blast
qed

text \<open>\<open>chat\<close> does not look at the queues.\<close>

lemma chat_cases:
  obtains (silent) e' where "\<And>w v. fst (chat fl env messages a b tools (e\<lparr>le_work := w, le_done := v\<rparr>)) =
      e'\<lparr>le_work := w, le_done := v\<rparr>" "le_started e' = le_started e"
  | (queued) ctx where "\<And>w v. fst (chat fl env messages a b tools (e\<lparr>le_work := w, le_done := v\<rparr>)) =
      e\<lparr>le_work := w @ [(ctx, a, b)], le_done := v\<rparr>"
proof -
  let ?c = "le_config e"
  let ?url = "if lm_base_url ?c = [] then default_base_url else lm_base_url ?c"
  have told: "note_llm cb x (e\<lparr>le_work := w, le_done := v\<rparr>) = (note_llm cb x e)\<lparr>le_work := w, le_done := v\<rparr>" for cb x w v
    by (simp add: note_llm_def split: option.split)
  consider (thrown) x where "parse_base_url ?url = Inl x"
    | (invalid) "parse_base_url ?url = Inr None"
    | (undumped) hpp x where "parse_base_url ?url = Inr (Some hpp)" "json_dump fl (chat_body ?c messages tools) = Inl x"
    | (fine) host port path body where "parse_base_url ?url = Inr (Some (host, port, path))"
        "json_dump fl (chat_body ?c messages tools) = Inr body"
    by (metis not_None_eq obj_sumE prod_cases3)
  then show thesis
  proof cases
    case thrown
    then show thesis by (intro silent [of e]) (simp_all add: chat_def)
  next
    case invalid
    then show thesis by (intro silent [of "note_llm b (LlmError (''invalid base_url: '' @ ?url)) e"]) (simp_all add: chat_def told)
  next
    case undumped
    then show thesis by (intro silent [of e]) (simp_all add: chat_def split: prod.split)
  next
    case fine
    then show thesis
      by (intro queued [of "chat_request env ?c host port path body"]) (simp add: chat_def)
  qed
qed

lemma chat_simulated:
  assumes y: "llm_state ks ds y"
  shows "llm_inv (sys_chat fl env messages a b tools y) \<and>
    llm_view (sys_chat fl env messages a b tools y) = fst (chat fl env messages a b tools (llm_view y))"
proof -
  let ?e = "ly_engine y"
  have e: "?e\<lparr>le_work := [], le_done := []\<rparr> = ?e" using y by (simp add: llm_state_def)
  show ?thesis
  proof (cases rule: chat_cases [of fl env messages a b tools ?e])
    case (silent e')
    with silent(1) [of "[]" "[]"] have c: "fst (chat fl env messages a b tools ?e) = e'\<lparr>le_work := [], le_done := []\<rparr>" by (simp add: e)
    have sys: "sys_chat fl env messages a b tools y = y\<lparr>ly_engine := e'\<lparr>le_work := [], le_done := []\<rparr>\<rparr>"
      by (simp add: sys_chat_def c)
    have st: "llm_state ks ds (y\<lparr>ly_engine := e'\<lparr>le_work := [], le_done := []\<rparr>\<rparr>)"
      using y silent(2) by (simp add: llm_state_def)
    show ?thesis
      unfolding sys llm_view_state [OF st] llm_view_state [OF y] using st by (auto simp: llm_inv_def silent(1))
  next
    case (queued ctx)
    with queued [of "[]" "[]"] have c: "fst (chat fl env messages a b tools ?e) = ?e\<lparr>le_work := [(ctx, a, b)], le_done := []\<rparr>"
      by (simp add: e)
    let ?n = "length (ly_closures y)"
    let ?y = "y\<lparr>ly_closures := ly_closures y @ [(ctx, a, b)], ly_sched := run_blocking (Some []) (signal ?n) (ly_sched y)\<rparr>"
    have sys: "sys_chat fl env messages a b tools y = ?y" by (simp add: sys_chat_def c)
    have p: "plain ks ds [] (ly_sched y)" using y by (simp add: llm_state_def)
    have st: "llm_state (ks @ [?n]) ds ?y"
      using y plain_blocking [OF p, of ?n] by (auto simp: llm_state_def run_blocking_def intro: less_SucI)
    have old: "map (\<lambda>k. (ly_closures y @ [(ctx, a, b)]) ! k) js = map (\<lambda>k. ly_closures y ! k) js" if "set js \<subseteq> set (ks @ ds)" for js
      using that y by (auto simp: llm_state_def nth_append)
    show ?thesis
      unfolding sys llm_view_state [OF st] llm_view_state [OF y] using st old [of ks] old [of ds]
      by (auto simp: llm_inv_def queued)
  qed
qed

lemma map_update_other: "k \<notin> set js \<Longrightarrow> map (\<lambda>j. cs[k := x] ! j) js = map (\<lambda>j. cs ! j) js"
  by (induction js) auto

lemma work_simulated:
  assumes y: "llm_state ks ds y"
  shows "\<exists>y'. sys_work fl what i out y = Inr y' \<and> llm_inv y' \<and> llm_view y' = chat_work fl what i out (llm_view y)"
proof -
  have p: "plain ks ds [] (ly_sched y)" using y by (simp add: llm_state_def)
  then have works: "us_work (ly_sched y) = map work_of ks" by (simp add: plain_def)
  show ?thesis
  proof (cases "i < length ks")
    case False
    with y works show ?thesis by (auto simp: sys_work_def chat_work_def llm_view_def llm_inv_def)
  next
    case True
    let ?k = "ks ! i" and ?ks = "take i ks @ drop (Suc i) ks"
    obtain ctx cbs where k: "ly_closures y ! ?k = (ctx, cbs)" by (cases "ly_closures y ! ?k")
    let ?cl = "(ly_closures y)[?k := (run_chat fl what out ctx, cbs)]"
    obtain s' where s': "work_cb i (ly_sched y) = Inr s'" "plain ?ks (ds @ [?k]) [] s'"
      "us_async s' = us_async (ly_sched y)" "us_started s' = us_started (ly_sched y)"
      using plain_work [OF p True] by blast
    let ?y = "y\<lparr>ly_sched := s', ly_closures := ?cl\<rparr>"
    have r: "sys_work fl what i out y = Inr ?y" using True works s'(1) k by (simp add: sys_work_def work_of_def)
    have ks: "ks = take i ks @ ?k # drop (Suc i) ks" using True by (simp add: id_take_nth_drop)
    have d: "distinct (ks @ ds)" "\<forall>k \<in> set (ks @ ds). k < length (ly_closures y)" using y by (simp_all add: llm_state_def)
    have dist: "distinct (take i ks @ ?k # drop (Suc i) ks @ ds)" using d(1) ks by (metis append.assoc append_Cons)
    have same: "set ks = insert ?k (set ?ks)" using arg_cong [OF ks, of set] by auto
    have st: "llm_state ?ks (ds @ [?k]) ?y"
      using y s' dist d(2) same by (auto simp: llm_state_def)
    have "map (\<lambda>k. ?cl ! k) ?ks = map (\<lambda>k. ly_closures y ! k) ?ks" "map (\<lambda>k. ?cl ! k) ds = map (\<lambda>k. ly_closures y ! k) ds"
      using dist by (auto simp: map_update_other simp del: map_append)
    moreover have "?cl ! ?k = (run_chat fl what out ctx, cbs)" using d(2) True by simp
    moreover have "map (\<lambda>k. ly_closures y ! k) ks ! i = (ctx, cbs)" using True k by simp
    ultimately have "llm_view ?y = chat_work fl what i out (llm_view y)"
      unfolding llm_view_state [OF st] llm_view_state [OF y] using True
      by (simp add: chat_work_def take_map drop_map)
    with r st show ?thesis by (auto simp: llm_inv_def)
  qed
qed

lemma sys_do_simulated:
  assumes "llm_inv y"
  shows "\<exists>y'. sys_do fl what ev y = Inr y' \<and> llm_inv y' \<and> llm_view y' = engine_do fl what (engine_sees ev) (llm_view y)"
proof -
  obtain ks ds where y: "llm_state ks ds y" using assms by (auto simp: llm_inv_def)
  have inv: "llm_inv y'" if "llm_state ks' ds' y'" for ks' ds' y' using that by (auto simp: llm_inv_def)
  show ?thesis
  proof (cases ev)
    case SyStart
    with start_simulated [OF y] inv show ?thesis by auto
  next
    case (SyStep clock)
    with step_simulated [OF y, of clock] inv show ?thesis by auto
  next
    case (SyRun now clock clocks)
    with run_simulated [OF y, of now clock clocks] inv show ?thesis by auto
  qed (use stop_simulated [OF y] chat_simulated [OF y] work_simulated [OF y] in simp_all)
qed

interpretation llm: total_simulation llm_inv llm_view "sys_do fl what"
    "\<lambda>ev e e'. e' = engine_do fl what (engine_sees ev) e" for fl what
  by unfold_locales (use sys_do_simulated in \<open>metis Inr_inject\<close>)+

lemma new_llm_inv: "llm_inv (new_llm_system c)" "llm_view (new_llm_system c) = new_engine c"
proof -
  have "llm_state [] [] (new_llm_system c)"
    using plain_new [of default_scheduler_config]
    by (simp add: llm_state_def new_llm_system_def create_scheduler_def new_engine_def new_scheduler_def)
  then show "llm_inv (new_llm_system c)" by (auto simp: llm_inv_def)
  show "llm_view (new_llm_system c) = new_engine c"
    by (simp add: llm_view_def new_llm_system_def create_scheduler_def new_engine_def new_scheduler_def)
qed

lemma engine_run_fold: "fold (\<lambda>ev. engine_do fl what (engine_sees ev)) evs e = engine_run fl what (map engine_sees evs) e"
  by (induction evs arbitrary: e) simp_all

text \<open>Every session of the engine succeeds on the scheduler, and comes to what the engine does on lists.\<close>

lemma llm_session:
  "\<exists>y. for_res (sys_do fl what) evs (new_llm_system c) = Inr y \<and>
     llm_view y = engine_run fl what (map engine_sees evs) (new_engine c)"
proof -
  obtain y where y: "for_res (sys_do fl what) evs (new_llm_system c) = Inr y"
    using llm.run_total [OF new_llm_inv(1)] by blast
  with llm.sim_fun [OF _ new_llm_inv(1) y, of "\<lambda>ev. engine_do fl what (engine_sees ev)"] show ?thesis
    by (simp add: new_llm_inv(2) engine_run_fold)
qed

end
