(* ===== verification/Ws_Client.thy ===== *)
theory Ws_Client
  imports Std_Map Loop_Queue "HOL-Library.Sublist"
begin

text \<open>
  \<open>IxWsClient\<close> (src/wheel/ws_client/imp/ix_ws_client.cpp) as a state machine: the calls of its user,
  the notifications of the WebSocket library, which arrive on another thread, and the turns of the
  loop that run what was posted. The scheduler is seen as in theory \<open>Uv_Scheduler\<close>: a queue, and a
  wake-up that is only there between \<open>start\<close> and \<open>stop\<close>; waking it before the first \<open>start\<close> is undefined.
\<close>

subsection \<open>State\<close>

datatype ready_state = Connecting | Open | Closing | Closed

record ws_message =
  wm_data :: string
  wm_binary :: bool

datatype ws_task = Deliver ws_message | Fail string

text \<open>The thread of the socket: not there, in its loop, or out of it and not joined yet.\<close>

datatype ix_thread = NoThread | Looping | Ended

datatype ws_sched = SchedNew | SchedOn bool | SchedOff

text \<open>
  A callback is a number, \<open>None\<close> when it is empty; \<open>wc_received\<close> and \<open>wc_run\<close> record what the library
  handed over and what the loop has run, \<open>wc_log\<close> the calls of the callbacks.
\<close>

record ws_client =
  wc_started :: bool
  wc_on_message :: "nat option"
  wc_on_error :: "nat option"
  wc_state :: ready_state
  wc_url :: string
  wc_headers :: "(string \<times> string) list"
  wc_thread :: ix_thread
  wc_sched :: ws_sched
  wc_posted :: "ws_task list"
  wc_batch :: "ws_task list"
  wc_received :: "ws_task list"
  wc_run :: "ws_task list"
  wc_sent :: "(string \<times> bool) list"
  wc_log :: "(nat \<times> ws_task) list"

definition new_ws_client :: ws_client where
  "new_ws_client =
     \<lparr>wc_started = False, wc_on_message = None, wc_on_error = None, wc_state = Closed, wc_url = [],
      wc_headers = [], wc_thread = NoThread, wc_sched = SchedNew, wc_posted = [], wc_batch = [], wc_received = [],
      wc_run = [], wc_sent = [], wc_log = []\<rparr>"

text \<open>\<open>WsClientFactory\<close>.\<close>

definition create_ws_client :: ws_client where
  "create_ws_client = new_ws_client"

definition ws_name :: "ws_client \<Rightarrow> string" where
  "ws_name w = ''ws_client''"

definition ws_health_check :: "ws_client \<Rightarrow> bool" where
  "ws_health_check w = wc_started w"

definition ws_ready_state :: "ws_client \<Rightarrow> ready_state" where
  "ws_ready_state w = wc_state w"

subsection \<open>Calls\<close>

definition ws_start :: "ws_client \<Rightarrow> ws_client" where
  "ws_start w = (if wc_started w then w else w\<lparr>wc_sched := SchedOn False, wc_started := True\<rparr>)"

definition ws_stop :: "ws_client \<Rightarrow> ws_client" where
  "ws_stop w =
     (if \<not> wc_started w then w
      else w\<lparr>wc_thread := NoThread, wc_state := Closed, wc_sched := SchedOff, wc_started := False\<rparr>)"

text \<open>The header map of the library ignores case: a later name replaces the value of an earlier one.\<close>

definition lower_char :: "char \<Rightarrow> char" where
  "lower_char c = (if 65 \<le> (of_char c :: nat) \<and> (of_char c :: nat) \<le> 90 then char_of (of_char c + 32 :: nat) else c)"

fun put_header :: "string \<Rightarrow> string \<Rightarrow> (string \<times> string) list \<Rightarrow> (string \<times> string) list" where
  "put_header k v [] = [(k, v)]"
| "put_header k v ((k', v') # hs) =
     (if map lower_char k = map lower_char k' then (k', v) # hs else (k', v') # put_header k v hs)"

definition ix_headers :: "(string, string) smap \<Rightarrow> (string \<times> string) list" where
  "ix_headers headers = foldl (\<lambda>hs (k, v). put_header k v hs) [] headers"

text \<open>\<open>ws_.start()\<close> does nothing while a thread is there, even one that has ended.\<close>

definition ix_start :: "ws_client \<Rightarrow> ws_client" where
  "ix_start w = (if wc_thread w = NoThread then w\<lparr>wc_thread := Looping\<rparr> else w)"

definition ws_connect :: "string \<Rightarrow> (string, string) smap \<Rightarrow> nat option \<Rightarrow> nat option \<Rightarrow> ws_client \<Rightarrow> ws_client" where
  "ws_connect url headers on_message on_error w =
     ix_start (w\<lparr>wc_on_message := on_message, wc_on_error := on_error, wc_state := Connecting, wc_url := url,
       wc_headers := ix_headers headers\<rparr>)"

definition ws_disconnect :: "ws_client \<Rightarrow> ws_client" where
  "ws_disconnect w = (if wc_state w = Closed then w else w\<lparr>wc_thread := NoThread, wc_state := Closed\<rparr>)"

definition ws_send :: "string \<Rightarrow> bool \<Rightarrow> ws_client \<Rightarrow> ws_client" where
  "ws_send data is_binary w = w\<lparr>wc_sent := wc_sent w @ [(data, is_binary)]\<rparr>"

definition ws_destroy :: "ws_client \<Rightarrow> ws_client" where
  "ws_destroy w =
     (let w1 = w\<lparr>wc_thread := NoThread\<rparr>
      in if wc_started w1 then w1\<lparr>wc_sched := SchedOff\<rparr> else w1)"

subsection \<open>Notifications and the loop\<close>

definition ws_post :: "ws_task \<Rightarrow> ws_client \<Rightarrow> ws_client result" where
  "ws_post t w =
     (let w1 = w\<lparr>wc_posted := wc_posted w @ [t], wc_received := wc_received w @ [t]\<rparr>
      in case wc_sched w of
           SchedNew \<Rightarrow> Inl Undefined
         | SchedOn wake \<Rightarrow> Inr (w1\<lparr>wc_sched := SchedOn True\<rparr>)
         | SchedOff \<Rightarrow> Inr w1)"

datatype ix_event = IxOpen | IxClose | IxError string | IxMessage string bool | IxOther

text \<open>The callback given to the library; it is called by the thread of the socket.\<close>

definition on_ix_event :: "ix_event \<Rightarrow> ws_client \<Rightarrow> ws_client result" where
  "on_ix_event ev w =
     (case ev of
        IxOpen \<Rightarrow> Inr (w\<lparr>wc_state := Open\<rparr>)
      | IxClose \<Rightarrow> Inr (w\<lparr>wc_state := Closed\<rparr>)
      | IxError reason \<Rightarrow> ws_post (Fail reason) (w\<lparr>wc_state := Closed\<rparr>)
      | IxMessage data binary \<Rightarrow> ws_post (Deliver \<lparr>wm_data = data, wm_binary = binary\<rparr>) w
      | IxOther \<Rightarrow> Inr w)"

definition call_ws :: "nat option \<Rightarrow> ws_task \<Rightarrow> ws_client \<Rightarrow> ws_client" where
  "call_ws cb t w = (case cb of None \<Rightarrow> w | Some n \<Rightarrow> w\<lparr>wc_log := wc_log w @ [(n, t)]\<rparr>)"

text \<open>The posted lambda: it reads the callback when it runs.\<close>

definition run_ws_task :: "ws_task \<Rightarrow> ws_client \<Rightarrow> ws_client" where
  "run_ws_task t w =
     (case t of Deliver _ \<Rightarrow> call_ws (wc_on_message w) t w | Fail _ \<Rightarrow> call_ws (wc_on_error w) t w)
     \<lparr>wc_run := wc_run w @ [t]\<rparr>"

text \<open>
  A turn of the loop takes the whole queue when it was woken, and then runs it task by task, so that
  the calls a callback makes come in between. A batch that was taken is run to its end, even when one
  of its callbacks stops the client.
\<close>

definition ws_step :: "ws_client \<Rightarrow> ws_client" where
  "ws_step w =
     (case wc_batch w of
        t # ts \<Rightarrow> run_ws_task t (w\<lparr>wc_batch := ts\<rparr>)
      | [] \<Rightarrow> if wc_sched w = SchedOn True then
                 w\<lparr>wc_batch := wc_posted w, wc_posted := [], wc_sched := SchedOn False\<rparr>
               else w)"

subsection \<open>The state machine\<close>

inductive ws_trans :: "ws_client \<Rightarrow> ws_client \<Rightarrow> bool" where
  start: "ws_trans w (ws_start w)"
| stop: "ws_trans w (ws_stop w)"
| connect: "ws_trans w (ws_connect url headers on_message on_error w)"
| disconnect: "ws_trans w (ws_disconnect w)"
| send: "ws_trans w (ws_send data is_binary w)"
| thread_ends: "wc_thread w = Looping \<Longrightarrow> wc_state w = Closed \<Longrightarrow> ws_trans w (w\<lparr>wc_thread := Ended\<rparr>)"
| notify: "wc_thread w = Looping \<Longrightarrow> on_ix_event ev w = Inr w' \<Longrightarrow> ws_trans w w'"
| step: "ws_trans w (ws_step w)"

inductive ws_reach :: "ws_client \<Rightarrow> bool" where
  fresh: "ws_reach new_ws_client"
| moves: "ws_reach w \<Longrightarrow> ws_trans w w' \<Longrightarrow> ws_reach w'"

inductive_cases ws_transE: "ws_trans w w'"

text \<open>The same machine with its moves as events, so that what arrives can be read off a sequence of them.\<close>

datatype ws_client_event =
    WeStart | WeStop | WeConnect string "(string, string) smap" "nat option" "nat option" | WeDisconnect
  | WeSend string bool | WeEnds | WeNotify ix_event | WeStep

fun ws_do :: "ws_client_event \<Rightarrow> ws_client \<Rightarrow> ws_client result" where
  "ws_do WeStart w = Inr (ws_start w)"
| "ws_do WeStop w = Inr (ws_stop w)"
| "ws_do (WeConnect url headers on_message on_error) w = Inr (ws_connect url headers on_message on_error w)"
| "ws_do WeDisconnect w = Inr (ws_disconnect w)"
| "ws_do (WeSend data is_binary) w = Inr (ws_send data is_binary w)"
| "ws_do WeEnds w =
     Inr (if wc_thread w = Looping \<and> wc_state w = Closed then w\<lparr>wc_thread := Ended\<rparr> else w)"
| "ws_do (WeNotify ev) w = (if wc_thread w = Looping then on_ix_event ev w else Inr w)"
| "ws_do WeStep w = Inr (ws_step w)"

lemma ws_do_trans: "ws_do e w = Inr w' \<Longrightarrow> w' = w \<or> ws_trans w w'"
  by (cases e) (auto intro: ws_trans.intros split: if_splits)

lemma ws_run_reach: "for_res ws_do es w = Inr w' \<Longrightarrow> ws_reach w \<Longrightarrow> ws_reach w'"
proof (induction es arbitrary: w)
  case (Cons e es)
  then obtain w1 where w1: "ws_do e w = Inr w1" "for_res ws_do es w1 = Inr w'" by (auto simp: bind_res_Inr_iff)
  from ws_do_trans [OF w1(1)] Cons.prems(2) have "ws_reach w1" by (auto intro: ws_reach.moves)
  with Cons.IH w1(2) show ?case by blast
qed simp

text \<open>
  Without a thread the state is closed, an open socket has a thread in its loop, the scheduler is on exactly while the client is started, and
  everything the library handed over has been run or is queued, in order.
\<close>

definition ws_inv :: "ws_client \<Rightarrow> bool" where
  "ws_inv w \<longleftrightarrow> (wc_thread w = NoThread \<longrightarrow> wc_state w = Closed) \<and> (wc_state w = Open \<longrightarrow> wc_thread w = Looping) \<and> (wc_started w \<longleftrightarrow> (\<exists>b. wc_sched w = SchedOn b)) \<and>
     wc_received w = wc_run w @ wc_batch w @ wc_posted w"

lemmas ws_defs = ix_start_def ws_start_def ws_stop_def ws_connect_def ws_disconnect_def ws_send_def on_ix_event_def
  ws_post_def ws_step_def run_ws_task_def call_ws_def

lemma ws_trans_inv: "ws_trans w w' \<Longrightarrow> ws_inv w \<Longrightarrow> ws_inv w'"
  by (elim ws_transE)
     (auto simp: ws_inv_def ws_defs Let_def
        split: if_splits ix_event.splits ws_sched.splits list.splits ws_task.splits option.splits)

lemma ws_reach_inv: "ws_reach w \<Longrightarrow> ws_inv w"
  by (induction rule: ws_reach.induct) (auto simp: new_ws_client_def ws_inv_def dest: ws_trans_inv)

text \<open>
  Once the peer has closed the connection and the thread has ended, a new \<open>connect\<close> opens nothing:
  \<open>disconnect\<close> returns early on a closed socket, so that nobody joins the thread.
\<close>

definition ws_trans_unjoined :: "ws_client \<Rightarrow> ws_client \<Rightarrow> bool" where
  "ws_trans_unjoined w w' \<longleftrightarrow> ws_trans w w' \<and> wc_thread w' \<noteq> NoThread"

lemma ended_trans:
  assumes "ws_trans_unjoined w w'" "wc_thread w = Ended"
  shows "wc_thread w' = Ended \<and> wc_received w' = wc_received w \<and> (wc_state w \<noteq> Open \<longrightarrow> wc_state w' \<noteq> Open) \<and>
    (\<exists>done ls. wc_batch w @ wc_posted w = done @ wc_batch w' @ wc_posted w' \<and> wc_log w' = wc_log w @ ls \<and>
      subseq (map snd ls) done)"
  using assms unfolding ws_trans_unjoined_def
  by (elim conjE ws_transE)
     (auto simp: ws_defs Let_def split: if_splits list.splits ws_task.splits option.splits)

text \<open>What is delivered from then on was queued before.\<close>

lemma ended_stays:
  assumes "ws_trans_unjoined\<^sup>*\<^sup>* w w'" "wc_thread w = Ended" "wc_state w \<noteq> Open"
  shows "wc_thread w' = Ended \<and> wc_received w' = wc_received w \<and> wc_state w' \<noteq> Open \<and>
    (\<exists>done ls. wc_batch w @ wc_posted w = done @ wc_batch w' @ wc_posted w' \<and> wc_log w' = wc_log w @ ls \<and>
      subseq (map snd ls) done)"
  using assms
proof (induction rule: rtranclp_induct)
  case (step w1 w2)
  then obtain d ls where w1: "wc_thread w1 = Ended" "wc_received w1 = wc_received w" "wc_state w1 \<noteq> Open"
    "wc_batch w @ wc_posted w = d @ wc_batch w1 @ wc_posted w1" "wc_log w1 = wc_log w @ ls" "subseq (map snd ls) d"
    by blast
  from ended_trans [OF step.hyps(2) w1(1)] w1(3) obtain d' ls' where
    w2: "wc_thread w2 = Ended" "wc_received w2 = wc_received w1" "wc_state w2 \<noteq> Open"
    "wc_batch w1 @ wc_posted w1 = d' @ wc_batch w2 @ wc_posted w2" "wc_log w2 = wc_log w1 @ ls'" "subseq (map snd ls') d'"
    by blast
  have "subseq (map snd (ls @ ls')) (d @ d')" using w1(6) w2(6) by (simp add: list_emb_append_mono)
  with w1 w2 show ?case by (intro conjI exI [of _ "d @ d'"] exI [of _ "ls @ ls'"]) simp_all
qed auto

text \<open>Turns of the loop run the batch, task by task.\<close>

lemma ws_batch_runs:
  "wc_run ((ws_step ^^ length (wc_batch w)) w) = wc_run w @ wc_batch w \<and>
   wc_batch ((ws_step ^^ length (wc_batch w)) w) = [] \<and>
   wc_posted ((ws_step ^^ length (wc_batch w)) w) = wc_posted w \<and>
   wc_sched ((ws_step ^^ length (wc_batch w)) w) = wc_sched w"
proof (induction "wc_batch w" arbitrary: w)
  case Nil
  then show ?case by simp
next
  case (Cons t ts)
  have step: "ws_step w = run_ws_task t (w\<lparr>wc_batch := ts\<rparr>)"
    using Cons.hyps(2) [symmetric] by (simp add: ws_step_def)
  then have "wc_batch (ws_step w) = ts" "wc_run (ws_step w) = wc_run w @ [t]"
    "wc_posted (ws_step w) = wc_posted w" "wc_sched (ws_step w) = wc_sched w"
    by (auto simp: run_ws_task_def call_ws_def split: ws_task.split option.split)
  with Cons.hyps(1) [of "ws_step w"] Cons.hyps(2) [symmetric] show ?case
    by (simp add: funpow_swap1)
qed

definition ws_turns :: "ws_client \<Rightarrow> nat" where
  "ws_turns w = length (wc_posted w) + Suc (length (wc_batch w))"

text \<open>
  What arrives, read off the events: messages and errors, while the socket has its thread in the loop.
  What it comes to is seen in \<open>wc_log\<close> only.
\<close>

fun arrival :: "ix_event \<Rightarrow> ws_task list" where
  "arrival (IxMessage data binary) = [Deliver \<lparr>wm_data = data, wm_binary = binary\<rparr>]"
| "arrival (IxError reason) = [Fail reason]"
| "arrival _ = []"

fun arrivals :: "ws_client_event list \<Rightarrow> ws_client \<Rightarrow> ws_task list" where
  "arrivals [] w = []"
| "arrivals (e # es) w =
     (case e of WeNotify ev \<Rightarrow> if wc_thread w = Looping then arrival ev else [] | _ \<Rightarrow> []) @
     (case ws_do e w of Inl _ \<Rightarrow> [] | Inr w' \<Rightarrow> arrivals es w')"

text \<open>Every connection is opened with a callback of \<open>A\<close> for messages and one of \<open>B\<close> for errors.\<close>

fun connects_with :: "nat set \<Rightarrow> nat set \<Rightarrow> ws_client_event \<Rightarrow> bool" where
  "connects_with A B (WeConnect url headers cb1 cb2) \<longleftrightarrow> (\<exists>a \<in> A. cb1 = Some a) \<and> (\<exists>b \<in> B. cb2 = Some b)"
| "connects_with A B _ \<longleftrightarrow> True"

fun calls_one_of :: "nat set \<Rightarrow> nat set \<Rightarrow> nat \<times> ws_task \<Rightarrow> ws_task \<Rightarrow> bool" where
  "calls_one_of A B (n, u) (Deliver msg) \<longleftrightarrow> u = Deliver msg \<and> n \<in> A"
| "calls_one_of A B (n, u) (Fail reason) \<longleftrightarrow> u = Fail reason \<and> n \<in> B"

text \<open>\<open>ts\<close> has arrived; it has been called back or is queued, and there is a callback for what is queued.\<close>

definition ws_seen :: "nat set \<Rightarrow> nat set \<Rightarrow> ws_task list \<Rightarrow> ws_client \<Rightarrow> bool" where
  "ws_seen A B ts w \<longleftrightarrow>
     (\<exists>done. ts = done @ wc_batch w @ wc_posted w \<and> list_all2 (calls_one_of A B) (wc_log w) done) \<and>
     (wc_thread w \<noteq> NoThread \<or> wc_batch w @ wc_posted w \<noteq> [] \<longrightarrow>
       (\<exists>a \<in> A. wc_on_message w = Some a) \<and> (\<exists>b \<in> B. wc_on_error w = Some b))"

lemma ws_seen_task:
  assumes "ws_seen A B ts w" "wc_batch w = t # rest"
  shows "ws_seen A B ts (ws_step w)"
proof -
  obtain d where d: "ts = d @ wc_batch w @ wc_posted w" "list_all2 (calls_one_of A B) (wc_log w) d"
    using assms(1) by (auto simp: ws_seen_def)
  obtain a b where ab: "a \<in> A" "wc_on_message w = Some a" "b \<in> B" "wc_on_error w = Some b"
    using assms by (auto simp: ws_seen_def)
  have "\<exists>n. wc_log (ws_step w) = wc_log w @ [(n, t)] \<and> calls_one_of A B (n, t) t"
    using ab assms(2) by (cases t) (auto simp: ws_step_def run_ws_task_def call_ws_def)
  moreover have "wc_batch (ws_step w) = rest" "wc_posted (ws_step w) = wc_posted w"
    "wc_on_message (ws_step w) = wc_on_message w" "wc_on_error (ws_step w) = wc_on_error w"
    using assms(2) ab by (cases t; simp add: ws_step_def run_ws_task_def call_ws_def)+
  ultimately show ?thesis
    using d ab assms(2) unfolding ws_seen_def
    by (intro conjI exI [of _ "d @ [t]"]) (auto intro: list_all2_appendI)
qed

lemma ws_seen_step: "ws_seen A B ts w \<Longrightarrow> ws_seen A B ts (ws_step w)"
proof (cases "wc_batch w")
  case Nil
  assume "ws_seen A B ts w"
  with Nil show ?thesis by (auto simp: ws_seen_def ws_step_def)
qed (rule ws_seen_task)

lemma ws_seen_do:
  assumes "ws_seen A B ts w" "ws_do e w = Inr w'" "connects_with A B e"
  shows "ws_seen A B (ts @ (case e of WeNotify ev \<Rightarrow> if wc_thread w = Looping then arrival ev else [] | _ \<Rightarrow> [])) w'"
proof (cases e)
  case (WeNotify ev)
  then show ?thesis
    using assms by (cases ev; cases "wc_sched w") (auto simp: ws_seen_def on_ix_event_def ws_post_def Let_def split: if_splits)
next
  case WeStep
  then show ?thesis using ws_seen_step [OF assms(1)] assms(2) by auto
qed (use assms in \<open>auto simp: ws_seen_def ws_defs split: if_splits\<close>)

lemma ws_seen_run:
  "for_res ws_do es w = Inr w' \<Longrightarrow> list_all (connects_with A B) es \<Longrightarrow> ws_seen A B ts w \<Longrightarrow>
   ws_seen A B (ts @ arrivals es w) w'"
proof (induction es arbitrary: w ts)
  case (Cons e es)
  then obtain w1 where w1: "ws_do e w = Inr w1" "for_res ws_do es w1 = Inr w'" by (auto simp: bind_res_Inr_iff)
  have "ws_seen A B (ts @ (case e of WeNotify ev \<Rightarrow> if wc_thread w = Looping then arrival ev else [] | _ \<Rightarrow> [])) w1"
    using ws_seen_do [OF Cons.prems(3) w1(1)] Cons.prems(2) by simp
  from Cons.IH [OF w1(2) _ this] Cons.prems(2) show ?case by (simp add: w1(1))
qed simp

lemma ws_seen_steps: "ws_seen A B ts w \<Longrightarrow> ws_seen A B ts ((ws_step ^^ n) w)"
  by (induction n) (simp_all add: ws_seen_step)

text \<open>A woken loop has an empty queue after these turns.\<close>

lemma ws_steps_empty:
  assumes "wc_sched w = SchedOn True"
  shows "wc_batch ((ws_step ^^ ws_turns w) w) = [] \<and> wc_posted ((ws_step ^^ ws_turns w) w) = []"
proof -
  let ?w = "(ws_step ^^ length (wc_batch w)) w"
  note b = ws_batch_runs [of w]
  let ?v = "?w\<lparr>wc_batch := wc_posted w, wc_posted := [], wc_sched := SchedOn False\<rparr>"
  have v: "ws_step ?w = ?v" using b assms by (simp add: ws_step_def)
  have "(ws_step ^^ ws_turns w) w = (ws_step ^^ length (wc_posted w)) (ws_step ?w)"
    by (simp add: ws_turns_def funpow_add funpow_swap1)
  then show ?thesis using ws_batch_runs [of ?v] by (simp add: v)
qed

lemma ws_seen_all:
  "ws_seen A B ts w \<Longrightarrow> wc_sched w = SchedOn True \<Longrightarrow>
   list_all2 (calls_one_of A B) (wc_log ((ws_step ^^ ws_turns w) w)) ts"
  using ws_seen_steps [of A B ts w "ws_turns w"] ws_steps_empty [of w] by (auto simp: ws_seen_def)

text \<open>What arrives at a started client wakes the loop, and so is called back with all that came before.\<close>

lemma arrival_wakes:
  assumes "ws_inv w" "wc_started w" "arrival ev \<noteq> []"
  shows "\<exists>w'. on_ix_event ev w = Inr w' \<and> wc_sched w' = SchedOn True"
  using assms by (cases ev) (auto simp: ws_inv_def on_ix_event_def ws_post_def Let_def)

lemma arrival_delivered:
  assumes "ws_seen A B ts w" "ws_inv w" "wc_started w" "wc_thread w = Looping" "arrival ev \<noteq> []"
  shows "\<exists>w'. on_ix_event ev w = Inr w' \<and>
    list_all2 (calls_one_of A B) (wc_log ((ws_step ^^ ws_turns w') w')) (ts @ arrival ev)"
proof -
  obtain w' where w': "on_ix_event ev w = Inr w'" "wc_sched w' = SchedOn True"
    using arrival_wakes [OF assms(2,3,5)] by blast
  have "ws_seen A B (ts @ arrival ev) w'"
    using ws_seen_do [OF assms(1), of "WeNotify ev" w'] w'(1) assms(4) by simp
  with ws_seen_all w' show ?thesis by blast
qed

text \<open>The queue the client posts to meets the contract of the scheduler.\<close>

definition ws_posted :: "ws_task \<Rightarrow> ws_client \<Rightarrow> ws_client" where
  "ws_posted t w =
     (case ws_post t w of Inr w' \<Rightarrow> w' | Inl _ \<Rightarrow> w\<lparr>wc_posted := wc_posted w @ [t], wc_received := wc_received w @ [t]\<rparr>)"

definition ws_turn :: "ws_client \<Rightarrow> ws_task list \<times> ws_client" where
  "ws_turn w =
     (if wc_sched w = SchedOn True
      then (wc_posted w, w\<lparr>wc_batch := wc_posted w, wc_posted := [], wc_sched := SchedOn False\<rparr>) else ([], w))"

interpretation ws_queue: loop_queue wc_posted "\<lambda>w. wc_sched w = SchedOn True" "\<lambda>w. \<exists>b. wc_sched w = SchedOn b"
    ws_posted ws_turn
  by unfold_locales (auto simp: ws_posted_def ws_turn_def ws_post_def Let_def split: ws_sched.splits)

lemma ws_step_turn: "wc_batch w = [] \<Longrightarrow> ws_step w = snd (ws_turn w)"
  by (simp add: ws_step_def ws_turn_def)

end
