(* ===== verification/Ws_On_Scheduler.thy ===== *)
theory Ws_On_Scheduler
  imports Ws_Client Scheduler_Clients
begin

text \<open>
  The WebSocket client together with its scheduler: what the socket thread posts goes to \<open>post\<close> of
  \<open>UvScheduler\<close>, and start, stop, step and run are those of its loop. A posted lambda is an entry of
  \<open>wy_tasks\<close>, and the signals of a turn tell which of them the scheduler has called. The client of theory
  \<open>Ws_Client\<close>, which sees the scheduler as a queue with a wake-up, is an abstraction of it: whatever the
  system does is a sequence of steps of the state machine \<open>ws_trans\<close>.
\<close>

text \<open>The interface \<open>WsClient\<close>, with the readings of the clock during a call.\<close>

datatype ws_op =
    OpStart
  | OpStop "u64 \<times> u64"
  | OpConnect string "(string, string) smap" "nat option" "nat option"
  | OpDisconnect
  | OpSend string bool
  | OpStep "u64 \<times> u64"
  | OpRun u64 "u64 \<times> u64" "(u64 \<times> u64) list"

datatype ws_input =
    Api ws_op
  | ThreadEnds
  | Notify ix_event

record ws_system =
  wy_client :: ws_client
  wy_tasks :: "ws_task list"
  wy_sched :: scheduler

definition new_ws_system :: ws_system where
  "new_ws_system = \<lparr>wy_client = create_ws_client, wy_tasks = [], wy_sched = create_scheduler None\<rparr>"

text \<open>The lambdas that the scheduler has called run.\<close>

definition wsys_called :: "scheduler \<Rightarrow> ws_system \<Rightarrow> ws_system" where
  "wsys_called s y = y\<lparr>wy_sched := s,
     wy_client := fold (\<lambda>k. run_ws_task (wy_tasks y ! k)) (drop (length (us_log (wy_sched y))) (us_log s)) (wy_client y)\<rparr>"

definition wsys_start :: "ws_system \<Rightarrow> ws_system result" where
  "wsys_start y =
     (if wc_started (wy_client y) then Inr y
      else bind_res (sched_start (wy_sched y))
             (\<lambda>s. Inr (y\<lparr>wy_sched := s, wy_client := (wy_client y)\<lparr>wc_started := True\<rparr>\<rparr>)))"

definition wsys_stop :: "u64 \<times> u64 \<Rightarrow> ws_system \<Rightarrow> ws_system result" where
  "wsys_stop clock y =
     (if \<not> wc_started (wy_client y) then Inr y
      else bind_res (sched_stop (wy_sched y)) (\<lambda>s.
           bind_res (step clock s) (\<lambda>s'.
             let y1 = wsys_called s' (y\<lparr>wy_sched := s,
                        wy_client := (wy_client y)\<lparr>wc_thread := NoThread, wc_state := Closed\<rparr>\<rparr>)
             in Inr (y1\<lparr>wy_client := (wy_client y1)\<lparr>wc_started := False\<rparr>\<rparr>))))"

fun ws_call :: "ws_op \<Rightarrow> ws_system \<Rightarrow> ws_system result" where
  "ws_call OpStart y = wsys_start y"
| "ws_call (OpStop clock) y = wsys_stop clock y"
| "ws_call (OpConnect url headers on_message on_error) y =
     Inr (y\<lparr>wy_client := ws_connect url headers on_message on_error (wy_client y)\<rparr>)"
| "ws_call OpDisconnect y = Inr (y\<lparr>wy_client := ws_disconnect (wy_client y)\<rparr>)"
| "ws_call (OpSend data is_binary) y = Inr (y\<lparr>wy_client := ws_send data is_binary (wy_client y)\<rparr>)"
| "ws_call (OpStep clock) y = bind_res (step clock (wy_sched y)) (\<lambda>s. Inr (wsys_called s y))"
| "ws_call (OpRun now clock clocks) y =
     bind_res (run now (clock # clocks) (wy_sched y)) (\<lambda>s. Inr (wsys_called s y))"

definition wsys_post :: "ws_task \<Rightarrow> ws_system \<Rightarrow> ws_system result" where
  "wsys_post t y =
     bind_res (post (signal (length (wy_tasks y))) (wy_sched y)) (\<lambda>s.
       Inr (y\<lparr>wy_tasks := wy_tasks y @ [t], wy_sched := s,
              wy_client := (wy_client y)\<lparr>wc_received := wc_received (wy_client y) @ [t]\<rparr>\<rparr>))"

definition set_state :: "ready_state \<Rightarrow> ws_system \<Rightarrow> ws_system" where
  "set_state st y = y\<lparr>wy_client := (wy_client y)\<lparr>wc_state := st\<rparr>\<rparr>"

definition wsys_notify :: "ix_event \<Rightarrow> ws_system \<Rightarrow> ws_system result" where
  "wsys_notify ev y =
     (case ev of
        IxOpen \<Rightarrow> Inr (set_state Open y)
      | IxClose \<Rightarrow> Inr (set_state Closed y)
      | IxError reason \<Rightarrow> wsys_post (Fail reason) (set_state Closed y)
      | IxMessage data binary \<Rightarrow> wsys_post (Deliver \<lparr>wm_data = data, wm_binary = binary\<rparr>) y
      | IxOther \<Rightarrow> Inr y)"

text \<open>The thread of the socket acts while it is in its loop; it leaves the loop when the socket is closed.\<close>

fun wsys_do :: "ws_input \<Rightarrow> ws_system \<Rightarrow> ws_system result" where
  "wsys_do (Api p) y = ws_call p y"
| "wsys_do ThreadEnds y =
     Inr (if wc_thread (wy_client y) = Looping \<and> wc_state (wy_client y) = Closed
          then y\<lparr>wy_client := (wy_client y)\<lparr>wc_thread := Ended\<rparr>\<rparr> else y)"
| "wsys_do (Notify ev) y = (if wc_thread (wy_client y) = Looping then wsys_notify ev y else Inr y)"

subsection \<open>The abstraction\<close>

fun sched_view :: "async_handle \<Rightarrow> ws_sched" where
  "sched_view AUninit = SchedNew"
| "sched_view (ALive b) = SchedOn b"
| "sched_view AClosing = SchedOff"
| "sched_view AClosed = SchedOff"

definition with_queue :: "ws_sched \<Rightarrow> ws_task list \<Rightarrow> ws_client \<Rightarrow> ws_client" where
  "with_queue sc ts w = w\<lparr>wc_sched := sc, wc_posted := ts, wc_batch := []\<rparr>"

definition ws_view :: "ws_system \<Rightarrow> ws_client" where
  "ws_view y = with_queue (sched_view (us_async (wy_sched y)))
     (map (\<lambda>cb. wy_tasks y ! signal_of cb) (us_post_queue (wy_sched y))) (wy_client y)"

definition ws_state :: "nat list \<Rightarrow> ws_system \<Rightarrow> bool" where
  "ws_state ps y \<longleftrightarrow> plain [] [] ps (wy_sched y) \<and> (\<forall>k \<in> set ps. k < length (wy_tasks y)) \<and>
     us_async (wy_sched y) \<noteq> AClosing \<and> wc_started (wy_client y) = us_started (wy_sched y)"

definition ws_sys_inv :: "ws_system \<Rightarrow> bool" where
  "ws_sys_inv y \<longleftrightarrow> (\<exists>ps. ws_state ps y)"

lemma ws_view_state:
  "ws_state ps y \<Longrightarrow>
   ws_view y = with_queue (sched_view (us_async (wy_sched y))) (map (\<lambda>k. wy_tasks y ! k) ps) (wy_client y)"
  by (simp add: ws_view_def ws_state_def plain_def comp_def)

lemma with_queue_fields [simp]:
  "wc_sched (with_queue sc ts w) = sc" "wc_posted (with_queue sc ts w) = ts" "wc_batch (with_queue sc ts w) = []"
  "wc_started (with_queue sc ts w) = wc_started w" "wc_thread (with_queue sc ts w) = wc_thread w"
  "wc_state (with_queue sc ts w) = wc_state w"
  by (simp_all add: with_queue_def)

lemma run_ws_queue: "run_ws_task t (with_queue sc ts w) = with_queue sc ts (run_ws_task t w)"
  by (auto simp: with_queue_def run_ws_task_def call_ws_def split: ws_task.split option.split)

lemma run_ws_batch: "run_ws_task t (w\<lparr>wc_batch := ts\<rparr>) = (run_ws_task t w)\<lparr>wc_batch := ts\<rparr>"
  by (auto simp: run_ws_task_def call_ws_def split: ws_task.split option.split)

lemma run_ws_started: "wc_started (fold run_ws_task ts w) = wc_started w"
proof (induction ts arbitrary: w)
  case (Cons t ts)
  have "wc_started (run_ws_task t w) = wc_started w"
    by (auto simp: run_ws_task_def call_ws_def split: ws_task.split option.split)
  with Cons show ?case by simp
qed simp

lemma fold_queue: "fold run_ws_task ts (with_queue sc us w) = with_queue sc us (fold run_ws_task ts w)"
  by (induction ts arbitrary: w) (simp_all add: run_ws_queue)

text \<open>A whole batch is as many steps of the state machine.\<close>

lemma ws_steps: "ws_trans\<^sup>*\<^sup>* w ((ws_step ^^ n) w)"
proof (induction n)
  case (Suc n)
  moreover have "ws_trans ((ws_step ^^ n) w) ((ws_step ^^ Suc n) w)" by (simp add: ws_trans.step)
  ultimately show ?case by (rule rtranclp.rtrancl_into_rtrancl)
qed simp

lemma ws_batch_fold: "(ws_step ^^ length ts) (w\<lparr>wc_batch := ts\<rparr>) = (fold run_ws_task ts w)\<lparr>wc_batch := []\<rparr>"
proof (induction ts arbitrary: w)
  case (Cons t ts)
  have "ws_step (w\<lparr>wc_batch := t # ts\<rparr>) = (run_ws_task t w)\<lparr>wc_batch := ts\<rparr>"
    by (simp add: ws_step_def run_ws_batch)
  with Cons.IH [of "run_ws_task t w"] show ?case by (simp add: funpow_swap1)
qed simp

lemma woken_turn:
  "ws_trans\<^sup>*\<^sup>* (with_queue (SchedOn True) ts w) (with_queue (SchedOn False) [] (fold run_ws_task ts w))"
proof -
  let ?v = "with_queue (SchedOn False) [] w"
  have "ws_step (with_queue (SchedOn True) ts w) = ?v\<lparr>wc_batch := ts\<rparr>"
    by (simp add: ws_step_def with_queue_def)
  then have "(ws_step ^^ Suc (length ts)) (with_queue (SchedOn True) ts w) = (fold run_ws_task ts ?v)\<lparr>wc_batch := []\<rparr>"
    using ws_batch_fold [of ts ?v] by (simp add: funpow_swap1)
  also have "\<dots> = with_queue (SchedOn False) [] (fold run_ws_task ts w)"
    unfolding fold_queue by (simp add: with_queue_def)
  finally show ?thesis using ws_steps [of "with_queue (SchedOn True) ts w" "Suc (length ts)"] by simp
qed

text \<open>A turn of the loop, by step or by run.\<close>

lemma ws_turn_simulated:
  assumes y: "ws_state ps y"
    and s': "plain [] [] (if us_async (wy_sched y) = ALive True then [] else ps) s'"
      "us_log s' = us_log (wy_sched y) @ (if us_async (wy_sched y) = ALive True then ps else [])"
      "us_async s' = handle_after (us_async (wy_sched y))" "us_started s' = us_started (wy_sched y)"
  shows "ws_sys_inv (wsys_called s' y) \<and> ws_trans\<^sup>*\<^sup>* (ws_view y) (ws_view (wsys_called s' y))"
proof -
  have f: "fold (\<lambda>k. run_ws_task (wy_tasks y ! k)) ks w = fold run_ws_task (map (\<lambda>k. wy_tasks y ! k) ks) w" for ks w
    by (induction ks arbitrary: w) simp_all
  show ?thesis
  proof (cases "us_async (wy_sched y) = ALive True")
    case True
    have st: "ws_state [] (wsys_called s' y)"
      using y s' True by (simp add: ws_state_def wsys_called_def f run_ws_started)
    show ?thesis
      unfolding ws_view_state [OF st] ws_view_state [OF y]
      using st s' True woken_turn by (auto simp: wsys_called_def f ws_sys_inv_def)
  next
    case False
    have st: "ws_state ps (wsys_called s' y)"
      using y s' False by (cases "us_async (wy_sched y)") (simp_all add: ws_state_def wsys_called_def)
    have "sched_view (us_async s') = sched_view (us_async (wy_sched y))"
      using y s'(3) False by (cases "us_async (wy_sched y)") (auto simp: ws_state_def)
    then show ?thesis
      unfolding ws_view_state [OF st] ws_view_state [OF y]
      using st s'(2) False by (auto simp: wsys_called_def ws_sys_inv_def)
  qed
qed

lemma wsys_start_simulated:
  assumes y: "ws_state ps y"
  shows "\<exists>y'. wsys_start y = Inr y' \<and> ws_sys_inv y' \<and> ws_view y' = ws_start (ws_view y)"
proof (cases "wc_started (wy_client y)")
  case True
  with y show ?thesis by (auto simp: wsys_start_def ws_start_def ws_view_def ws_sys_inv_def)
next
  case False
  with y have p: "plain [] [] ps (wy_sched y)" "us_async (wy_sched y) \<noteq> AClosing" "\<not> us_started (wy_sched y)"
    by (simp_all add: ws_state_def)
  obtain s' where s': "sched_start (wy_sched y) = Inr s'" "plain [] [] ps s'" "us_async s' = ALive False" "us_started s'"
    using plain_start [OF p] by blast
  let ?y = "y\<lparr>wy_sched := s', wy_client := (wy_client y)\<lparr>wc_started := True\<rparr>\<rparr>"
  have st: "ws_state ps ?y" using y s' by (simp add: ws_state_def)
  have "wsys_start y = Inr ?y" using s'(1) False by (simp add: wsys_start_def)
  moreover have "ws_view ?y = ws_start (ws_view y)"
    unfolding ws_view_state [OF st] ws_view_state [OF y] using False s'(3)
    by (simp add: ws_start_def with_queue_def)
  ultimately show ?thesis using st by (auto simp: ws_sys_inv_def)
qed

lemma wsys_stop_simulated:
  assumes y: "ws_state ps y"
  shows "\<exists>y'. wsys_stop clock y = Inr y' \<and> ws_sys_inv y' \<and> ws_trans\<^sup>*\<^sup>* (ws_view y) (ws_view y')"
proof (cases "wc_started (wy_client y)")
  case False
  with y show ?thesis by (auto simp: wsys_stop_def ws_sys_inv_def)
next
  case True
  then have p: "plain [] [] ps (wy_sched y)" "us_started (wy_sched y)" using y by (simp_all add: ws_state_def)
  obtain s1 s' where s': "sched_stop (wy_sched y) = Inr s1" "step clock s1 = Inr s'" "plain [] [] ps s'"
    "us_log s1 = us_log (wy_sched y)" "us_log s' = us_log (wy_sched y) @ []" "us_async s' = AClosed" "\<not> us_started s'"
    using plain_stop [OF p, of clock] by blast
  let ?y = "y\<lparr>wy_sched := s', wy_client := (wy_client y)\<lparr>wc_thread := NoThread, wc_state := Closed, wc_started := False\<rparr>\<rparr>"
  have r: "wsys_stop clock y = Inr ?y" using s' True by (simp add: wsys_stop_def wsys_called_def)
  have st: "ws_state ps ?y" using y s' by (simp add: ws_state_def)
  have "ws_view ?y = ws_stop (ws_view y)"
    unfolding ws_view_state [OF st] ws_view_state [OF y] using True s'(6)
    by (simp add: ws_stop_def with_queue_def)
  with r st ws_trans.stop show ?thesis by (metis r_into_rtranclp ws_sys_inv_def)
qed

text \<open>Calls that concern the socket only.\<close>

lemma client_simulated:
  assumes y: "ws_state ps y" and "wc_started w' = wc_started (wy_client y)"
    and "\<And>sc ts. ws_trans (with_queue sc ts (wy_client y)) (with_queue sc ts w')"
  shows "ws_sys_inv (y\<lparr>wy_client := w'\<rparr>) \<and> ws_trans\<^sup>*\<^sup>* (ws_view y) (ws_view (y\<lparr>wy_client := w'\<rparr>))"
proof -
  have st: "ws_state ps (y\<lparr>wy_client := w'\<rparr>)" using y assms(2) by (simp add: ws_state_def)
  then show ?thesis
    unfolding ws_view_state [OF st] ws_view_state [OF y] using assms(3) by (auto simp: ws_sys_inv_def)
qed

lemma queue_connect:
  "with_queue sc ts (ws_connect url headers a b w) = ws_connect url headers a b (with_queue sc ts w)"
  "with_queue sc ts (ws_disconnect w) = ws_disconnect (with_queue sc ts w)"
  "with_queue sc ts (ws_send d i w) = ws_send d i (with_queue sc ts w)"
  by (simp_all add: with_queue_def ws_connect_def ix_start_def ws_disconnect_def ws_send_def)

lemma ws_call_simulated:
  assumes y: "ws_state ps y"
  shows "\<exists>y'. ws_call p y = Inr y' \<and> ws_sys_inv y' \<and> ws_trans\<^sup>*\<^sup>* (ws_view y) (ws_view y')"
proof (cases p)
  case OpStart
  with wsys_start_simulated [OF y] ws_trans.start show ?thesis by (metis r_into_rtranclp ws_call.simps(1))
next
  case (OpStop clock)
  with wsys_stop_simulated [OF y] show ?thesis by simp
next
  case (OpConnect url headers a b)
  then show ?thesis
    using client_simulated [OF y, of "ws_connect url headers a b (wy_client y)"]
    by (simp add: queue_connect ws_trans.connect) (simp add: ws_connect_def ix_start_def)
next
  case OpDisconnect
  then show ?thesis
    using client_simulated [OF y, of "ws_disconnect (wy_client y)"]
    by (simp add: queue_connect ws_trans.disconnect) (simp add: ws_disconnect_def)
next
  case (OpSend d i)
  then show ?thesis
    using client_simulated [OF y, of "ws_send d i (wy_client y)"]
    by (simp add: queue_connect ws_trans.send) (simp add: ws_send_def)
next
  case (OpStep clock)
  have "plain [] [] ps (wy_sched y)" using y by (simp add: ws_state_def)
  from plain_step [OF this, of clock] ws_turn_simulated [OF y] OpStep show ?thesis by auto
next
  case (OpRun now clock clocks)
  have "plain [] [] ps (wy_sched y)" using y by (simp add: ws_state_def)
  from plain_run [OF this, of now clock clocks] ws_turn_simulated [OF y] OpRun show ?thesis by auto
qed

text \<open>A post succeeds unless the scheduler was never started.\<close>

lemma wsys_post_simulated:
  assumes y: "ws_state ps y"
  shows "(us_async (wy_sched y) = AUninit \<longrightarrow> wsys_post t y = Inl Undefined) \<and>
    (us_async (wy_sched y) \<noteq> AUninit \<longrightarrow>
      (\<exists>y'. wsys_post t y = Inr y' \<and> ws_sys_inv y' \<and> ws_post t (ws_view y) = Inr (ws_view y')))"
proof (cases "us_async (wy_sched y) = AUninit")
  case True
  then show ?thesis by (simp add: wsys_post_def post_def uv_async_send_def)
next
  case False
  let ?k = "length (wy_tasks y)"
  have "plain [] [] ps (wy_sched y)" using y by (simp add: ws_state_def)
  from plain_post [OF this False, of ?k] obtain s' where s': "post (signal ?k) (wy_sched y) = Inr s'" "plain [] [] (ps @ [?k]) s'"
    "us_async s' = (if us_started (wy_sched y) then ALive True else us_async (wy_sched y))" "us_started s' = us_started (wy_sched y)"
    by blast
  let ?y = "y\<lparr>wy_tasks := wy_tasks y @ [t], wy_sched := s',
              wy_client := (wy_client y)\<lparr>wc_received := wc_received (wy_client y) @ [t]\<rparr>\<rparr>"
  have r: "wsys_post t y = Inr ?y" using s'(1) by (simp add: wsys_post_def)
  have st: "ws_state (ps @ [?k]) ?y"
    using y s' by (auto simp: ws_state_def intro: less_SucI)
  have live: "us_started (wy_sched y) \<longleftrightarrow> (\<exists>b. us_async (wy_sched y) = ALive b)" using y by (auto simp: ws_state_def plain_def)
  have old: "map (\<lambda>k. (wy_tasks y @ [t]) ! k) ps = map (\<lambda>k. wy_tasks y ! k) ps"
    using y by (auto simp: ws_state_def nth_append)
  have "ws_post t (ws_view y) = Inr (ws_view ?y)"
    unfolding ws_view_state [OF st] ws_view_state [OF y] using False y live s'(3) old
    by (cases "us_async (wy_sched y)") (simp_all add: ws_post_def with_queue_def ws_state_def)
  with False r st show ?thesis by (auto simp: ws_sys_inv_def)
qed

lemma notify_simulated:
  assumes y: "ws_state ps y" and "wc_thread (wy_client y) = Looping"
  shows "(\<exists>y'. wsys_notify ev y = Inr y' \<and> ws_sys_inv y' \<and> ws_trans\<^sup>*\<^sup>* (ws_view y) (ws_view y')) \<or>
    arrival ev \<noteq> [] \<and> wsys_notify ev y = Inl Undefined \<and> wc_sched (ws_view y) = SchedNew"
proof -
  have loop: "wc_thread (ws_view y) = Looping" using assms(2) by (simp add: ws_view_def)
  have st: "ws_state ps (set_state r y)" for r using y by (simp add: ws_state_def set_state_def)
  have view: "ws_view (set_state r y) = (ws_view y)\<lparr>wc_state := r\<rparr>" for r by (simp add: ws_view_def set_state_def with_queue_def)
  have as: "us_async (wy_sched (set_state r y)) = us_async (wy_sched y)" for r by (simp add: set_state_def)
  have new: "us_async (wy_sched y) = AUninit \<longleftrightarrow> wc_sched (ws_view y) = SchedNew"
    by (cases "us_async (wy_sched y)") (simp_all add: ws_view_def)
  have quiet: "?thesis" if "wsys_notify ev y = Inr y'" "ws_sys_inv y'" "on_ix_event ev (ws_view y) = Inr (ws_view y')" for y'
    using that ws_trans.notify [OF loop that(3)] by blast
  show ?thesis
  proof (cases ev)
    case IxOpen
    then show ?thesis using st [of Open]
      by (intro quiet [of "set_state Open y"]) (auto simp: wsys_notify_def on_ix_event_def view ws_sys_inv_def)
  next
    case IxClose
    then show ?thesis using st [of Closed]
      by (intro quiet [of "set_state Closed y"]) (auto simp: wsys_notify_def on_ix_event_def view ws_sys_inv_def)
  next
    case (IxError reason)
    with wsys_post_simulated [OF st [of Closed], of "Fail reason"] new quiet show ?thesis
      by (cases "us_async (wy_sched y) = AUninit") (auto simp: wsys_notify_def on_ix_event_def view as)
  next
    case (IxMessage d i)
    with wsys_post_simulated [OF y, of "Deliver \<lparr>wm_data = d, wm_binary = i\<rparr>"] new quiet show ?thesis
      by (cases "us_async (wy_sched y) = AUninit") (auto simp: wsys_notify_def on_ix_event_def)
  next
    case IxOther
    then show ?thesis using y by (intro quiet [of y]) (auto simp: wsys_notify_def on_ix_event_def ws_sys_inv_def)
  qed
qed

lemma wsys_do_simulated:
  assumes "ws_sys_inv y"
  shows "(\<exists>y'. wsys_do e y = Inr y' \<and> ws_sys_inv y' \<and> ws_trans\<^sup>*\<^sup>* (ws_view y) (ws_view y')) \<or>
    (\<exists>ev. e = Notify ev \<and> arrival ev \<noteq> []) \<and> wsys_do e y = Inl Undefined \<and> wc_sched (ws_view y) = SchedNew"
proof -
  obtain ps where y: "ws_state ps y" using assms by (auto simp: ws_sys_inv_def)
  show ?thesis
  proof (cases e)
    case (Api p)
    with ws_call_simulated [OF y] show ?thesis by simp
  next
    case ThreadEnds
    have "with_queue sc ts ((wy_client y)\<lparr>wc_thread := Ended\<rparr>) = (with_queue sc ts (wy_client y))\<lparr>wc_thread := Ended\<rparr>" for sc ts
      by (simp add: with_queue_def)
    then have "ws_trans (with_queue sc ts (wy_client y)) (with_queue sc ts ((wy_client y)\<lparr>wc_thread := Ended\<rparr>))"
      if "wc_thread (wy_client y) = Looping" "wc_state (wy_client y) = Closed" for sc ts
      using ws_trans.thread_ends [of "with_queue sc ts (wy_client y)"] that by simp
    with client_simulated [OF y, of "(wy_client y)\<lparr>wc_thread := Ended\<rparr>"] assms ThreadEnds show ?thesis by auto
  next
    case (Notify ev)
    with notify_simulated [OF y] assms show ?thesis by auto
  qed
qed

interpretation wsys: simulation ws_sys_inv ws_view wsys_do "\<lambda>e. ws_trans\<^sup>*\<^sup>*"
proof
  show "ws_sys_inv s' \<and> ws_trans\<^sup>*\<^sup>* (ws_view s) (ws_view s')" if "ws_sys_inv s" "wsys_do e s = Inr s'" for s e s'
    using wsys_do_simulated [OF that(1), of e] that(2) by auto
qed

lemma new_ws_sys: "ws_sys_inv new_ws_system" "ws_view new_ws_system = new_ws_client"
proof -
  have "ws_state [] new_ws_system"
    using plain_new [of default_scheduler_config]
    by (simp add: ws_state_def new_ws_system_def create_scheduler_def create_ws_client_def new_ws_client_def new_scheduler_def)
  then show "ws_sys_inv new_ws_system" by (auto simp: ws_sys_inv_def)
  show "ws_view new_ws_system = new_ws_client"
    by (simp add: ws_view_def with_queue_def new_ws_system_def create_scheduler_def create_ws_client_def new_ws_client_def
        new_scheduler_def)
qed

lemma ws_reach_trans: "ws_trans\<^sup>*\<^sup>* w w' \<Longrightarrow> ws_reach w \<Longrightarrow> ws_reach w'"
  by (induction rule: rtranclp_induct) (auto intro: ws_reach.moves)

text \<open>What a session of the system comes to is reachable in the state machine.\<close>

lemma ws_session:
  assumes "for_res wsys_do es new_ws_system = Inr y"
  shows "ws_sys_inv y" "ws_reach (ws_view y)"
proof -
  note run = wsys.sim_run [OF new_ws_sys(1) assms]
  then show "ws_sys_inv y" by blast
  from run have "ws_trans\<^sup>*\<^sup>* new_ws_client (ws_view y)" by (simp add: new_ws_sys(2) rtranclp_idemp)
  then show "ws_reach (ws_view y)" using ws_reach_trans ws_reach.fresh by blast
qed

end
