(* ===== verification/Dates.thy ===== *)
theory Dates
  imports Jsonl_Storage
begin

text \<open>
  \<open>JsonlStorage::today_str\<close> (src/wheel/storage/imp/jsonl_storage.cpp): the broken-down local time, which
  the system provides, in the format \<open>%Y-%m-%d\<close>. The names are directory names, and their order as
  strings, by which \<open>list_dates\<close> sorts, is the order of the days.
\<close>

record tm =
  tm_year :: nat
  tm_mon :: nat
  tm_mday :: nat

text \<open>\<open>pad k n\<close>: the last \<open>k\<close> decimal digits of \<open>n\<close>.\<close>

fun pad :: "nat \<Rightarrow> nat \<Rightarrow> string" where
  "pad 0 n = []"
| "pad (Suc k) n = pad k (n div 10) @ [digit_char (n mod 10)]"

definition today_str :: "tm \<Rightarrow> string" where
  "today_str t = nat_str (1900 + tm_year t) @ ''-'' @ pad 2 (tm_mon t + 1) @ ''-'' @ pad 2 (tm_mday t)"

text \<open>A day of the years 1900 to 9999.\<close>

definition tm_ok :: "tm \<Rightarrow> bool" where
  "tm_ok t \<longleftrightarrow> tm_year t < 8100 \<and> tm_mon t < 12 \<and> 1 \<le> tm_mday t \<and> tm_mday t \<le> 31"

definition earlier :: "tm \<Rightarrow> tm \<Rightarrow> bool" where
  "earlier s t \<longleftrightarrow> tm_year s < tm_year t \<or> tm_year s = tm_year t \<and>
     (tm_mon s < tm_mon t \<or> tm_mon s = tm_mon t \<and> tm_mday s < tm_mday t)"

lemma length_pad [simp]: "length (pad k n) = k"
  by (induction k arbitrary: n) simp_all

lemma append_less:
  fixes xs ys us vs :: string
  shows "length xs = length ys \<Longrightarrow> xs @ us < ys @ vs \<longleftrightarrow> xs < ys \<or> xs = ys \<and> us < vs"
  by (induction xs ys rule: list_induct2) auto

lemma digit_char_less: "m < 10 \<Longrightarrow> n < 10 \<Longrightarrow> digit_char m < digit_char n \<longleftrightarrow> m < n"
  by (simp add: digit_char_def less_char_def)

lemma digit_char_eq: "m < 10 \<Longrightarrow> n < 10 \<Longrightarrow> digit_char m = digit_char n \<longleftrightarrow> m = n"
  by (metis digit_char_less linorder_neq_iff)

lemma div_mod_less: "(m :: nat) < n \<longleftrightarrow> m div 10 < n div 10 \<or> m div 10 = n div 10 \<and> m mod 10 < n mod 10"
  using div_mult_mod_eq [of m 10] div_mult_mod_eq [of n 10] mod_less_divisor [of 10 m] mod_less_divisor [of 10 n]
  by (cases "m div 10" "n div 10" rule: linorder_cases) linarith+

lemma pad_inject: "m < 10 ^ k \<Longrightarrow> n < 10 ^ k \<Longrightarrow> pad k m = pad k n \<longleftrightarrow> m = n"
proof (induction k arbitrary: m n)
  case (Suc k)
  have "m div 10 < 10 ^ k" "n div 10 < 10 ^ k" using Suc.prems by (simp_all add: less_mult_imp_div_less mult.commute)
  with Suc.IH [of "m div 10" "n div 10"] show ?case
    by (simp add: digit_char_eq) (metis div_mult_mod_eq)
qed simp

lemma pad_less: "m < 10 ^ k \<Longrightarrow> n < 10 ^ k \<Longrightarrow> pad k m < pad k n \<longleftrightarrow> m < n"
proof (induction k arbitrary: m n)
  case (Suc k)
  have "m div 10 < 10 ^ k" "n div 10 < 10 ^ k" using Suc.prems by (simp_all add: less_mult_imp_div_less mult.commute)
  with Suc.IH [of "m div 10" "n div 10"] pad_inject [of "m div 10" k "n div 10"] div_mod_less [of m n] show ?case
    by (simp add: append_less digit_char_less)
qed simp

lemma nat_str_pad: "10 ^ k \<le> n \<Longrightarrow> n < 10 ^ Suc k \<Longrightarrow> nat_str n = pad (Suc k) n"
proof (induction k arbitrary: n)
  case 0
  then show ?case by (simp add: nat_str.simps [of n])
next
  case (Suc k)
  have "10 ^ k \<le> n div 10" "n div 10 < 10 ^ Suc k"
    using Suc.prems by (simp_all add: less_eq_div_iff_mult_less_eq less_mult_imp_div_less mult.commute)
  moreover have "1 \<le> (10 :: nat) ^ k" by simp
  with Suc.prems(1) have "\<not> n < 10" unfolding power_Suc by linarith
  ultimately show ?case using Suc.IH [of "n div 10"] by (simp add: nat_str.simps [of n])
qed

lemma today_str_pad:
  "tm_ok t \<Longrightarrow> today_str t = pad 4 (1900 + tm_year t) @ ''-'' @ pad 2 (tm_mon t + 1) @ ''-'' @ pad 2 (tm_mday t)"
proof -
  assume "tm_ok t"
  then have "10 ^ 3 \<le> 1900 + tm_year t" "1900 + tm_year t < 10 ^ Suc 3" by (simp_all add: tm_ok_def)
  from nat_str_pad [OF this] show ?thesis by (simp only: today_str_def Suc_numeral semiring_norm)
qed

lemma today_str_less:
  assumes "tm_ok s" "tm_ok t"
  shows "today_str s < today_str t \<longleftrightarrow> earlier s t"
proof -
  have y: "pad 4 (1900 + tm_year s) < pad 4 (1900 + tm_year t) \<longleftrightarrow> tm_year s < tm_year t"
    "pad 4 (1900 + tm_year s) = pad 4 (1900 + tm_year t) \<longleftrightarrow> tm_year s = tm_year t"
    using assms pad_less [of "1900 + tm_year s" 4] pad_inject [of "1900 + tm_year s" 4] by (simp_all add: tm_ok_def)
  have m: "pad 2 (tm_mon s + 1) < pad 2 (tm_mon t + 1) \<longleftrightarrow> tm_mon s < tm_mon t"
    "pad 2 (tm_mon s + 1) = pad 2 (tm_mon t + 1) \<longleftrightarrow> tm_mon s = tm_mon t"
    using assms pad_less [of "tm_mon s + 1" 2] pad_inject [of "tm_mon s + 1" 2] by (simp_all add: tm_ok_def)
  have d: "pad 2 (tm_mday s) < pad 2 (tm_mday t) \<longleftrightarrow> tm_mday s < tm_mday t"
    using assms pad_less [of "tm_mday s" 2] by (simp add: tm_ok_def)
  show ?thesis
    using y m d unfolding today_str_pad [OF assms(1)] today_str_pad [OF assms(2)]
    by (simp add: append_less earlier_def)
qed

lemma today_str_name: "tm_ok t \<Longrightarrow> is_name (today_str t)"
proof -
  assume t: "tm_ok t"
  have digits: "list_all is_digit (pad k n)" for k n by (induction k arbitrary: n) (simp_all add: digit_char_props)
  have "length (today_str t) = 10" using today_str_pad [OF t] by simp
  moreover have "CHR ''/'' \<notin> set (today_str t)"
    using digits unfolding today_str_pad [OF t] by (fastforce simp: list_all_iff is_digit_def)
  ultimately show ?thesis by (auto simp: is_name_def)
qed

text \<open>Of two names of days, a list in descending order has the later day first.\<close>

definition later_first :: "string \<Rightarrow> string \<Rightarrow> bool" where
  "later_first a b \<longleftrightarrow> (\<forall>s t. tm_ok s \<longrightarrow> tm_ok t \<longrightarrow> a = today_str s \<longrightarrow> b = today_str t \<longrightarrow> earlier t s)"

lemma descending_later_first: "sorted_wrt (>) ds \<Longrightarrow> sorted_wrt later_first ds"
  by (rule sorted_wrt_mono_rel) (auto simp: later_first_def today_str_less)

end
