(* ===== verification/Text_Codecs.thy ===== *)
theory Text_Codecs
  imports Lynne_Prelude
begin

unbundle bit_operations_syntax

text \<open>
  The text helpers of src/wheel/browser/imp/cdp_browser_manager.cpp: escaping for JavaScript string
  literals, base64 decoding, the body of an HTTP response, and the URL Chrome prints. Each has a
  reference it is compared with: a reader of JavaScript literals, a base64 encoder, the shape of a
  response and of a URL.
\<close>

abbreviation quote_char :: char where "quote_char \<equiv> CHR 0x27"
abbreviation backslash :: char where "backslash \<equiv> CHR 0x5C"
abbreviation line_feed :: char where "line_feed \<equiv> CHR 0x0A"
abbreviation carriage_return :: char where "carriage_return \<equiv> CHR 0x0D"

subsection \<open>Escaping\<close>

fun js_selector :: "string \<Rightarrow> string" where
  "js_selector [] = []"
| "js_selector (c # s) =
     (if c = backslash then [backslash, backslash]
      else if c = quote_char then [backslash, quote_char]
      else [c]) @ js_selector s"

text \<open>The escaping of the text in \<open>type\<close>.\<close>

fun js_text :: "string \<Rightarrow> string" where
  "js_text [] = []"
| "js_text (c # s) =
     (if c = backslash then [backslash, backslash]
      else if c = quote_char then [backslash, quote_char]
      else if c = line_feed then [backslash, CHR ''n'']
      else if c = carriage_return then [backslash, CHR ''r'']
      else [c]) @ js_text s"

text \<open>
  What a JavaScript engine reads after the opening quote of a single-quoted literal, up to the
  closing quote: the value and the rest, or \<open>None\<close> for a literal that is not closed on its line.
  Only the escapes above are read.
\<close>

fun js_read :: "string \<Rightarrow> (string \<times> string) option" where
  "js_read [] = None"
| "js_read (c # s) =
     (if c = quote_char then Some ([], s)
      else if c = line_feed \<or> c = carriage_return then None
      else if c = backslash then
        (case s of
           [] \<Rightarrow> None
         | d # s' \<Rightarrow>
             map_option (\<lambda>(v, r). ((if d = CHR ''n'' then line_feed
                                      else if d = CHR ''r'' then carriage_return else d) # v, r))
               (js_read s'))
      else map_option (\<lambda>(v, r). (c # v, r)) (js_read s))"

lemma js_read_text: "js_read (js_text s @ quote_char # r) = Some (s, r)"
  by (induction s) auto

lemma js_read_selector:
  "js_read (js_selector s @ quote_char # r) =
     (if line_feed \<in> set s \<or> carriage_return \<in> set s then None else Some (s, r))"
  by (induction s) auto

subsection \<open>base64\<close>

definition base64_chars :: string where
  "base64_chars = ''ABCDEFGHIJKLMNOPQRSTUVWXYZabcdefghijklmnopqrstuvwxyz0123456789+/''"

text \<open>\<open>strchr(BASE64_CHARS, c) - BASE64_CHARS\<close>: the terminating NUL is found too, at 64.\<close>

definition base64_index :: "char \<Rightarrow> nat option" where
  "base64_index c = (if c = CHR 0x00 then Some 64 else char_find c base64_chars)"

text \<open>The loop over the characters; \<open>val\<close> and \<open>bits\<close> are \<open>int\<close>, the shift to the left wraps.\<close>

fun base64_loop :: "int32 \<Rightarrow> int \<Rightarrow> string \<Rightarrow> string" where
  "base64_loop val bits [] = []"
| "base64_loop val bits (c # s) =
     (if c = CHR ''='' then []
      else case base64_index c of
             None \<Rightarrow> base64_loop val bits s
           | Some i \<Rightarrow>
               (let val = push_bit 6 val OR word_of_nat i; bits = bits + 6
                in if bits \<ge> 0
                   then char_of (unat (signed_drop_bit (nat bits) val AND 0xFF)) #
                        base64_loop val (bits - 8) s
                   else base64_loop val bits s))"

definition base64_decode :: "string \<Rightarrow> string" where
  "base64_decode input = base64_loop 0 (- 8) (filter (\<lambda>c. \<not> is_space c) input)"

text \<open>The standard encoding, in blocks of three bytes.\<close>

definition base64_char :: "nat \<Rightarrow> char" where
  "base64_char i = base64_chars ! i"

fun base64_encode :: "string \<Rightarrow> string" where
  "base64_encode [] = []"
| "base64_encode [a] =
     map base64_char [of_char a div 4, of_char a mod 4 * 16] @ ''==''"
| "base64_encode [a, b] =
     map base64_char [of_char a div 4, of_char a mod 4 * 16 + of_char b div 16, of_char b mod 16 * 4] @ ''=''"
| "base64_encode (a # b # c # s) =
     map base64_char [of_char a div 4, of_char a mod 4 * 16 + of_char b div 16,
       of_char b mod 16 * 4 + of_char c div 64, of_char c mod 64] @ base64_encode s"

text \<open>Only the last twelve bits of \<open>val\<close> are ever read.\<close>

definition low_bits :: "int32 \<Rightarrow> nat" where
  "low_bits v = unat v mod 4096"

lemma base64_output:
  fixes v :: int32
  assumes "k \<le> 4"
  shows "unat (signed_drop_bit k v AND 0xFF) = low_bits v div 2 ^ k mod 256"
proof -
  have ff: "(0xFF :: int32) = mask 8" by (simp add: mask_eq_exp_minus_1)
  have h: "signed_drop_bit k v AND 0xFF = take_bit 8 (drop_bit k v)"
    unfolding ff take_bit_eq_mask using assms
    by (intro bit_word_eqI) (auto simp: bit_simps bit_signed_drop_bit_iff)
  have "unat (signed_drop_bit k v AND 0xFF) = unat v div 2 ^ k mod 256"
    unfolding h unsigned_take_bit_eq unsigned_drop_bit_eq using unsigned_less [of v, where ?'a = nat]
    by (simp add: take_bit_eq_mod drop_bit_eq_div)
  moreover have "unat v div 2 ^ k mod 256 = low_bits v div 2 ^ k mod 256"
  proof -
    have "drop_bit k (take_bit 12 (unat v)) = take_bit (12 - k) (drop_bit k (unat v))"
      using assms by (simp add: drop_bit_take_bit)
    then have "take_bit 8 (drop_bit k (take_bit 12 (unat v))) = take_bit 8 (drop_bit k (unat v))"
      using assms by (simp add: min_absorb1)
    then show ?thesis by (simp add: take_bit_eq_mod drop_bit_eq_div low_bits_def)
  qed
  ultimately show ?thesis by simp
qed

lemma base64_shift:
  fixes v :: int32
  assumes "i < 64"
  shows "low_bits (push_bit 6 v OR word_of_nat i) = (low_bits v * 64 + i) mod 4096"
proof -
  have "push_bit 6 v AND word_of_nat i = 0"
  proof (rule bit_word_eqI)
    fix n
    have "take_bit 6 i = i" using assms by (simp add: take_bit_nat_eq_self)
    then have "bit i n \<Longrightarrow> n < 6" by (metis bit_take_bit_iff)
    then show "bit (push_bit 6 v AND word_of_nat i) n \<longleftrightarrow> bit (0 :: int32) n"
      by (auto simp: bit_simps)
  qed
  then have "push_bit 6 v OR word_of_nat i = v * 64 + word_of_nat i"
    by (simp add: disjunctive_add_eq_or [symmetric] push_bit_eq_mult)
  moreover have "unat (v * 64 + word_of_nat i) mod 4096 = (unat v * 64 + i) mod 4096"
    by (simp add: unat_word_ariths mod_mod_cancel mod_simps unat_of_nat)
  moreover have "(unat v * 64 + i) mod 4096 = (unat v mod 4096 * 64 + i) mod 4096"
    by (metis mod_add_left_eq mod_mult_left_eq)
  ultimately show ?thesis by (simp add: low_bits_def)
qed

text \<open>One character of the alphabet, one step of the loop.\<close>

lemma char_find_nth: "distinct s \<Longrightarrow> i < length s \<Longrightarrow> char_find (s ! i) s = Some i"
proof (induction s arbitrary: i)
  case (Cons c s)
  then show ?case by (cases i) auto
qed simp

lemma base64_chars_props:
  "length base64_chars = 64" "distinct base64_chars" "CHR 0x00 \<notin> set base64_chars"
  "CHR ''='' \<notin> set base64_chars" "list_all (\<lambda>c. \<not> is_space c) base64_chars"
  by (simp_all add: base64_chars_def is_space_def)

lemma base64_index_char:
  assumes "i < 64"
  shows "base64_index (base64_char i) = Some i \<and> base64_char i \<noteq> CHR ''=''"
proof -
  have "base64_char i \<in> set base64_chars"
    unfolding base64_char_def using assms base64_chars_props(1) by (intro nth_mem) simp
  then have "base64_char i \<noteq> CHR 0x00" "base64_char i \<noteq> CHR ''=''"
    using base64_chars_props(3,4) by auto
  moreover have "char_find (base64_char i) base64_chars = Some i"
    unfolding base64_char_def using assms base64_chars_props(1,2) by (intro char_find_nth) simp_all
  ultimately show ?thesis by (simp add: base64_index_def)
qed

lemma base64_step:
  assumes "i < 64" "n = (low_bits v * 64 + i) mod 4096" "-8 \<le> bits" "bits \<le> -2"
  shows "\<exists>v'. low_bits v' = n \<and> base64_loop v bits (base64_char i # s) =
           (if bits + 6 \<ge> 0
            then char_of (n div 2 ^ nat (bits + 6) mod 256) # base64_loop v' (bits - 2) s
            else base64_loop v' (bits + 6) s)"
proof -
  let ?v = "push_bit 6 v OR word_of_nat i"
  have "low_bits ?v = n" using base64_shift [OF assms(1)] assms(2) by simp
  moreover have "nat (bits + 6) \<le> 4" using assms(4) by simp
  ultimately show ?thesis
    using base64_index_char [OF assms(1)] base64_output [of "nat (bits + 6)" ?v]
    by (intro exI [of _ ?v]) (simp add: Let_def)
qed

lemma base64_stop: "base64_loop v bits (CHR ''='' # s) = []"
  by simp

declare base64_loop.simps(2) [simp del]

lemma byte_bound: "(of_char c :: nat) < 256"
  by (metis nat_of_char_less_256)

text \<open>The four characters of a block give its three bytes, whatever \<open>val\<close> was.\<close>

lemma base64_mod: "(m mod 4096 * 64 + i) mod 4096 = (m * 64 + i) mod (4096 :: nat)"
  by (metis mod_add_left_eq mod_mult_left_eq)

lemma base64_arith:
  fixes q r u v f g x :: nat
  assumes "q < 64" "r < 4" "u < 16" "v < 16" "f < 4" "g < 64"
  shows "((x * 64 + q) * 64 + (r * 16 + u)) mod 4096 div 16 mod 256 = 4 * q + r"
    and "(((x * 64 + q) * 64 + (r * 16 + u)) * 64 + (v * 4 + f)) mod 4096 div 4 mod 256 = 16 * u + v"
    and "((((x * 64 + q) * 64 + (r * 16 + u)) * 64 + (v * 4 + f)) * 64 + g) mod 4096 mod 256 = 64 * f + g"
proof -
  have 1: "(x * 64 + q) * 64 + (r * 16 + u) = 4096 * x + (16 * (4 * q + r) + u)" by simp
  have "16 * (4 * q + r) + u < 4096" using assms by presburger
  with assms show "((x * 64 + q) * 64 + (r * 16 + u)) mod 4096 div 16 mod 256 = 4 * q + r"
    unfolding 1 by simp
  have 2: "((x * 64 + q) * 64 + (r * 16 + u)) * 64 + (v * 4 + f) =
      1024 * (256 * x + 4 * q + r) + (4 * (16 * u + v) + f)" by simp
  have "4 * (16 * u + v) + f < 1024" using assms by presburger
  then have m: "(1024 * z + (4 * (16 * u + v) + f)) mod 4096 = 1024 * (z mod 4) + (4 * (16 * u + v) + f)" for z
    using mod_mult2_eq [of "1024 * z + (4 * (16 * u + v) + f)" 1024 4] by simp
  have "(1024 * k + (4 * y + f)) div 4 mod 256 = y" if "y < 256" for k y
  proof -
    have e: "1024 * k + (4 * y + f) = (256 * k + y) * 4 + f" by simp
    have "f div 4 = 0" using assms(5) by simp
    then have "(1024 * k + (4 * y + f)) div 4 = 256 * k + y"
      unfolding e div_mult_self3 [OF zero_neq_numeral [symmetric]] by simp
    with that show ?thesis by simp
  qed
  moreover have "16 * u + v < 256" using assms by presburger
  ultimately show "(((x * 64 + q) * 64 + (r * 16 + u)) * 64 + (v * 4 + f)) mod 4096 div 4 mod 256 = 16 * u + v"
    unfolding 2 m by blast
  have 3: "(((x * 64 + q) * 64 + (r * 16 + u)) * 64 + (v * 4 + f)) * 64 + g =
      256 * (256 * (256 * x + 4 * q + r) + (16 * u + v)) + (64 * f + g)" by simp
  have m3: "n mod 4096 mod 256 = n mod 256" for n :: nat by (rule mod_mod_cancel) simp
  have "(256 * k + y) mod 256 = y" if "y < 256" for k y :: nat using that by simp
  moreover have "64 * f + g < 256" using assms by presburger
  ultimately show "((((x * 64 + q) * 64 + (r * 16 + u)) * 64 + (v * 4 + f)) * 64 + g) mod 4096 mod 256 = 64 * f + g"
    unfolding 3 m3 by blast
qed

lemma base64_block:
  "\<exists>v'. base64_loop v (- 8) (map base64_char [of_char a div 4, of_char a mod 4 * 16 + of_char b div 16,
       of_char b mod 16 * 4 + of_char c div 64, of_char c mod 64] @ s) = a # b # c # base64_loop v' (- 8) s"
proof -
  define q r where "q = (of_char a :: nat) div 4" and "r = (of_char a :: nat) mod 4"
  define t w where "t = (of_char b :: nat) div 16" and "w = (of_char b :: nat) mod 16"
  define f g where "f = (of_char c :: nat) div 64" and "g = (of_char c :: nat) mod 64"
  have lt: "q < 64" "r < 4" "t < 16" "w < 16" "f < 4" "g < 64"
    unfolding q_def r_def t_def w_def f_def g_def
    by (rule less_mult_imp_div_less mod_less_divisor; simp)+
  have abc: "of_char a = 4 * q + r" "of_char b = 16 * t + w" "of_char c = 64 * f + g"
    by (simp_all add: q_def r_def t_def w_def f_def g_def)
  have i: "q < 64" "r * 16 + t < 64" "w * 4 + f < 64" "g < 64" using lt by presburger+
  note bytes = base64_arith [OF lt, of "low_bits v"]
  let ?w1 = "low_bits v * 64 + q"
  let ?w2 = "?w1 * 64 + (r * 16 + t)"
  let ?w3 = "?w2 * 64 + (w * 4 + f)"
  let ?w4 = "?w3 * 64 + g"
  obtain v1 where v1: "low_bits v1 = ?w1 mod 4096"
    "base64_loop v (- 8) (base64_char q # base64_char (r * 16 + t) # base64_char (w * 4 + f) # base64_char g # s) =
     base64_loop v1 (- 2) (base64_char (r * 16 + t) # base64_char (w * 4 + f) # base64_char g # s)"
    using base64_step [OF i(1) refl, of "- 8" v] by auto
  obtain v2 where v2: "low_bits v2 = ?w2 mod 4096"
    "base64_loop v1 (- 2) (base64_char (r * 16 + t) # base64_char (w * 4 + f) # base64_char g # s) =
     char_of (?w2 mod 4096 div 16 mod 256) # base64_loop v2 (- 4) (base64_char (w * 4 + f) # base64_char g # s)"
    using base64_step [OF i(2) refl, of "- 2" v1] unfolding v1(1) base64_mod by auto
  obtain v3 where v3: "low_bits v3 = ?w3 mod 4096"
    "base64_loop v2 (- 4) (base64_char (w * 4 + f) # base64_char g # s) =
     char_of (?w3 mod 4096 div 4 mod 256) # base64_loop v3 (- 6) (base64_char g # s)"
    using base64_step [OF i(3) refl, of "- 4" v2] unfolding v2(1) base64_mod by auto
  obtain v4 where v4:
    "base64_loop v3 (- 6) (base64_char g # s) = char_of (?w4 mod 4096 mod 256) # base64_loop v4 (- 8) s"
    using base64_step [OF i(4) refl, of "- 6" v3] unfolding v3(1) base64_mod by auto
  have "base64_loop v (- 8) (base64_char q # base64_char (r * 16 + t) # base64_char (w * 4 + f) # base64_char g # s) =
      a # b # c # base64_loop v4 (- 8) s"
    unfolding v1(2) v2(2) v3(2) v4 bytes abc [symmetric] char_of_char by (rule refl)
  then show ?thesis
    unfolding q_def r_def t_def w_def f_def g_def by (intro exI [of _ v4]) simp
qed

text \<open>The last block, of one or two bytes.\<close>

lemma base64_tail1:
  "base64_loop v (- 8) (map base64_char [of_char a div 4, of_char a mod 4 * 16] @ CHR ''='' # s) = [a]"
proof -
  define q r where "q = (of_char a :: nat) div 4" and "r = (of_char a :: nat) mod 4"
  have lt: "q < 64" "r < 4"
    unfolding q_def r_def by (rule less_mult_imp_div_less mod_less_divisor; simp)+
  have a: "of_char a = 4 * q + r" by (simp add: q_def r_def)
  have i: "r * 16 + 0 < 64" using lt by simp
  obtain v1 where v1: "low_bits v1 = (low_bits v * 64 + q) mod 4096"
    "base64_loop v (- 8) (base64_char q # base64_char (r * 16 + 0) # CHR ''='' # s) =
     base64_loop v1 (- 2) (base64_char (r * 16 + 0) # CHR ''='' # s)"
    using base64_step [OF lt(1) refl, of "- 8" v] by auto
  obtain v2 where v2:
    "base64_loop v1 (- 2) (base64_char (r * 16 + 0) # CHR ''='' # s) =
     char_of (((low_bits v * 64 + q) * 64 + (r * 16 + 0)) mod 4096 div 16 mod 256) #
       base64_loop v2 (- 4) (CHR ''='' # s)"
    using base64_step [OF i refl, of "- 2" v1] unfolding v1(1) base64_mod by auto
  have "base64_loop v (- 8) (base64_char q # base64_char (r * 16 + 0) # CHR ''='' # s) = [a]"
    unfolding v1(2) v2 base64_stop
    using base64_arith(1) [OF lt, of 0 0 0 0 "low_bits v"]
    by (simp only: a [symmetric] char_of_char)
  then show ?thesis by (simp add: q_def r_def)
qed

lemma base64_tail2:
  "base64_loop v (- 8) (map base64_char [of_char a div 4, of_char a mod 4 * 16 + of_char b div 16,
     of_char b mod 16 * 4] @ CHR ''='' # s) = [a, b]"
proof -
  define q r where "q = (of_char a :: nat) div 4" and "r = (of_char a :: nat) mod 4"
  define t w where "t = (of_char b :: nat) div 16" and "w = (of_char b :: nat) mod 16"
  have lt: "q < 64" "r < 4" "t < 16" "w < 16"
    unfolding q_def r_def t_def w_def by (rule less_mult_imp_div_less mod_less_divisor; simp)+
  have ab: "of_char a = 4 * q + r" "of_char b = 16 * t + w" by (simp_all add: q_def r_def t_def w_def)
  have i: "r * 16 + t < 64" "w * 4 + 0 < 64" using lt by presburger+
  have z: "(0 :: nat) < 4" "(0 :: nat) < 64" by simp_all
  note bytes = base64_arith(1,2) [OF lt z, of "low_bits v"]
  obtain v1 where v1: "low_bits v1 = (low_bits v * 64 + q) mod 4096"
    "base64_loop v (- 8) (base64_char q # base64_char (r * 16 + t) # base64_char (w * 4 + 0) # CHR ''='' # s) =
     base64_loop v1 (- 2) (base64_char (r * 16 + t) # base64_char (w * 4 + 0) # CHR ''='' # s)"
    using base64_step [OF lt(1) refl, of "- 8" v] by auto
  obtain v2 where v2: "low_bits v2 = ((low_bits v * 64 + q) * 64 + (r * 16 + t)) mod 4096"
    "base64_loop v1 (- 2) (base64_char (r * 16 + t) # base64_char (w * 4 + 0) # CHR ''='' # s) =
     char_of (((low_bits v * 64 + q) * 64 + (r * 16 + t)) mod 4096 div 16 mod 256) #
       base64_loop v2 (- 4) (base64_char (w * 4 + 0) # CHR ''='' # s)"
    using base64_step [OF i(1) refl, of "- 2" v1] unfolding v1(1) base64_mod by auto
  obtain v3 where v3:
    "base64_loop v2 (- 4) (base64_char (w * 4 + 0) # CHR ''='' # s) =
     char_of ((((low_bits v * 64 + q) * 64 + (r * 16 + t)) * 64 + (w * 4 + 0)) mod 4096 div 4 mod 256) #
       base64_loop v3 (- 6) (CHR ''='' # s)"
    using base64_step [OF i(2) refl, of "- 4" v2] unfolding v2(1) base64_mod by auto
  have "base64_loop v (- 8) (base64_char q # base64_char (r * 16 + t) # base64_char (w * 4 + 0) # CHR ''='' # s) = [a, b]"
    unfolding v1(2) v2(2) v3 base64_stop bytes ab [symmetric] char_of_char by (rule refl)
  then show ?thesis by (simp add: q_def r_def t_def w_def)
qed

lemma base64_loop_encode: "base64_loop v (- 8) (base64_encode bs) = bs"
proof (induction bs arbitrary: v rule: base64_encode.induct)
  case 1
  then show ?case by simp
next
  case (2 a)
  then show ?case using base64_tail1 [of v a "''=''"] by simp
next
  case (3 a b)
  then show ?case using base64_tail2 [of v a b "[]"] by simp
next
  case (4 a b c s)
  from base64_block [of v a b c "base64_encode s"] 4 show ?case by auto
qed

lemma base64_chars_no_space: "i < 64 \<Longrightarrow> \<not> is_space (base64_char i)"
  using base64_chars_props(1,5) by (simp add: base64_char_def list_all_length)

lemma base64_indices:
  "(of_char a :: nat) div 4 < 64" "(of_char a :: nat) mod 4 * 16 + of_char b div 16 < 64"
  "(of_char b :: nat) mod 16 * 4 + of_char c div 64 < 64" "(of_char c :: nat) mod 64 < 64"
proof -
  have x: "x * 16 + y < 64" if "x < 4" "y < 16" for x y :: nat using that by presburger
  have z: "x * 4 + y < 64" if "x < 16" "y < 4" for x y :: nat using that by presburger
  show "(of_char a :: nat) div 4 < 64" by (rule less_mult_imp_div_less) simp
  show "(of_char a :: nat) mod 4 * 16 + of_char b div 16 < 64"
    by (rule x) (rule mod_less_divisor less_mult_imp_div_less; simp)+
  show "(of_char b :: nat) mod 16 * 4 + of_char c div 64 < 64"
    by (rule z) (rule mod_less_divisor less_mult_imp_div_less; simp)+
  show "(of_char c :: nat) mod 64 < 64" by simp
qed

lemma equals_no_space [simp]: "\<not> is_space (CHR ''='')"
  by (simp add: is_space_def)

lemma base64_encode_no_space: "list_all (\<lambda>c. \<not> is_space c) (base64_encode bs)"
proof (induction bs rule: base64_encode.induct)
  case (4 a b c s)
  then show ?case by (simp add: base64_chars_no_space base64_indices)
next
  case (2 a)
  show ?case
    using base64_indices(1) [of a] base64_indices(2) [of a "CHR 0x00"]
    by (simp add: base64_chars_no_space)
next
  case (3 a b)
  show ?case
    using base64_indices(1) [of a] base64_indices(2) [of a b] base64_indices(3) [of b "CHR 0x00"]
    by (simp add: base64_chars_no_space)
qed simp

text \<open>White space anywhere in the encoded text is ignored.\<close>

lemma base64_roundtrip:
  assumes "filter (\<lambda>c. \<not> is_space c) s = base64_encode bs"
  shows "base64_decode s = bs"
  using base64_loop_encode by (simp add: base64_decode_def assms)

lemma filter_base64_encode: "filter (\<lambda>c. \<not> is_space c) (base64_encode bs) = base64_encode bs"
  using base64_encode_no_space by (simp add: filter_id_conv list_all_iff)

end
