(* ===== verification/Page_Scripts.thy ===== *)
theory Page_Scripts
  imports Text_Codecs
begin

text \<open>
  The JavaScript the browser context sends to the page, text by text as the sources assemble it:
  the scripts of \<open>click\<close>, \<open>type\<close>, \<open>scroll\<close>, \<open>hover\<close> and \<open>exists\<close>
  (src/wheel/browser/imp/cdp_browser_manager.cpp), the script injected into every new context, and
  \<open>kDumpJs\<close> (src/wheel/browser/browser_helpers.cpp). The lemmas show that a selector or a text is
  read back by the engine as the value of one string literal, so it cannot end the literal and run
  as code.
\<close>

definition text_lines :: "string list \<Rightarrow> string" where
  "text_lines ls = concat (case ls of [] \<Rightarrow> [] | l # rest \<Rightarrow> l # map (\<lambda>r. line_feed # r) rest)"

definition script_head :: string where
  \<open>script_head = text_lines
      [''(()=>{'',
       ''        const e=document.querySelector('' @ [quote_char]]\<close>

definition click_tail :: string where
  \<open>click_tail = text_lines
      [[quote_char] @ '');'',
       ''        if(!e)return false;'',
       ''        e.dispatchEvent(new MouseEvent('mousedown',{bubbles:true,cancelable:true,view:window}));'',
       ''        e.dispatchEvent(new MouseEvent('mouseup',{bubbles:true,cancelable:true,view:window}));'',
       ''        e.dispatchEvent(new MouseEvent('click',{bubbles:true,cancelable:true,view:window}));'',
       ''        if(e.tagName==='A'&&e.href)window.location.href=e.href;'',
       ''        else if(e.form&&(e.type==='submit'||e.tagName==='BUTTON'))e.form.submit();'',
       ''        return true;'',
       ''    })()'']\<close>

definition click_js :: "string \<Rightarrow> string" where
  "click_js css = script_head @ js_selector css @ click_tail"

definition hover_tail :: string where
  \<open>hover_tail = text_lines
      [[quote_char] @ '');'',
       ''        if(!e)return false;'',
       ''        e.dispatchEvent(new MouseEvent('mouseover',{bubbles:true,cancelable:true,view:window}));'',
       ''        e.dispatchEvent(new MouseEvent('mouseenter',{bubbles:false,cancelable:true,view:window}));'',
       ''        return true;'',
       ''    })()'']\<close>

definition hover_js :: "string \<Rightarrow> string" where
  "hover_js css = script_head @ js_selector css @ hover_tail"

definition type_js :: "string \<Rightarrow> string \<Rightarrow> string" where
  \<open>type_js css t =
     ''(()=>{const e=document.querySelector('' @ quote_char # js_selector css @
     quote_char # '');if(!e)return false;'' @
     ''e.focus();e.value='' @ quote_char # js_text t @
     quote_char # '';'' @
     ''e.dispatchEvent(new Event('input',{bubbles:true}));'' @
     ''e.dispatchEvent(new Event('change',{bubbles:true}));'' @
     ''return true;})()''\<close>

definition exists_js :: "string \<Rightarrow> string" where
  \<open>exists_js css = ''!!document.querySelector('' @ quote_char # js_selector css @ quote_char # '')''\<close>

definition scroll_js :: "int32 \<Rightarrow> int32 \<Rightarrow> string" where
  "scroll_js dx dy = ''window.scrollBy('' @ int_str (sint dx) @ '','' @ int_str (sint dy) @ '')''"

definition key_code :: "string \<Rightarrow> nat" where
  "key_code key =
     (if key = ''Enter'' then 13 else if key = ''Tab'' then 9 else if key = ''Escape'' then 27
      else if key = ''Backspace'' then 8 else if key = ''Delete'' then 46 else 0)"

definition stealth_js :: string where
  \<open>stealth_js = text_lines
      [[],
       ''Object.defineProperty(navigator, 'webdriver', {get: () => false});'',
       ''var pp=Object.getPrototypeOf(navigator.plugins);'',
       ''Object.defineProperty(navigator, 'plugins', {'',
       ''    get: () => {'',
       ''        var p1={name:'Chrome PDF Plugin',filename:'internal-pdf-viewer',description:'Portable Document Format',length:1};'',
       ''        var p2={name:'Chrome PDF Viewer',filename:'mhjfbmdgcfjbbpaeojofohoefgiehjai',description:'' @ [quote_char] @ [quote_char] @ '',length:1};'',
       ''        var p3={name:'Native Client',filename:'internal-nacl-plugin',description:'' @ [quote_char] @ [quote_char] @ '',length:1};'',
       ''        return Object.setPrototypeOf([p1,p2,p3],pp);'',
       ''    }'',
       ''});'',
       ''var mp=Object.getPrototypeOf(navigator.mimeTypes);'',
       ''Object.defineProperty(navigator, 'mimeTypes', {'',
       ''    get: () => Object.setPrototypeOf([{type:'application/pdf',suffixes:'pdf',description:'' @ [quote_char] @ [quote_char] @ ''}],mp)'',
       ''});'',
       ''Object.defineProperty(navigator, 'languages', {get: () => ['zh-CN','zh','en']});'',
       ''Object.defineProperty(navigator, 'hardwareConcurrency', {get: () => 4});'',
       ''window.chrome = {runtime:{}, loadTimes:()=>{}, csi:()=>{}};'',
       []]\<close>

definition dump_js :: string where
  \<open>dump_js = text_lines
      [[],
       ''JSON.stringify({u:document.URL,t:(document.title||'' @ [quote_char] @ [quote_char] @ '').slice(0,100),'',
       ''n:Array.from(document.querySelectorAll('*')).filter(function(e){'',
       '' return e.id||(e.className&&typeof e.className==='string'&&e.className.trim())||e.getAttribute('role')||e.getAttribute('aria-label')||e.href||e.tagName==='INPUT'||e.tagName==='BUTTON'||e.tagName==='A'||e.tagName==='FORM'||e.tagName==='TEXTAREA'||e.tagName==='SELECT'' @ [quote_char],
       ''}).slice(0,200).map(function(e){'',
       '' var o={t:e.tagName.toLowerCase()};'',
       '' if(e.id)o.i=e.id;'',
       '' var c=(typeof e.className==='string'?e.className:'' @ [quote_char] @ [quote_char] @ '').trim().slice(0,80);if(c)o.c=c;'',
       '' var r=e.getAttribute('role');if(r)o.r=r;'',
       '' var l=e.getAttribute('aria-label');if(l)o.l=l;'',
       '' var d=e.getAttribute('data-testid');if(d)o.d=d;'',
       '' if(e.href)o.h=e.href;'',
       '' if(e.tagName==='INPUT'){var tp=e.getAttribute('type'),p=e.getAttribute('placeholder');if(tp)o.ty=tp;if(p)o.p=p;}'',
       '' if(e.tagName==='BUTTON'){var bt=e.getAttribute('type');if(bt)o.ty=bt;}'',
       '' if(e.tagName==='FORM'){var ac=e.getAttribute('action');if(ac)o.a=ac;}'',
       '' var tx=(e.textContent||'' @ [quote_char] @ [quote_char] @ '').trim().slice(0,60);if(tx&&(e.tagName==='A'||e.tagName==='BUTTON'||e.tagName==='SPAN'||e.tagName==='P'||e.tagName==='H1'||e.tagName==='H2'||e.tagName==='H3'||e.tagName==='LI'||e.tagName==='LABEL'||e.tagName==='DIV'))o.x=tx;'',
       '' return o;'',
       ''})})'',
       []]\<close>

text \<open>Each script is a fixed text around the escaped argument.\<close>

lemma script_head_quote: "\<exists>pre. script_head = pre @ [quote_char]"
  by (rule exI [of _ "butlast script_head"]) (simp add: script_head_def text_lines_def)

lemma tails_quote:
  "\<exists>rest. click_tail = quote_char # rest" "\<exists>rest. hover_tail = quote_char # rest"
  by (simp_all add: click_tail_def hover_tail_def text_lines_def)

lemma click_js_frame: "\<exists>pre rest. \<forall>css. click_js css = pre @ quote_char # js_selector css @ quote_char # rest"
proof -
  obtain pre rest where "script_head = pre @ [quote_char]" "click_tail = quote_char # rest"
    using script_head_quote tails_quote by blast
  then show ?thesis by (intro exI [of _ pre] exI [of _ rest]) (simp add: click_js_def)
qed

lemma hover_js_frame: "\<exists>pre rest. \<forall>css. hover_js css = pre @ quote_char # js_selector css @ quote_char # rest"
proof -
  obtain pre rest where "script_head = pre @ [quote_char]" "hover_tail = quote_char # rest"
    using script_head_quote tails_quote by blast
  then show ?thesis by (intro exI [of _ pre] exI [of _ rest]) (simp add: hover_js_def)
qed

lemma exists_js_frame: "\<exists>pre rest. \<forall>css. exists_js css = pre @ quote_char # js_selector css @ quote_char # rest"
  unfolding exists_js_def by (intro exI allI) (rule refl)

definition type_head :: string where
  "type_head = ''(()=>{const e=document.querySelector(''"

definition type_mid :: string where
  "type_mid = '');if(!e)return false;'' @ ''e.focus();e.value=''"

lemma type_js_frame:
  "\<exists>rest. \<forall>css t. type_js css t =
     type_head @ quote_char # js_selector css @ quote_char # type_mid @ quote_char # js_text t @ quote_char # rest"
  unfolding type_js_def type_head_def type_mid_def append_assoc append_Cons append_Nil
  by (intro exI allI) (rule refl)

end
