(* ===== verification/Chrome_Launch.thy ===== *)
theory Chrome_Launch
  imports Text_Codecs
begin

text \<open>
  Starting Chrome (\<open>find_chrome\<close>, \<open>http_get\<close>, \<open>launch_chrome\<close> of
  src/wheel/browser/imp/cdp_browser_manager.cpp). What the operating system answers is an oracle:
  which files are executable, whether \<open>pipe\<close> and \<open>fork\<close> succeed, what \<open>poll\<close> and \<open>read\<close> return
  on the pipe, and how the connections to the HTTP port go.
\<close>

subsection \<open>HTTP\<close>

abbreviation crlf :: string where "crlf \<equiv> [carriage_return, line_feed]"

datatype connection = NoSocket | NoConnection | Received "string list"

definition http_request :: "string \<Rightarrow> string \<Rightarrow> string" where
  "http_request host path =
     ''GET '' @ path @ '' HTTP/1.0'' @ crlf @ ''Host: '' @ host @ crlf @ ''Connection: close'' @ crlf @ crlf"

text \<open>\<open>resp += buf\<close> appends a C string: the rest of a chunk after a NUL is lost.\<close>

definition http_response :: "string list \<Rightarrow> string" where
  "http_response chunks = concat (map (takeWhile (\<lambda>c. c \<noteq> CHR 0x00)) chunks)"

definition http_body :: "string \<Rightarrow> string" where
  "http_body resp =
     (case str_find (crlf @ crlf) resp of None \<Rightarrow> [] | Some i \<Rightarrow> drop (i + 4) resp)"

definition http_get :: "connection \<Rightarrow> string" where
  "http_get c =
     (case c of NoSocket \<Rightarrow> [] | NoConnection \<Rightarrow> [] | Received chunks \<Rightarrow> http_body (http_response chunks))"

subsection \<open>The executable\<close>

definition chrome_candidates :: "string list" where
  "chrome_candidates =
     [''google-chrome'', ''google-chrome-stable'', ''chromium'', ''chromium-browser'',
      ''/usr/bin/google-chrome'', ''/usr/bin/google-chrome-stable'', ''/usr/bin/chromium'',
      ''/usr/bin/chromium-browser'', ''/snap/bin/chromium'']"

definition find_chrome :: "(string \<Rightarrow> bool) \<Rightarrow> string \<Rightarrow> string" where
  "find_chrome executable chrome_path =
     (if chrome_path \<noteq> [] then chrome_path
      else case find executable chrome_candidates of None \<Rightarrow> [] | Some c \<Rightarrow> c)"

definition chrome_argv :: "string \<Rightarrow> string list" where
  "chrome_argv chrome =
     [chrome, ''--headless'', ''--disable-gpu'', ''--no-sandbox'', ''--disable-dev-shm-usage'',
      ''--disable-blink-features=AutomationControlled'',
      ''--user-agent=Mozilla/5.0 (X11; Linux x86_64) AppleWebKit/537.36 (KHTML, like Gecko) Chrome/147.0.0.0 Safari/537.36'',
      ''--remote-allow-origins=*'', ''--remote-debugging-address=127.0.0.1'', ''--remote-debugging-port=0'']"

subsection \<open>The URL on the output of Chrome\<close>

datatype poll_result = PollError | PollTimeout | ReadEnd | ReadData string

definition ws_prefix :: string where
  "ws_prefix = ''ws://''"

definition url_blanks :: string where
  "url_blanks = [CHR '' '', CHR 0x09, carriage_return, line_feed]"

text \<open>The URL in what has been read so far, cut at the end of the buffer when no blank follows.\<close>

definition ws_url_in :: "string \<Rightarrow> string option" where
  "ws_url_in acc =
     (case str_find ws_prefix acc of
        None \<Rightarrow> None
      | Some pos \<Rightarrow>
          (case find_first_of_from url_blanks pos acc of
             None \<Rightarrow> Some (drop pos acc)
           | Some e \<Rightarrow> Some (take (e - pos) (drop pos acc))))"

text \<open>At most 60 rounds; when the oracle has no more answers every further poll times out.\<close>

fun read_url :: "nat \<Rightarrow> string \<Rightarrow> poll_result list \<Rightarrow> string" where
  "read_url 0 acc ps = []"
| "read_url (Suc n) acc [] = []"
| "read_url (Suc n) acc (p # ps) =
     (case p of
        PollError \<Rightarrow> []
      | PollTimeout \<Rightarrow> read_url n acc ps
      | ReadEnd \<Rightarrow> []
      | ReadData s \<Rightarrow>
          (case ws_url_in (acc @ s) of
             Some u \<Rightarrow> u
           | None \<Rightarrow> read_url n (acc @ s) ps))"

text \<open>The port taken from the URL: the digits after the second colon beyond \<open>ws://\<close>.\<close>

definition url_port :: "string \<Rightarrow> int32 result" where
  "url_port url =
     (let from = (case char_find_from (CHR '':'') 5 url of None \<Rightarrow> 0 | Some a \<Rightarrow> a + 1)
      in case char_find_from (CHR '':'') from url of
           None \<Rightarrow> Inr 0
         | Some b \<Rightarrow>
             bind_res (case char_find_from (CHR ''/'') b url of
                         None \<Rightarrow> substr_from (b + 1) url
                       | Some sl \<Rightarrow> substr (b + 1) (sl - b - 1) url) stoi)"

definition default_port :: "int32 \<Rightarrow> int32" where
  "default_port p = (if p = 0 then 9222 else p)"

text \<open>The rounds that wait for the HTTP service: how many of the five were used.\<close>

fun http_rounds :: "nat \<Rightarrow> connection list \<Rightarrow> nat" where
  "http_rounds 0 cs = 0"
| "http_rounds (Suc n) [] = Suc n"
| "http_rounds (Suc n) (c # cs) = (if http_get c \<noteq> [] then 1 else Suc (http_rounds n cs))"

subsection \<open>\<open>launch_chrome\<close>\<close>

record os_oracle =
  os_executable :: "string \<Rightarrow> bool"
  os_pipe :: bool
  os_fork :: "int32 option"
  os_polls :: "poll_result list"
  os_connections :: "connection list"

record launch_state =
  ls_url :: string
  ls_error :: string
  ls_pid :: int32
  ls_probed :: "(int32 \<times> nat) option"

text \<open>
  The new state and the exception that leaves the function: \<open>std::stoi\<close> may throw after the URL is
  set. \<open>ls_probed\<close> records the port that is polled for readiness and the number of rounds.
\<close>

definition launch_chrome ::
  "os_oracle \<Rightarrow> string \<Rightarrow> int32 \<Rightarrow> launch_state \<Rightarrow> launch_state \<times> unit result" where
  "launch_chrome os chrome_path cdp_port st =
     (let chrome = find_chrome (os_executable os) chrome_path
      in if chrome = [] then (st\<lparr>ls_error := ''chrome not found''\<rparr>, Inr ())
         else if \<not> os_pipe os then (st\<lparr>ls_error := ''pipe() failed''\<rparr>, Inr ())
         else case os_fork os of
           None \<Rightarrow> (st\<lparr>ls_error := ''fork() failed''\<rparr>, Inr ())
         | Some pid \<Rightarrow>
             (let url = read_url 60 [] (os_polls os)
              in if url = [] then
                   (st\<lparr>ls_pid := - 1, ls_error := ''chrome did not output WS URL''\<rparr>, Inr ())
                 else
                   (let st1 = st\<lparr>ls_pid := pid, ls_url := url\<rparr>
                    in case url_port url of
                         Inl e \<Rightarrow> (st1, Inl e)
                       | Inr p \<Rightarrow>
                           (let port = (if 0 < sint p then p else default_port cdp_port)
                            in (st1\<lparr>ls_probed := Some (port, http_rounds 5 (os_connections os))\<rparr>, Inr ())))))"

subsection \<open>What is read\<close>

lemma http_body_after_headers:
  assumes "str_find (crlf @ crlf) (hdr @ crlf @ crlf @ body) = Some (length hdr)"
  shows "http_body (hdr @ crlf @ crlf @ body) = body"
  using assms by (simp add: http_body_def)

lemma http_response_plain: "list_all (\<lambda>s. CHR 0x00 \<notin> set s) chunks \<Longrightarrow> http_response chunks = concat chunks"
  by (induction chunks) (auto simp: http_response_def takeWhile_eq_all_conv)

text \<open>A URL that Chrome printed on a line of its own is found whole, however the line is read.\<close>

lemma ws_url_found:
  assumes "str_find ws_prefix (pre @ ws_prefix @ rest @ b # post) = Some (length pre)"
    "b \<in> set url_blanks" "set rest \<inter> set url_blanks = {}"
  shows "ws_url_in (pre @ ws_prefix @ rest @ b # post) = Some (ws_prefix @ rest)"
proof -
  have "set (ws_prefix @ rest) \<inter> set url_blanks = {}"
    using assms(3) by (auto simp: ws_prefix_def url_blanks_def)
  from find_first_of_append [OF this assms(2), of post]
  have "find_first_of_from url_blanks (length pre) (pre @ ws_prefix @ rest @ b # post) =
      Some (length pre + length (ws_prefix @ rest))"
    by (simp add: find_first_of_from_def)
  with assms(1) show ?thesis by (simp add: ws_url_in_def)
qed

text \<open>
  The port of a URL with one colon after the scheme is not read: the search for the second colon
  fails, and the default port is used.
\<close>

lemma url_port_missed:
  assumes "CHR '':'' \<notin> set host" "CHR '':'' \<notin> set tail"
  shows "url_port (ws_prefix @ host @ CHR '':'' # tail) = Inr 0"
proof -
  let ?u = "ws_prefix @ host @ CHR '':'' # tail"
  have d: "drop 5 ?u = host @ CHR '':'' # tail" by (simp add: ws_prefix_def)
  have a: "char_find_from (CHR '':'') 5 ?u = Some (5 + length host)"
    unfolding char_find_from_def d by (simp add: char_find_append [OF assms(1)])
  have n: "5 + length host + 1 = length (ws_prefix @ host @ [CHR '':''])" by (simp add: ws_prefix_def)
  have u: "?u = (ws_prefix @ host @ [CHR '':'']) @ tail" by simp
  have "drop (5 + length host + 1) ?u = tail"
    unfolding n u by (metis append_eq_conv_conj)
  then have "char_find_from (CHR '':'') (5 + length host + 1) ?u = None"
    unfolding char_find_from_def using assms(2) char_find_None_iff [of "CHR '':''" tail] by simp
  with a show ?thesis by (simp add: url_port_def)
qed

lemma launch_probes_default:
  assumes "find_chrome (os_executable os) path \<noteq> []" "os_pipe os" "os_fork os = Some pid"
    "read_url 60 [] (os_polls os) = ws_prefix @ host @ CHR '':'' # tail"
    "CHR '':'' \<notin> set host" "CHR '':'' \<notin> set tail"
  shows "launch_chrome os path cdp_port st =
     (st\<lparr>ls_pid := pid, ls_url := ws_prefix @ host @ CHR '':'' # tail,
        ls_probed := Some (default_port cdp_port, http_rounds 5 (os_connections os))\<rparr>, Inr ())"
  using assms url_port_missed [OF assms(5,6)]
  by (simp add: launch_chrome_def Let_def ws_prefix_def)

lemma http_rounds_bound: "http_rounds n cs \<le> n"
proof (induction n arbitrary: cs)
  case (Suc n)
  then show ?case by (cases cs) simp_all
qed simp

text \<open>When \<open>launch_chrome\<close> returns, there is either an error and no URL, or a URL and a process.\<close>

lemma launch_outcome:
  assumes "launch_chrome os path port st = (st', r)" "ls_url st = []" "ls_error st = []"
  shows "(ls_url st' = [] \<longleftrightarrow> ls_error st' \<noteq> []) \<and> (ls_url st' \<noteq> [] \<longrightarrow> os_fork os = Some (ls_pid st'))"
  using assms
  by (auto simp: launch_chrome_def Let_def split: option.splits if_splits sum.splits)

text \<open>A URL that arrives in two reads is cut at the end of the first.\<close>

lemma split_read_truncates:
  assumes "str_find ws_prefix (pre @ ws_prefix @ part) = Some (length pre)" "set part \<inter> set url_blanks = {}"
  shows "read_url (Suc n) [] (ReadData (pre @ ws_prefix @ part) # ps) = ws_prefix @ part"
proof -
  have "set (ws_prefix @ part) \<inter> set url_blanks = {}"
    using assms(2) by (auto simp: ws_prefix_def url_blanks_def)
  then have "find_first_of_from url_blanks (length pre) (pre @ ws_prefix @ part) = None"
    using find_first_of_None_iff [of url_blanks "ws_prefix @ part"] by (simp add: find_first_of_from_def)
  with assms(1) show ?thesis by (simp add: ws_url_in_def)
qed

end
