(* ===== verification/Cdp_State.thy ===== *)
theory Cdp_State
  imports Page_Scripts Chrome_Launch File_System Module_Models
begin

text \<open>
  The state of \<open>CdpBrowserManager\<close> and \<open>CdpBrowserContext\<close>
  (src/wheel/browser/imp/cdp_browser_manager.h) and the operations everything else is built from:
  \<open>send_command\<close>, \<open>on_event\<close>, \<open>remove_event\<close>, and the creation and destruction of contexts.
  The callbacks the code stores are defunctionalised: \<open>kont\<close> and \<open>ekont\<close> have one constructor per
  lambda of the source, with what it captures. A callback of the caller is the list of what it does
  when called: throw, or call the interface again (\<open>Call\<close>) with callbacks of its own; being called
  is recorded with its number and its argument. A context is an address; an address without an
  object is dangling, and using it is \<open>Undefined\<close>.
\<close>

subsection \<open>Callbacks of the caller\<close>

text \<open>A \<open>BrowserContext*\<close> in a callback: the one it was given, or a known one.\<close>

datatype ctx_ref = ThisCtx | Ctx nat

datatype page_op =
    Navigate string
  | Evaluate string
  | AddInitScript string
  | CurrentUrl
  | Screenshot string
  | SendCommand string json
  | CloseContext
  | Click string
  | TypeText string string
  | Scroll int32 int32
  | PressKey string
  | Hover string
  | ExistsSelector string
  | WaitForSelector string u64
  | AfterDelay u64
  | DumpStructure

datatype api_op =
    GetContext string
  | SaveSession string
  | RestoreSession string
  | SendRoot string json string
  | OnEvent string string
  | RemoveEvent string string
  | RemoveContext string
  | Page ctx_ref page_op

text \<open>
  \<open>Fn n acts\<close> is the callback with number \<open>n\<close>; \<open>NoFn\<close> the empty \<open>std::function\<close>. The two callbacks
  of \<open>Call\<close> are the success and the error callback of the operation.
\<close>

datatype ucb = NoFn | Fn nat "act list"
  and act = Raise | Call api_op ucb ucb

datatype uval = VUnit | VJson json | VStr string | VBool bool | VCtx nat

text \<open>A callback with the context that \<open>ThisCtx\<close> means in it.\<close>

datatype clo = Clo (clo_this: "nat option") (clo_fn: ucb)

type_synonym ucall = "(clo \<times> uval) option"

subsection \<open>Callbacks of the library\<close>

text \<open>What is done with a context once it is there: for the caller, for \<open>save_session\<close>, for \<open>restore_session\<close>.\<close>

datatype gk =
    GetCtx (gk_ok: clo) (gk_err: clo)
  | SaveCtx string (gk_ok: clo) (gk_err: clo)
  | RestoreCtx json (gk_ok: clo) (gk_err: clo)

text \<open>What is done with the result of a script.\<close>

datatype rk =
    RUser clo
  | RTrue string clo clo
  | RUnit clo
  | RFound clo
  | RDump clo
  | RWait nat

datatype kont =
    KUser clo
  | KUnit clo
  | KEval rk
  | KUrl clo
  | KShot string clo clo
  | KClose nat clo
  | KKeyUp nat string nat clo clo
  | KCreated string gk
  | KAttached string string gk
  | KInit string nat gk
  | KCookies string clo
  | KRestored clo
  | KNothing

datatype ekont =
    EUser clo
  | EWait nat
  | EDrop nat
  | ENothing

subsection \<open>State\<close>

record cdp_context =
  bc_platform :: string
  bc_target :: string
  bc_session :: string
  bc_closed :: bool
  bc_guards :: "nat list"

text \<open>What the closures of one \<open>wait_for_selector\<close> share.\<close>

record wait_state =
  wt_ctx :: nat
  wt_css :: string
  wt_timeout :: u64
  wt_start :: nat
  wt_done :: bool
  wt_found :: clo
  wt_lost :: clo

datatype task = TOpen | TMessage string | TCheck nat

record manager =
  bm_config :: browser_config
  bm_pid :: int32
  bm_ws_url :: string
  bm_ws_started :: bool
  bm_ws_ready :: bool
  bm_cmd_id :: int32
  bm_started :: bool
  bm_crashed :: bool
  bm_pending :: "(int, kont \<times> ekont) smap"
  bm_events :: "(string, clo) smap"
  bm_contexts :: "(string, nat) smap"
  bm_pending_commands :: "json list"
  bm_heap :: "(nat, cdp_context) smap"
  bm_next :: nat
  bm_guards :: "bool list"
  bm_waits :: "wait_state list"
  bm_posted :: "task list"
  bm_wake :: bool
  bm_sched :: bool
  bm_timers :: "(u64 \<times> nat \<times> clo) list"
  bm_work :: nat
  bm_done :: "launch_state list"
  bm_caught :: "exn list"
  bm_sent :: "string list"
  bm_killed :: "int32 list"
  bm_log :: "(nat \<times> uval) list"
  bm_fs :: fs
  bm_now :: nat

text \<open>
  \<open>bm_sent\<close> is what was given to \<open>sendText\<close>, \<open>bm_killed\<close> the processes that were killed, \<open>bm_log\<close> the
  callbacks of the caller that were called, \<open>bm_caught\<close> the exceptions the scheduler swallowed,
  \<open>bm_now\<close> the steady clock in nanoseconds. The scheduler is seen through its contract (theory
  \<open>Uv_Scheduler\<close>): posted tasks in order, a wake-up flag, one-shot timers, launches to do and done.
\<close>

definition new_manager :: "browser_config \<Rightarrow> fs \<Rightarrow> manager" where
  "new_manager c f =
     \<lparr>bm_config = c, bm_pid = - 1, bm_ws_url = [], bm_ws_started = False, bm_ws_ready = False,
      bm_cmd_id = 0, bm_started = False, bm_crashed = False, bm_pending = [], bm_events = [],
      bm_contexts = [], bm_pending_commands = [], bm_heap = [], bm_next = 0, bm_guards = [],
      bm_waits = [], bm_posted = [], bm_wake = False, bm_sched = False, bm_timers = [],
      bm_work = 0, bm_done = [], bm_caught = [], bm_sent = [], bm_killed = [], bm_log = [],
      bm_fs = f, bm_now = 0\<rparr>"

text \<open>\<open>BrowserFactory\<close>.\<close>

definition create_browser :: "browser_config \<Rightarrow> fs \<Rightarrow> manager" where
  "create_browser c f = new_manager c f"

definition bm_name :: "manager \<Rightarrow> string" where
  "bm_name m = ''browser''"

type_synonym 'a action = "manager \<Rightarrow> manager \<times> 'a result"

definition ret :: "'a \<Rightarrow> 'a action" where
  "ret x m = (m, Inr x)"

definition raise :: "exn \<Rightarrow> 'a action" where
  "raise e m = (m, Inl e)"

definition lift_res :: "'a result \<Rightarrow> 'a action" where
  "lift_res r m = (m, r)"

text \<open>An exception leaves the state as it is when it is thrown.\<close>

definition sbind :: "'a action \<Rightarrow> ('a \<Rightarrow> 'b action) \<Rightarrow> 'b action" where
  "sbind f g m = (case f m of (m1, Inl e) \<Rightarrow> (m1, Inl e) | (m1, Inr x) \<Rightarrow> g x m1)"

definition update :: "(manager \<Rightarrow> manager) \<Rightarrow> unit action" where
  "update f m = (f m, Inr ())"

lemma sbind_simps [simp]:
  "sbind (ret x) g m = g x m"
  "sbind (raise e) g m = (m, Inl e)"
  "sbind (lift_res (Inr x)) g m = g x m"
  "sbind (lift_res (Inl e)) g m = (m, Inl e)"
  "sbind (update f) k m = k () (f m)"
  by (simp_all add: sbind_def ret_def raise_def lift_res_def update_def)

lemma sbind_eq: "f m = (m1, r) \<Longrightarrow> sbind f g m = (case r of Inl e \<Rightarrow> (m1, Inl e) | Inr x \<Rightarrow> g x m1)"
  by (simp add: sbind_def)

lemma action_simps [simp]:
  "ret x m = (m, Inr x)" "raise e m = (m, Inl e)" "lift_res r m = (m, r)" "update f m = (f m, Inr ())"
  by (simp_all add: ret_def raise_def lift_res_def update_def)

subsection \<open>\<open>send_command\<close>\<close>

definition cmd_message :: "int32 \<Rightarrow> string \<Rightarrow> json \<Rightarrow> string \<Rightarrow> json" where
  "cmd_message i method params sid = json_object
     ([(''id'', json_of_int i), (''method'', JString method), (''params'', params)] @
      (if sid = [] then [] else [(''sessionId'', JString sid)]))"

definition send_text :: "float_io \<Rightarrow> json \<Rightarrow> unit action" where
  "send_text fl msg m =
     (case json_dump fl msg of Inl e \<Rightarrow> (m, Inl e) | Inr s \<Rightarrow> (m\<lparr>bm_sent := bm_sent m @ [s]\<rparr>, Inr ()))"

text \<open>\<open>cmd_id_++\<close> overflows a signed \<open>int\<close> after its largest value.\<close>

definition next_cmd_id :: "int32 action" where
  "next_cmd_id m =
     (if sint (bm_cmd_id m) = 2 ^ 31 - 1 then (m, Inl Undefined)
      else (m\<lparr>bm_cmd_id := bm_cmd_id m + 1\<rparr>, Inr (bm_cmd_id m)))"

definition put_pending :: "int32 \<Rightarrow> kont \<Rightarrow> ekont \<Rightarrow> manager \<Rightarrow> manager" where
  "put_pending i k e m = m\<lparr>bm_pending := mput (sint i) (k, e) (bm_pending m)\<rparr>"

definition bm_send_command ::
  "float_io \<Rightarrow> string \<Rightarrow> json \<Rightarrow> kont \<Rightarrow> ekont \<Rightarrow> string \<Rightarrow> unit action" where
  "bm_send_command fl method params k e sid =
     sbind next_cmd_id (\<lambda>i m.
       let msg = cmd_message i method params sid;
           m1 = put_pending i k e m
       in if \<not> bm_ws_ready m1 then (m1\<lparr>bm_pending_commands := bm_pending_commands m1 @ [msg]\<rparr>, Inr ())
          else send_text fl msg m1)"

subsection \<open>Event handlers\<close>

definition event_key :: "string \<Rightarrow> string \<Rightarrow> string" where
  "event_key sid method = sid @ '':'' @ method"

definition on_event :: "string \<Rightarrow> string \<Rightarrow> clo \<Rightarrow> manager \<Rightarrow> manager" where
  "on_event sid method handler m = m\<lparr>bm_events := mput (event_key sid method) handler (bm_events m)\<rparr>"

definition remove_event :: "string \<Rightarrow> string \<Rightarrow> manager \<Rightarrow> manager" where
  "remove_event sid method m = m\<lparr>bm_events := merase (event_key sid method) (bm_events m)\<rparr>"

subsection \<open>Contexts\<close>

definition new_context :: "string \<Rightarrow> string \<Rightarrow> string \<Rightarrow> cdp_context" where
  "new_context platform target session =
     \<lparr>bc_platform = platform, bc_target = target, bc_session = session, bc_closed = False, bc_guards = []\<rparr>"

definition deref :: "nat \<Rightarrow> cdp_context action" where
  "deref h m = (m, case map_of (bm_heap m) h of None \<Rightarrow> Inl Undefined | Some c \<Rightarrow> Inr c)"

definition alloc_context :: "string \<Rightarrow> string \<Rightarrow> string \<Rightarrow> nat action" where
  "alloc_context platform target session m =
     (m\<lparr>bm_heap := mput (bm_next m) (new_context platform target session) (bm_heap m),
         bm_next := Suc (bm_next m)\<rparr>, Inr (bm_next m))"

text \<open>The destructor clears the guards of the timers of the context.\<close>

definition destroy_context :: "nat \<Rightarrow> unit action" where
  "destroy_context h m =
     (case map_of (bm_heap m) h of
        None \<Rightarrow> (m, Inl Undefined)
      | Some c \<Rightarrow>
          (m\<lparr>bm_guards := foldl (\<lambda>g i. g[i := False]) (bm_guards m) (bc_guards c),
              bm_heap := merase h (bm_heap m)\<rparr>, Inr ()))"

definition remove_context :: "string \<Rightarrow> unit action" where
  "remove_context platform m =
     (case map_of (bm_contexts m) platform of
        None \<Rightarrow> (m, Inr ())
      | Some h \<Rightarrow> destroy_context h (m\<lparr>bm_contexts := merase platform (bm_contexts m)\<rparr>))"

text \<open>\<open>contexts_[platform].reset(h)\<close>: the old object is destroyed after the new one is in place.\<close>

definition reset_context :: "string \<Rightarrow> nat \<Rightarrow> unit action" where
  "reset_context platform h m =
     (let m1 = m\<lparr>bm_contexts := mput platform h (bm_contexts m)\<rparr>
      in case map_of (bm_contexts m) platform of
           None \<Rightarrow> (m1, Inr ())
         | Some old \<Rightarrow> destroy_context old m1)"

fun destroy_all :: "nat list \<Rightarrow> unit action" where
  "destroy_all [] m = (m, Inr ())"
| "destroy_all (h # hs) m = sbind (destroy_context h) (\<lambda>_. destroy_all hs) m"

definition clear_contexts :: "unit action" where
  "clear_contexts m = destroy_all (map snd (bm_contexts m)) (m\<lparr>bm_contexts := []\<rparr>)"

text \<open>\<open>Scheduler::post\<close>.\<close>

definition post_task :: "task \<Rightarrow> manager \<Rightarrow> manager" where
  "post_task t m = m\<lparr>bm_posted := bm_posted m @ [t], bm_wake := bm_wake m \<or> bm_sched m\<rparr>"

end
