(* ===== verification/Cdp_Context.thy ===== *)
theory Cdp_Context
  imports Cdp_State
begin

text \<open>
  The operations of \<open>CdpBrowserContext\<close> (src/wheel/browser/imp/cdp_browser_manager.cpp) and
  \<open>dump_page_structure\<close> (src/wheel/browser/browser_helpers.cpp), and what the code does with the
  results of the scripts they run. An operation gives the callback it calls before it returns, if it
  calls one: always as its last action.
\<close>

datatype reply = NoCall | CallOk uval | CallErr string

fun reply_call :: "clo \<Rightarrow> clo \<Rightarrow> reply \<Rightarrow> ucall" where
  "reply_call ok err NoCall = None"
| "reply_call ok err (CallOk v) = Some (ok, v)"
| "reply_call ok err (CallErr s) = Some (err, VStr s)"

definition no_reply :: "unit action \<Rightarrow> reply action" where
  "no_reply f = sbind f (\<lambda>_. ret NoCall)"

definition set_context :: "nat \<Rightarrow> cdp_context \<Rightarrow> manager \<Rightarrow> manager" where
  "set_context h c m = m\<lparr>bm_heap := mput h c (bm_heap m)\<rparr>"

subsection \<open>Commands of the page\<close>

definition bc_navigate :: "float_io \<Rightarrow> cdp_context \<Rightarrow> string \<Rightarrow> clo \<Rightarrow> clo \<Rightarrow> reply action" where
  "bc_navigate fl c url ok err = no_reply
     (bm_send_command fl ''Page.navigate'' (json_object [(''url'', JString url)])
        (KUnit ok) (EUser err) (bc_session c))"

definition bc_evaluate :: "float_io \<Rightarrow> cdp_context \<Rightarrow> string \<Rightarrow> rk \<Rightarrow> ekont \<Rightarrow> reply action" where
  "bc_evaluate fl c js r e = no_reply
     (bm_send_command fl ''Runtime.evaluate''
        (json_object [(''expression'', JString js), (''returnByValue'', JBool True)])
        (KEval r) e (bc_session c))"

definition bc_add_init_script :: "float_io \<Rightarrow> cdp_context \<Rightarrow> string \<Rightarrow> clo \<Rightarrow> clo \<Rightarrow> reply action" where
  "bc_add_init_script fl c js ok err = no_reply
     (bm_send_command fl ''Page.addScriptToEvaluateOnNewDocument'' (json_object [(''source'', JString js)])
        (KUnit ok) (EUser err) (bc_session c))"

definition bc_current_url :: "float_io \<Rightarrow> cdp_context \<Rightarrow> clo \<Rightarrow> clo \<Rightarrow> reply action" where
  "bc_current_url fl c ok err = no_reply
     (bm_send_command fl ''Runtime.evaluate''
        (json_object [(''expression'', JString ''document.URL''), (''returnByValue'', JBool True)])
        (KUrl ok) (EUser err) (bc_session c))"

definition bc_screenshot :: "float_io \<Rightarrow> cdp_context \<Rightarrow> string \<Rightarrow> clo \<Rightarrow> clo \<Rightarrow> reply action" where
  "bc_screenshot fl c path ok err = no_reply
     (bm_send_command fl ''Page.captureScreenshot'' (json_object [(''format'', JString ''png'')])
        (KShot path ok err) (EUser err) (bc_session c))"

definition bc_send_command ::
  "float_io \<Rightarrow> cdp_context \<Rightarrow> string \<Rightarrow> json \<Rightarrow> clo \<Rightarrow> clo \<Rightarrow> reply action" where
  "bc_send_command fl c method params ok err = no_reply
     (bm_send_command fl method params (KUser ok) (EUser err) (bc_session c))"

definition bc_close :: "float_io \<Rightarrow> nat \<Rightarrow> cdp_context \<Rightarrow> clo \<Rightarrow> clo \<Rightarrow> reply action" where
  "bc_close fl h c ok err =
     (if bc_closed c then ret (CallErr ''already closed'')
      else sbind (update (set_context h (c\<lparr>bc_closed := True\<rparr>))) (\<lambda>_. no_reply
        (bm_send_command fl ''Target.closeTarget'' (json_object [(''targetId'', JString (bc_target c))])
           (KClose h ok) (EUser err) [])))"

definition bc_click :: "float_io \<Rightarrow> cdp_context \<Rightarrow> string \<Rightarrow> clo \<Rightarrow> clo \<Rightarrow> reply action" where
  "bc_click fl c css ok err =
     (if bc_closed c then ret (CallErr ''context closed'')
      else bc_evaluate fl c (click_js css) (RTrue ''click: element not found'' ok err) (EUser err))"

definition bc_type :: "float_io \<Rightarrow> cdp_context \<Rightarrow> string \<Rightarrow> string \<Rightarrow> clo \<Rightarrow> clo \<Rightarrow> reply action" where
  "bc_type fl c css txt ok err =
     (if bc_closed c then ret (CallErr ''context closed'')
      else bc_evaluate fl c (type_js css txt) (RTrue ''type: element not found'' ok err) (EUser err))"

definition bc_scroll :: "float_io \<Rightarrow> cdp_context \<Rightarrow> int32 \<Rightarrow> int32 \<Rightarrow> clo \<Rightarrow> clo \<Rightarrow> reply action" where
  "bc_scroll fl c dx dy ok err =
     (if bc_closed c then ret (CallErr ''context closed'')
      else bc_evaluate fl c (scroll_js dx dy) (RUnit ok) (EUser err))"

definition key_event :: "string \<Rightarrow> string \<Rightarrow> nat \<Rightarrow> (string \<times> json) list \<Rightarrow> json" where
  "key_event kind key vk kvs = json_object
     ([(''type'', JString kind), (''key'', JString key)] @
      (if 0 < vk then [(''windowsVirtualKeyCode'', json_of_int (word_of_nat vk))] else []) @ kvs)"

definition bc_press_key :: "float_io \<Rightarrow> nat \<Rightarrow> cdp_context \<Rightarrow> string \<Rightarrow> clo \<Rightarrow> clo \<Rightarrow> reply action" where
  "bc_press_key fl h c key ok err =
     (if bc_closed c then ret (CallErr ''context closed'')
      else no_reply
        (bm_send_command fl ''Input.dispatchKeyEvent''
           (key_event ''keyDown'' key (key_code key)
              (if key = ''Enter'' then [(''text'', JString [carriage_return])] else []))
           (KKeyUp h key (key_code key) ok err) (EUser err) (bc_session c)))"

definition bc_hover :: "float_io \<Rightarrow> cdp_context \<Rightarrow> string \<Rightarrow> clo \<Rightarrow> clo \<Rightarrow> reply action" where
  "bc_hover fl c css ok err =
     (if bc_closed c then ret (CallErr ''context closed'')
      else bc_evaluate fl c (hover_js css) (RTrue ''hover: element not found'' ok err) (EUser err))"

definition bc_exists :: "float_io \<Rightarrow> cdp_context \<Rightarrow> string \<Rightarrow> clo \<Rightarrow> clo \<Rightarrow> reply action" where
  "bc_exists fl c css ok err =
     (if bc_closed c then ret (CallErr ''context closed'')
      else bc_evaluate fl c (exists_js css) (RFound ok) (EUser err))"

definition dump_page_structure :: "float_io \<Rightarrow> cdp_context \<Rightarrow> clo \<Rightarrow> clo \<Rightarrow> reply action" where
  "dump_page_structure fl c ok err = bc_evaluate fl c dump_js (RDump ok) (EUser err)"

subsection \<open>Waiting for a selector\<close>

definition set_wait_done :: "nat \<Rightarrow> manager \<Rightarrow> manager" where
  "set_wait_done w m = m\<lparr>bm_waits := (bm_waits m)[w := (bm_waits m ! w)\<lparr>wt_done := True\<rparr>]\<rparr>"

text \<open>The shared \<open>check\<close> closure; it uses the context it was created by.\<close>

definition check_wait :: "float_io \<Rightarrow> nat \<Rightarrow> reply action" where
  "check_wait fl w m =
     (if length (bm_waits m) \<le> w then (m, Inl Undefined)
      else let wt = bm_waits m ! w in
        if wt_done wt then (m, Inr NoCall)
        else sbind (deref (wt_ctx wt)) (\<lambda>c m.
          if bc_closed c then (set_wait_done w m, Inr NoCall)
          else if sint (wt_timeout wt) \<le> int ((bm_now m - wt_start wt) div 10 ^ 6) then
            (set_wait_done w m, Inr (CallErr (''wait_for_selector timeout ('' @ wt_css wt @ '')'')))
          else bc_evaluate fl c (exists_js (wt_css wt)) (RWait w) (EWait w) m) m)"

definition bc_wait_for_selector ::
  "nat \<Rightarrow> cdp_context \<Rightarrow> string \<Rightarrow> u64 \<Rightarrow> clo \<Rightarrow> clo \<Rightarrow> reply action" where
  "bc_wait_for_selector h c css timeout_ms found lost m =
     (if bc_closed c then (m, Inr (CallErr ''context closed''))
      else
        (let w = length (bm_waits m);
             wt = \<lparr>wt_ctx = h, wt_css = css, wt_timeout = timeout_ms, wt_start = bm_now m,
                   wt_done = False, wt_found = found, wt_lost = lost\<rparr>
         in (post_task (TCheck w) (m\<lparr>bm_waits := bm_waits m @ [wt]\<rparr>), Inr NoCall)))"

definition bc_after :: "nat \<Rightarrow> cdp_context \<Rightarrow> u64 \<Rightarrow> clo \<Rightarrow> reply action" where
  "bc_after h c delay_ms cb m =
     (let g = length (bm_guards m);
          m1 = m\<lparr>bm_guards := bm_guards m @ [True], bm_timers := bm_timers m @ [(delay_ms, g, cb)]\<rparr>
      in (set_context h (c\<lparr>bc_guards := bc_guards c @ [g]\<rparr>) m1, Inr NoCall))"

subsection \<open>The virtual call\<close>

fun page_call :: "float_io \<Rightarrow> nat \<Rightarrow> cdp_context \<Rightarrow> page_op \<Rightarrow> clo \<Rightarrow> clo \<Rightarrow> reply action" where
  "page_call fl h c (Navigate url) ok err = bc_navigate fl c url ok err"
| "page_call fl h c (Evaluate js) ok err = bc_evaluate fl c js (RUser ok) (EUser err)"
| "page_call fl h c (AddInitScript js) ok err = bc_add_init_script fl c js ok err"
| "page_call fl h c CurrentUrl ok err = bc_current_url fl c ok err"
| "page_call fl h c (Screenshot path) ok err = bc_screenshot fl c path ok err"
| "page_call fl h c (SendCommand method params) ok err = bc_send_command fl c method params ok err"
| "page_call fl h c CloseContext ok err = bc_close fl h c ok err"
| "page_call fl h c (Click css) ok err = bc_click fl c css ok err"
| "page_call fl h c (TypeText css txt) ok err = bc_type fl c css txt ok err"
| "page_call fl h c (Scroll dx dy) ok err = bc_scroll fl c dx dy ok err"
| "page_call fl h c (PressKey key) ok err = bc_press_key fl h c key ok err"
| "page_call fl h c (Hover css) ok err = bc_hover fl c css ok err"
| "page_call fl h c (ExistsSelector css) ok err = bc_exists fl c css ok err"
| "page_call fl h c (WaitForSelector css ms) ok err = bc_wait_for_selector h c css ms ok err"
| "page_call fl h c (AfterDelay ms) ok err = bc_after h c ms ok"
| "page_call fl h c DumpStructure ok err = dump_page_structure fl c ok err"

subsection \<open>Results\<close>

text \<open>\<open>res.contains("value") && !res["value"].is_null() && res["value"].get<bool>()\<close>.\<close>

definition value_true :: "json \<Rightarrow> bool result" where
  "value_true res =
     (if json_contains res ''value'' then
        bind_res (json_index_mut res ''value'') (\<lambda>v. if is_null v then Inr False else get_bool v)
      else Inr False)"

definition dump_text :: "json \<Rightarrow> string result" where
  "dump_text r =
     (if json_contains r ''value'' then
        bind_res (json_index_const r ''value'') (\<lambda>v. if is_null v then Inr ''{}'' else get_string v)
      else Inr ''{}'')"

fun run_rk :: "float_io \<Rightarrow> rk \<Rightarrow> json \<Rightarrow> ucall action" where
  "run_rk fl (RUser cb) res = ret (Some (cb, VJson res))"
| "run_rk fl (RTrue msg ok err) res =
     sbind (lift_res (value_true res)) (\<lambda>b. ret (Some (if b then (ok, VUnit) else (err, VStr msg))))"
| "run_rk fl (RUnit cb) res = ret (Some (cb, VUnit))"
| "run_rk fl (RFound cb) res = sbind (lift_res (value_true res)) (\<lambda>b. ret (Some (cb, VBool b)))"
| "run_rk fl (RDump cb) res = sbind (lift_res (dump_text res)) (\<lambda>s. ret (Some (cb, VStr s)))"
| "run_rk fl (RWait w) res = (\<lambda>m.
     if length (bm_waits m) \<le> w then (m, Inl Undefined)
     else if wt_done (bm_waits m ! w) then (m, Inr None)
     else sbind (lift_res (value_true res)) (\<lambda>found.
       if found then sbind (update (set_wait_done w)) (\<lambda>_. ret (Some (wt_found (bm_waits m ! w), VUnit)))
       else sbind (check_wait fl w)
              (\<lambda>r. ret (reply_call (wt_found (bm_waits m ! w)) (wt_lost (bm_waits m ! w)) r))) m)"

text \<open>\<open>result["result"]["value"].get<std::string>()\<close> on a const value.\<close>

definition result_url :: "json \<Rightarrow> string result" where
  "result_url j =
     bind_res (json_index_const j ''result'') (\<lambda>r. bind_res (json_index_const r ''value'') get_string)"

text \<open>The screenshot: the decoded data is written to the file.\<close>

definition write_shot :: "string \<Rightarrow> string \<Rightarrow> fs \<Rightarrow> fs \<times> bool" where
  "write_shot path b64 f =
     (let decoded = base64_decode b64; p = resolve f path;
          (f1, is_open) = open_out False p f
      in if is_open then (write_out p True decoded f1, True) else (f1, False))"

end
