(* ===== verification/Cdp_Manager.thy ===== *)
theory Cdp_Manager
  imports Cdp_Context
begin

text \<open>
  \<open>CdpBrowserManager\<close> (src/wheel/browser/imp/cdp_browser_manager.cpp): obtaining contexts, saving and
  restoring sessions, the dispatch of messages to the stored callbacks, the callbacks themselves,
  and the life cycle. \<open>exec_acts\<close> runs a callback of the caller, which may call the interface again.
\<close>

subsection \<open>Contexts\<close>

text \<open>\<open>on_ok(ctx)\<close> of \<open>do_get_context\<close>: the lambda of the caller, \<open>save_session\<close> or \<open>restore_session\<close>.\<close>

text \<open>The lambdas \<open>save_session\<close> and \<open>restore_session\<close> pass on.\<close>

definition fetch_cookies :: "float_io \<Rightarrow> string \<Rightarrow> clo \<Rightarrow> clo \<Rightarrow> nat \<Rightarrow> reply action" where
  [simp]: "fetch_cookies fl platform ok err h = sbind (deref h) (\<lambda>c. no_reply
     (bm_send_command fl ''Storage.getCookies'' JNull (KCookies platform ok) (EUser err) (bc_session c)))"

definition send_cookies :: "float_io \<Rightarrow> json \<Rightarrow> clo \<Rightarrow> clo \<Rightarrow> nat \<Rightarrow> reply action" where
  [simp]: "send_cookies fl session ok err h =
     sbind (lift_res (json_index_const session ''cookies'')) (\<lambda>cookies. sbind (deref h) (\<lambda>c. no_reply
       (bm_send_command fl ''Storage.setCookies'' (json_object [(''cookies'', cookies)])
          (KRestored ok) (EUser err) (bc_session c))))"

fun run_gk :: "float_io \<Rightarrow> gk \<Rightarrow> nat \<Rightarrow> reply action" where
  "run_gk fl (GetCtx ok err) h = ret (CallOk (VCtx h))"
| "run_gk fl (SaveCtx platform ok err) h = fetch_cookies fl platform ok err h"
| "run_gk fl (RestoreCtx session ok err) h = send_cookies fl session ok err h"

definition do_get_context :: "float_io \<Rightarrow> string \<Rightarrow> gk \<Rightarrow> reply action" where
  "do_get_context fl platform g m =
     (if \<not> bm_started m then (m, Inr (CallErr ''not started''))
      else case map_of (bm_contexts m) platform of
             Some h \<Rightarrow> run_gk fl g h m
           | None \<Rightarrow> no_reply
               (bm_send_command fl ''Target.createTarget'' (json_object [(''url'', JString ''about:blank'')])
                  (KCreated platform g) (EUser (gk_err g)) []) m)"

definition bm_get_context :: "float_io \<Rightarrow> string \<Rightarrow> clo \<Rightarrow> clo \<Rightarrow> reply action" where
  [simp]: "bm_get_context fl platform ok err = do_get_context fl platform (GetCtx ok err)"

definition attach_to_target :: "float_io \<Rightarrow> string \<Rightarrow> gk \<Rightarrow> json \<Rightarrow> ucall action" where
  "attach_to_target fl platform g result =
     sbind (lift_res (bind_res (json_index_const result ''targetId'') get_string)) (\<lambda>target.
     sbind (bm_send_command fl ''Target.attachToTarget''
        (json_object [(''targetId'', JString target), (''flatten'', JBool True)])
        (KAttached platform target g) (EUser (gk_err g)) [])
       (\<lambda>_. ret None))"

definition init_context :: "float_io \<Rightarrow> string \<Rightarrow> string \<Rightarrow> gk \<Rightarrow> json \<Rightarrow> ucall action" where
  "init_context fl platform target g r =
     sbind (lift_res (bind_res (json_index_const r ''sessionId'') get_string)) (\<lambda>session.
     sbind (alloc_context platform target session) (\<lambda>h.
     sbind (bm_send_command fl ''Page.addScriptToEvaluateOnNewDocument''
        (json_object [(''source'', JString stealth_js)]) (KInit platform h g) (EDrop h) session) (\<lambda>_.
     sbind (bm_send_command fl ''Page.enable'' JNull KNothing ENothing session)
       (\<lambda>_. ret None))))"

definition cache_context :: "float_io \<Rightarrow> string \<Rightarrow> nat \<Rightarrow> gk \<Rightarrow> ucall action" where
  "cache_context fl platform h g =
     sbind (reset_context platform h) (\<lambda>_.
     sbind (run_gk fl g h) (\<lambda>r. ret (reply_call (gk_ok g) (gk_err g) r)))"

subsection \<open>Sessions\<close>

definition session_path :: "browser_config \<Rightarrow> string \<Rightarrow> string" where
  "session_path c platform =
     (let dir = br_sessions_dir c
      in (if dir \<noteq> [] \<and> last dir \<noteq> CHR ''/'' then dir @ ''/'' else dir) @ platform @ ''_state.json'')"

definition write_file :: "string \<Rightarrow> string \<Rightarrow> fs \<Rightarrow> fs" where
  "write_file path data f =
     (let p = resolve f path; (f1, is_open) = open_out False p f in write_out p is_open data f1)"

definition slurp_file :: "fs \<Rightarrow> string \<Rightarrow> string" where
  "slurp_file f path = (case file_content f path of None \<Rightarrow> [] | Some s \<Rightarrow> s)"

definition save_session :: "float_io \<Rightarrow> string \<Rightarrow> clo \<Rightarrow> clo \<Rightarrow> reply action" where
  "save_session fl platform ok err = do_get_context fl platform (SaveCtx platform ok err)"

definition save_cookies :: "float_io \<Rightarrow> string \<Rightarrow> json \<Rightarrow> unit action" where
  "save_cookies fl platform result =
     sbind (lift_res (json_index_const result ''cookies'')) (\<lambda>cookies.
     sbind (lift_res (json_dump_indent fl 2 (json_object [(''cookies'', cookies)]))) (\<lambda>text.
       update (\<lambda>m. m\<lparr>bm_fs := write_file (session_path (bm_config m) platform) text (bm_fs m)\<rparr>)))"

definition restore_session :: "float_io \<Rightarrow> string \<Rightarrow> clo \<Rightarrow> clo \<Rightarrow> reply action" where
  "restore_session fl platform ok err m =
     (let content = slurp_file (bm_fs m) (session_path (bm_config m) platform)
      in if content = [] then (m, Inr (CallOk (VBool False)))
         else case json_parse_noexc fl content of
                None \<Rightarrow> (m, Inr (CallOk (VBool False)))
              | Some session \<Rightarrow>
                  if \<not> json_contains session ''cookies'' then (m, Inr (CallOk (VBool False)))
                  else do_get_context fl platform (RestoreCtx session ok err) m)"

subsection \<open>The stored callbacks\<close>

fun run_kont :: "float_io \<Rightarrow> kont \<Rightarrow> json \<Rightarrow> ucall action" where
  "run_kont fl (KUser cb) j = ret (Some (cb, VJson j))"
| "run_kont fl (KUnit cb) j = ret (Some (cb, VUnit))"
| "run_kont fl (KEval r) j = sbind (lift_res (json_index_const j ''result'')) (run_rk fl r)"
| "run_kont fl (KUrl cb) j = sbind (lift_res (result_url j)) (\<lambda>u. ret (Some (cb, VStr u)))"
| "run_kont fl (KShot path ok err) j =
     sbind (lift_res (bind_res (json_index_const j ''data'') get_string)) (\<lambda>b64 m.
       let (f, written) = write_shot path b64 (bm_fs m)
       in (m\<lparr>bm_fs := f\<rparr>, Inr (Some (if written then (ok, VUnit)
                                      else (err, VStr ''screenshot: cannot write file'')))))"
| "run_kont fl (KClose h ok) j =
     sbind (deref h) (\<lambda>c. sbind (remove_context (bc_platform c)) (\<lambda>_. ret (Some (ok, VUnit))))"
| "run_kont fl (KKeyUp h key vk ok err) j =
     sbind (deref h) (\<lambda>c. sbind (bm_send_command fl ''Input.dispatchKeyEvent''
        (key_event ''keyUp'' key vk []) (KUnit ok) (EUser err) (bc_session c)) (\<lambda>_. ret None))"
| "run_kont fl (KCreated platform g) j = attach_to_target fl platform g j"
| "run_kont fl (KAttached platform target g) j = init_context fl platform target g j"
| "run_kont fl (KInit platform h g) j = cache_context fl platform h g"
| "run_kont fl (KCookies platform ok) j =
     sbind (save_cookies fl platform j) (\<lambda>_. ret (Some (ok, VUnit)))"
| "run_kont fl (KRestored ok) j = ret (Some (ok, VBool True))"
| "run_kont fl KNothing j = ret None"

fun run_ekont :: "float_io \<Rightarrow> ekont \<Rightarrow> string \<Rightarrow> ucall action" where
  "run_ekont fl (EUser cb) err = ret (Some (cb, VStr err))"
| "run_ekont fl (EWait w) err = (\<lambda>m.
     if length (bm_waits m) \<le> w then (m, Inl Undefined)
     else if wt_done (bm_waits m ! w) then (m, Inr None)
     else sbind (check_wait fl w)
            (\<lambda>r. ret (reply_call (wt_found (bm_waits m ! w)) (wt_lost (bm_waits m ! w)) r)) m)"
| "run_ekont fl (EDrop h) err = sbind (destroy_context h) (\<lambda>_. ret None)"
| "run_ekont fl ENothing err = ret None"

subsection \<open>Callbacks of the caller\<close>

definition ctx_of_ref :: "nat option \<Rightarrow> ctx_ref \<Rightarrow> nat result" where
  "ctx_of_ref this r = (case r of Ctx h \<Rightarrow> Inr h | ThisCtx \<Rightarrow> (case this of None \<Rightarrow> Inl Undefined | Some h \<Rightarrow> Inr h))"

fun api_call :: "float_io \<Rightarrow> nat option \<Rightarrow> api_op \<Rightarrow> clo \<Rightarrow> clo \<Rightarrow> reply action" where
  "api_call fl this (GetContext platform) ok err = bm_get_context fl platform ok err"
| "api_call fl this (SaveSession platform) ok err = save_session fl platform ok err"
| "api_call fl this (RestoreSession platform) ok err = restore_session fl platform ok err"
| "api_call fl this (SendRoot method params sid) ok err =
     no_reply (bm_send_command fl method params (KUser ok) (EUser err) sid)"
| "api_call fl this (OnEvent sid method) ok err = no_reply (update (on_event sid method ok))"
| "api_call fl this (RemoveEvent sid method) ok err = no_reply (update (remove_event sid method))"
| "api_call fl this (RemoveContext platform) ok err = no_reply (remove_context platform)"
| "api_call fl this (Page r p) ok err =
     sbind (lift_res (ctx_of_ref this r)) (\<lambda>h. sbind (deref h) (\<lambda>c. page_call fl h c p ok err))"

definition this_of :: "nat option \<Rightarrow> uval \<Rightarrow> nat option" where
  "this_of this v = (case v of VCtx h \<Rightarrow> Some h | _ \<Rightarrow> this)"

definition note_call :: "nat \<Rightarrow> uval \<Rightarrow> manager \<Rightarrow> manager" where
  "note_call n v m = m\<lparr>bm_log := bm_log m @ [(n, v)]\<rparr>"

text \<open>The callback an operation calls before it returns, if any.\<close>

definition called :: "ucb \<Rightarrow> ucb \<Rightarrow> reply \<Rightarrow> (ucb \<times> uval) option" where
  "called ok err r = (case r of NoCall \<Rightarrow> None | CallOk v \<Rightarrow> Some (ok, v) | CallErr s \<Rightarrow> Some (err, VStr s))"

lemma called_sub: "called ok err r = Some (f, v) \<Longrightarrow> f = ok \<or> f = err"
  by (cases r) (auto simp: called_def)

function exec_acts :: "float_io \<Rightarrow> nat option \<Rightarrow> act list \<Rightarrow> unit action" where
  "exec_acts fl this acts m =
     (case acts of
        [] \<Rightarrow> (m, Inr ())
      | Raise # rest \<Rightarrow> (m, Inl UserException)
      | Call p ok err # rest \<Rightarrow>
          (case api_call fl this p (Clo this ok) (Clo this err) m of
             (m1, Inl e) \<Rightarrow> (m1, Inl e)
           | (m1, Inr r) \<Rightarrow>
               (case called ok err r of
                  None \<Rightarrow> exec_acts fl this rest m1
                | Some (NoFn, v) \<Rightarrow> (m1, Inl BadFunctionCall)
                | Some (Fn n body, v) \<Rightarrow>
                    (case exec_acts fl (this_of this v) body (note_call n v m1) of
                       (m2, Inl e) \<Rightarrow> (m2, Inl e)
                     | (m2, Inr _) \<Rightarrow> exec_acts fl this rest m2))))"
  by pat_completeness auto
termination exec_acts
  by (relation "measure (\<lambda>(fl, this, acts, m). size_list size acts)")
     (auto dest: called_sub)

declare exec_acts.simps [simp del]

definition call_clo :: "float_io \<Rightarrow> clo \<Rightarrow> uval \<Rightarrow> unit action" where
  "call_clo fl cb v m =
     (case clo_fn cb of
        NoFn \<Rightarrow> (m, Inl BadFunctionCall)
      | Fn n acts \<Rightarrow> exec_acts fl (this_of (clo_this cb) v) acts (note_call n v m))"

definition call_user :: "float_io \<Rightarrow> ucall \<Rightarrow> unit action" where
  "call_user fl c = (case c of None \<Rightarrow> ret () | Some (cb, v) \<Rightarrow> call_clo fl cb v)"

subsection \<open>Messages\<close>

definition erase_pending :: "int \<Rightarrow> manager \<Rightarrow> manager" where
  "erase_pending i m = m\<lparr>bm_pending := merase i (bm_pending m)\<rparr>"

text \<open>The entry stays in \<open>pending_\<close> when a callback throws.\<close>

definition on_response :: "float_io \<Rightarrow> json \<Rightarrow> int \<Rightarrow> kont \<Rightarrow> ekont \<Rightarrow> unit action" where
  "on_response fl msg i k e =
     sbind (if json_contains msg ''error'' then
              sbind (lift_res (bind_res (json_index_mut msg ''error'')
                       (\<lambda>er. bind_res (json_index_mut er ''message'') get_string))) (run_ekont fl e)
            else sbind (lift_res (json_index_mut msg ''result'')) (run_kont fl k)) (\<lambda>c.
     sbind (call_user fl c) (\<lambda>_. update (erase_pending i)))"

definition on_protocol_event :: "float_io \<Rightarrow> json \<Rightarrow> unit action" where
  "on_protocol_event fl msg =
     sbind (lift_res (bind_res (json_index_mut msg ''method'') get_string)) (\<lambda>method.
     sbind (lift_res (json_value get_string msg ''sessionId'' [])) (\<lambda>sid m.
       case map_of (bm_events m) (event_key sid method) of
         None \<Rightarrow> (m, Inr ())
       | Some cb \<Rightarrow>
           sbind (lift_res (json_value Inr msg ''params'' (JObject []))) (\<lambda>params. call_clo fl cb (VJson params))
             (remove_event sid method m)))"

definition on_ws_message :: "float_io \<Rightarrow> string \<Rightarrow> unit action" where
  "on_ws_message fl data =
     (case json_parse_noexc fl data of
        None \<Rightarrow> ret ()
      | Some msg \<Rightarrow>
          if json_contains msg ''id'' then
            sbind (lift_res (bind_res (json_index_mut msg ''id'') get_int)) (\<lambda>i m.
              case map_of (bm_pending m) (sint i) of
                None \<Rightarrow> (m, Inr ())
              | Some (k, e) \<Rightarrow> on_response fl msg (sint i) k e m)
          else if json_contains msg ''method'' then on_protocol_event fl msg
          else ret ())"

fun send_all :: "float_io \<Rightarrow> json list \<Rightarrow> unit action" where
  "send_all fl [] = ret ()"
| "send_all fl (j # js) = sbind (send_text fl j) (\<lambda>_. send_all fl js)"

definition on_ws_open :: "float_io \<Rightarrow> unit action" where
  "on_ws_open fl m =
     sbind (send_all fl (bm_pending_commands m)) (\<lambda>_.
     sbind (update (\<lambda>m. m\<lparr>bm_pending_commands := []\<rparr>)) (\<lambda>_.
     sbind next_cmd_id (\<lambda>i.
     sbind (update (put_pending i KNothing ENothing)) (\<lambda>_.
       send_text fl (cmd_message i ''Page.enable'' (JObject []) [])))))
       (m\<lparr>bm_ws_ready := True\<rparr>)"

datatype ws_event = WsOpen | WsMessage string | WsError | WsOther

definition on_ws_event :: "ws_event \<Rightarrow> manager \<Rightarrow> manager" where
  "on_ws_event ev m =
     (case ev of
        WsOpen \<Rightarrow> post_task TOpen m
      | WsMessage s \<Rightarrow> post_task (TMessage s) m
      | WsError \<Rightarrow> m\<lparr>bm_crashed := True\<rparr>
      | WsOther \<Rightarrow> m)"

subsection \<open>Life cycle\<close>

definition kill_chrome :: "manager \<Rightarrow> manager" where
  "kill_chrome m =
     (if 0 < sint (bm_pid m) then m\<lparr>bm_killed := bm_killed m @ [bm_pid m], bm_pid := - 1\<rparr> else m)"

definition bm_start :: "manager \<Rightarrow> manager" where
  "bm_start m =
     (if bm_started m then m
      else (kill_chrome m)\<lparr>bm_ws_ready := False, bm_pending_commands := [], bm_crashed := False,
             bm_sched := True, bm_wake := bm_sched m \<and> bm_wake m, bm_work := Suc (bm_work m)\<rparr>)"

text \<open>The worker thread runs \<open>launch_chrome\<close>; an exception of it is swallowed there.\<close>

definition run_launch :: "os_oracle \<Rightarrow> manager \<Rightarrow> manager" where
  "run_launch os m =
     (if bm_work m = 0 then m
      else (let (ls, _) = launch_chrome os (br_chrome_path (bm_config m)) (br_cdp_port (bm_config m))
                            \<lparr>ls_url = [], ls_error = [], ls_pid = bm_pid m, ls_probed = None\<rparr>
            in m\<lparr>bm_work := bm_work m - 1, bm_pid := ls_pid ls, bm_done := bm_done m @ [ls]\<rparr>))"

definition launch_done :: "launch_state \<Rightarrow> manager \<Rightarrow> manager" where
  "launch_done ls m =
     (if ls_error ls \<noteq> [] \<or> ls_url ls = [] then m
      else m\<lparr>bm_ws_url := ls_url ls, bm_ws_started := True, bm_started := True\<rparr>)"

definition launches_done :: "manager \<Rightarrow> manager" where
  "launches_done m = foldl (\<lambda>m ls. launch_done ls m) (m\<lparr>bm_done := []\<rparr>) (bm_done m)"

definition bm_stop :: "unit action" where
  "bm_stop m =
     (if \<not> bm_started m then (m, Inr ())
      else sbind clear_contexts (\<lambda>_. update (\<lambda>m.
             (launches_done ((kill_chrome (m\<lparr>bm_ws_started := False\<rparr>))
                \<lparr>bm_timers := [], bm_sched := False, bm_wake := False\<rparr>))
             \<lparr>bm_started := False, bm_crashed := False\<rparr>)) m)"

definition bm_destroy :: "unit action" where
  "bm_destroy m = bm_stop m"

definition bm_health_check :: "bool \<Rightarrow> manager \<Rightarrow> manager \<times> bool" where
  "bm_health_check alive m =
     (if \<not> bm_started m then (m, False)
      else if bm_crashed m then (m, False)
      else if 0 < sint (bm_pid m) \<and> \<not> alive then (m\<lparr>bm_crashed := True\<rparr>, False)
      else (m, True))"

subsection \<open>The loop thread\<close>

text \<open>The scheduler calls everything under \<open>catch (...)\<close>; undefined behaviour is not caught.\<close>

definition catching :: "unit action \<Rightarrow> unit action" where
  "catching f m =
     (case f m of
        (m1, Inr x) \<Rightarrow> (m1, Inr x)
      | (m1, Inl e) \<Rightarrow> if e = Undefined then (m1, Inl e) else (m1\<lparr>bm_caught := bm_caught m1 @ [e]\<rparr>, Inr ()))"

fun run_task :: "float_io \<Rightarrow> task \<Rightarrow> unit action" where
  "run_task fl TOpen = on_ws_open fl"
| "run_task fl (TMessage s) = on_ws_message fl s"
| "run_task fl (TCheck w) = sbind (check_wait fl w) (\<lambda>r m.
     call_user fl (reply_call (wt_found (bm_waits m ! w)) (wt_lost (bm_waits m ! w)) r) m)"

fun run_tasks :: "float_io \<Rightarrow> task list \<Rightarrow> unit action" where
  "run_tasks fl [] = ret ()"
| "run_tasks fl (t # ts) = sbind (catching (run_task fl t)) (\<lambda>_. run_tasks fl ts)"

text \<open>One turn of the loop: launches that are done, then the queue if it was woken.\<close>

definition bm_step :: "float_io \<Rightarrow> unit action" where
  "bm_step fl m =
     (let m1 = launches_done m
      in if bm_wake m1 then run_tasks fl (bm_posted m1) (m1\<lparr>bm_posted := [], bm_wake := False\<rparr>)
         else (m1, Inr ()))"

text \<open>A one-shot timer of \<open>CdpBrowserContext::after\<close> fires.\<close>

definition fire_timer :: "float_io \<Rightarrow> nat \<Rightarrow> unit action" where
  "fire_timer fl i m =
     (if length (bm_timers m) \<le> i then (m, Inr ())
      else (case bm_timers m ! i of
              (delay, g, cb) \<Rightarrow>
                (let m1 = m\<lparr>bm_timers := take i (bm_timers m) @ drop (Suc i) (bm_timers m)\<rparr>
                 in if g < length (bm_guards m) \<and> bm_guards m ! g then catching (call_clo fl cb VUnit) m1
                    else (m1, Inr ()))))"

text \<open>Calls of the interface from outside: the body of a callback.\<close>

definition client_calls :: "float_io \<Rightarrow> act list \<Rightarrow> unit action" where
  "client_calls fl acts = exec_acts fl None acts"

end
