(* ===== verification/Cdp_Safety.thy ===== *)
theory Cdp_Safety
  imports Cdp_Manager
begin

text \<open>
  Properties that every operation of the manager keeps. The locale \<open>manager_property\<close> asks for what a
  property of the state has to survive: a command entering \<open>pending_\<close>, the birth, change and death
  of a context, and the handling of a response. Its lemmas then give the property for every operation,
  every callback of the caller, whatever it does, and every turn of the loop. It is interpreted here
  for the exceptions caught so far and for "this id is settled", in Cdp_Invariant for the memory
  invariant of the contexts, in Cdp_Runs for the ids and in Cdp_Waits for a wait that is over.
\<close>

named_theorems keeps_intros "operations that keep a property"

definition keeps :: "(manager \<Rightarrow> bool) \<Rightarrow> 'a action \<Rightarrow> bool" where
  "keeps Q f \<longleftrightarrow> (\<forall>m. Q m \<longrightarrow> Q (fst (f m)))"

lemma keepsI: "(\<And>m. Q m \<Longrightarrow> Q (fst (f m))) \<Longrightarrow> keeps Q f"
  by (simp add: keeps_def)

lemma keepsD: "keeps Q f \<Longrightarrow> Q m \<Longrightarrow> f m = (m', r) \<Longrightarrow> Q m'"
  by (metis fst_conv keeps_def)

lemma keeps_basic [keeps_intros]:
  "keeps Q (ret x)" "keeps Q (raise e)" "keeps Q (lift_res r)" "keeps Q (deref h)"
  by (simp_all add: keeps_def deref_def)

lemma keeps_sbind [keeps_intros]:
  "keeps Q f \<Longrightarrow> (\<And>x. keeps Q (g x)) \<Longrightarrow> keeps Q (sbind f g)"
  by (auto simp: keeps_def sbind_def split: prod.splits sum.splits)

lemma sbind_kept: "Q (fst (f m)) \<Longrightarrow> (\<And>x. keeps Q (g x)) \<Longrightarrow> Q (fst (sbind f g m))"
  by (auto simp: keeps_def sbind_def split: prod.splits sum.splits)

lemma keeps_no_reply [keeps_intros]: "keeps Q f \<Longrightarrow> keeps Q (no_reply f)"
  unfolding no_reply_def by (intro keeps_intros)

lemma keeps_if [keeps_intros]: "(b \<Longrightarrow> keeps Q f) \<Longrightarrow> (\<not> b \<Longrightarrow> keeps Q g) \<Longrightarrow> keeps Q (if b then f else g)"
  by simp

lemma keeps_if_state [keeps_intros]:
  "keeps Q f \<Longrightarrow> keeps Q g \<Longrightarrow> keeps Q (\<lambda>m. if b m then f m else g m)"
  by (simp add: keeps_def)

lemma keeps_state [keeps_intros]: "keeps Q (\<lambda>m. (m, r m))"
  by (simp add: keeps_def)

lemma keeps_bind_deref:
  assumes "\<And>m c. Q m \<Longrightarrow> map_of (bm_heap m) h = Some c \<Longrightarrow> Q (fst (g c m))"
  shows "keeps Q (sbind (deref h) g)"
  using assms by (auto simp: keeps_def sbind_def deref_def split: option.splits)

subsection \<open>What a property has to survive\<close>

definition core ::
  "manager \<Rightarrow> (int, kont \<times> ekont) smap \<times> int32 \<times> (string, nat) smap \<times> (nat, cdp_context) smap \<times> nat \<times> bool list \<times>
     wait_state list \<times> exn list" where
  "core m = (bm_pending m, bm_cmd_id m, bm_contexts m, bm_heap m, bm_next m, bm_guards m, bm_waits m, bm_caught m)"

definition plain_entry :: "kont \<Rightarrow> ekont \<Rightarrow> bool" where
  "plain_entry k e \<longleftrightarrow> (\<forall>p h g. k \<noteq> KInit p h g) \<and> (\<forall>h. e \<noteq> EDrop h)"

definition bump_id :: "manager \<Rightarrow> manager" where
  "bump_id m = m\<lparr>bm_cmd_id := bm_cmd_id m + 1\<rparr>"

locale manager_property =
  fixes P :: "int set \<Rightarrow> manager \<Rightarrow> bool"
  assumes P_core: "P X m \<Longrightarrow> core m' = core m \<Longrightarrow> P X m'"
    and P_mono: "P {} m \<Longrightarrow> P {i} m"
    and P_id: "P X m \<Longrightarrow> sint (bm_cmd_id m) \<noteq> 2 ^ 31 - 1 \<Longrightarrow> P X (bump_id m)"
    and P_send: "P X m \<Longrightarrow> sint (bm_cmd_id m) \<noteq> 2 ^ 31 - 1 \<Longrightarrow> plain_entry k e \<Longrightarrow>
      P X (put_pending (bm_cmd_id m) k e (bump_id m))"
    and P_alloc: "P X m \<Longrightarrow> P X (fst (alloc_context p t s m))"
    and P_init: "P X m \<Longrightarrow> sint (bm_cmd_id m) \<noteq> 2 ^ 31 - 1 \<Longrightarrow>
      P X (put_pending (bm_cmd_id m) (KInit p (bm_next m) g) (EDrop (bm_next m))
            (bump_id (fst (alloc_context p t s m))))"
    and P_context: "P X m \<Longrightarrow> map_of (bm_heap m) h = Some c \<Longrightarrow> bc_platform c' = bc_platform c \<Longrightarrow>
      bc_guards c' = bc_guards c \<Longrightarrow> P X (set_context h c' m)"
    and P_after: "P X m \<Longrightarrow> map_of (bm_heap m) h = Some c \<Longrightarrow>
      P X (set_context h (c\<lparr>bc_guards := bc_guards c @ [length (bm_guards m)]\<rparr>)
            (m\<lparr>bm_guards := bm_guards m @ [True]\<rparr>))"
    and P_wait: "P X m \<Longrightarrow> P X (m\<lparr>bm_waits := bm_waits m @ [wt]\<rparr>)"
    and P_over: "P X m \<Longrightarrow> P X (set_wait_done w m)"
    and P_remove: "P X m \<Longrightarrow> P X (fst (remove_context p m))"
    and P_clear: "P {} m \<Longrightarrow> P {} (fst (clear_contexts m))"
    and P_cache: "P {} m \<Longrightarrow> map_of (bm_pending m) i = Some (KInit p h g, e) \<Longrightarrow>
      P {i} (fst (reset_context p h m))"
    and P_drop: "P {} m \<Longrightarrow> map_of (bm_pending m) i = Some (k, EDrop h) \<Longrightarrow>
      P {i} (fst (destroy_context h m))"
    and P_erase: "P {i} m \<Longrightarrow> P {} (erase_pending i m)"
begin

lemma keeps_update: "(\<And>m. core (f m) = core m) \<Longrightarrow> keeps (P X) (update f)"
  by (auto intro!: keepsI intro: P_core)

lemma keeps_core: "(\<And>m. core (fst (f m)) = core m) \<Longrightarrow> keeps (P X) f"
  by (auto intro!: keepsI intro: P_core)

lemma send_text_keeps [keeps_intros]: "keeps (P X) (send_text fl j)"
  by (rule keeps_core) (auto simp: send_text_def core_def split: sum.splits)

lemma next_cmd_id_keeps [keeps_intros]: "keeps (P X) next_cmd_id"
  by (rule keepsI) (auto simp: next_cmd_id_def bump_id_def dest: P_id)

lemma send_tail:
  assumes "P X m1" "m1 = put_pending i k e (bump_id m)" "sint (bm_cmd_id m) \<noteq> 2 ^ 31 - 1" "i = bm_cmd_id m"
  shows "P X (fst (bm_send_command fl meth params k e sid m))"
proof -
  have "P X (m1\<lparr>bm_pending_commands := c\<rparr>)" for c
    by (rule P_core [OF assms(1)]) (simp add: core_def)
  moreover have "P X (fst (send_text fl j m1))" for j
    using send_text_keeps assms(1) by (simp add: keeps_def)
  ultimately show ?thesis
    using assms(2-4) by (simp add: bm_send_command_def sbind_def next_cmd_id_def bump_id_def Let_def)
qed

lemma send_overflow:
  "P X m \<Longrightarrow> sint (bm_cmd_id m) = 2 ^ 31 - 1 \<Longrightarrow> P X (fst (bm_send_command fl meth params k e sid m))"
  by (simp add: bm_send_command_def sbind_def next_cmd_id_def)

lemma send_keeps [keeps_intros]:
  "plain_entry k e \<Longrightarrow> keeps (P X) (bm_send_command fl meth params k e sid)"
proof (rule keepsI)
  fix m
  assume "plain_entry k e" "P X m"
  then show "P X (fst (bm_send_command fl meth params k e sid m))"
    using send_tail [OF P_send refl] send_overflow by blast
qed

lemma bc_evaluate_keeps [keeps_intros]: "plain_entry (KEval r) e \<Longrightarrow> keeps (P X) (bc_evaluate fl c js r e)"
  unfolding bc_evaluate_def by (intro keeps_intros)

lemma set_wait_keeps [keeps_intros]: "keeps (P X) (update (set_wait_done w))"
  by (rule keepsI) (simp add: P_over)

lemma check_wait_keeps [keeps_intros]: "keeps (P X) (check_wait fl w)"
proof (rule keepsI)
  fix m
  assume P: "P X m"
  have "keeps (P X) (bc_evaluate fl c js (RWait w) (EWait w))" for c js
    by (intro keeps_intros) (simp add: plain_entry_def)
  then show "P X (fst (check_wait fl w m))"
    using P P_over [OF P]
    by (auto simp: check_wait_def sbind_def deref_def Let_def keeps_def split: option.splits)
qed

subsection \<open>Every operation keeps it\<close>

lemma page_call_keeps:
  assumes P: "P X m" and h: "map_of (bm_heap m) h = Some c"
  shows "P X (fst (page_call fl h c p ok err m))"
proof -
  have send: "P X (fst (bm_send_command fl meth params k e sid m'))"
    if "P X m'" "plain_entry k e" for meth params k e sid m'
    using send_keeps [OF that(2)] that(1) by (simp add: keeps_def)
  have eval: "P X (fst (bc_evaluate fl c js r e m))" if "plain_entry (KEval r) e" for js r e
    using bc_evaluate_keeps [OF that] P by (simp add: keeps_def)
  have nr: "fst (no_reply f m') = fst (f m')" for f m'
    by (simp add: no_reply_def sbind_def split: prod.splits sum.splits)
  note defs = bc_navigate_def bc_add_init_script_def bc_current_url_def bc_screenshot_def
    bc_send_command_def bc_click_def bc_type_def bc_scroll_def bc_press_key_def bc_hover_def
    bc_exists_def dump_page_structure_def
  show ?thesis
  proof (cases p)
    case CloseContext
    have "P X (set_context h (c\<lparr>bc_closed := True\<rparr>) m)" by (rule P_context [OF P h]) simp_all
    then show ?thesis using P CloseContext send by (simp add: bc_close_def nr plain_entry_def)
  next
    case (WaitForSelector css ms)
    then show ?thesis
      using P by (auto simp: bc_wait_for_selector_def Let_def post_task_def core_def intro: P_core [OF P_wait [OF P]])
  next
    case (AfterDelay ms)
    show ?thesis
      using P_core [OF P_after [OF P h]] AfterDelay
      by (simp add: bc_after_def Let_def core_def set_context_def)
  qed (use P in \<open>simp_all add: defs nr send eval plain_entry_def\<close>)
qed

lemma run_gk_keeps [keeps_intros]: "keeps (P X) (run_gk fl g h)"
  by (cases g) (auto intro!: keeps_intros simp: plain_entry_def)

lemma do_get_context_keeps [keeps_intros]: "keeps (P X) (do_get_context fl p g)"
proof (rule keepsI)
  fix m
  assume P: "P X m"
  have "keeps (P X) (no_reply (bm_send_command fl meth params (KCreated p g) (EUser c) sid))" for meth params c sid
    by (intro keeps_intros) (simp add: plain_entry_def)
  moreover have "keeps (P X) (run_gk fl g h)" for h by (intro keeps_intros)
  ultimately show "P X (fst (do_get_context fl p g m))"
    using P by (simp add: do_get_context_def keeps_def split: option.split)
qed

lemma save_session_keeps [keeps_intros]: "keeps (P X) (save_session fl p ok err)"
  unfolding save_session_def by (intro keeps_intros)

lemma restore_session_keeps [keeps_intros]: "keeps (P X) (restore_session fl p ok err)"
  using do_get_context_keeps by (auto simp: restore_session_def keeps_def Let_def split: option.split)

lemma remove_context_keeps [keeps_intros]: "keeps (P X) (remove_context p)"
  by (rule keepsI) (rule P_remove)

lemma api_call_keeps [keeps_intros]: "keeps (P X) (api_call fl this p ok err)"
proof (cases p)
  case (Page r q)
  then show ?thesis
    by (auto intro!: keeps_intros keeps_bind_deref page_call_keeps)
next
  case (OnEvent sid meth)
  have "keeps (P X) (update (on_event sid meth ok))"
    by (rule keeps_update) (simp add: on_event_def core_def)
  with OnEvent show ?thesis by (auto intro!: keeps_intros)
next
  case (RemoveEvent sid meth)
  have "keeps (P X) (update (remove_event sid meth))"
    by (rule keeps_update) (simp add: remove_event_def core_def)
  with RemoveEvent show ?thesis by (auto intro!: keeps_intros)
qed (auto intro!: keeps_intros simp: plain_entry_def)

lemma note_call_keeps: "P X m \<Longrightarrow> P X (note_call n v m)"
  by (erule P_core) (simp add: note_call_def core_def)

lemma exec_acts_keeps: "P X m \<Longrightarrow> P X (fst (exec_acts fl this acts m))"
proof (induction fl this acts m rule: exec_acts.induct)
  case (1 fl this acts m)
  note step = exec_acts.simps [of fl this acts m]
  show ?case
  proof (cases acts)
    case Nil
    with 1(4) show ?thesis by (subst step) simp
  next
    case (Cons a rest)
    show ?thesis
    proof (cases a)
      case Raise
      with Cons 1(4) show ?thesis by (subst step) simp
    next
      case (Call p ok err)
      obtain m1 r where api: "api_call fl this p (Clo this ok) (Clo this err) m = (m1, r)" by fastforce
      have P1: "P X m1" using keepsD [OF api_call_keeps 1(4) api] .
      show ?thesis
      proof (cases r)
        case (Inl e)
        with Cons Call api P1 show ?thesis by (subst step) simp
      next
        case (Inr rep)
        show ?thesis
        proof (cases "called ok err rep")
          case None
          have "P X (fst (exec_acts fl this rest m1))"
            using 1(1) [OF Cons Call api [symmetric] Inr None] P1 by blast
          with None Cons Call api Inr show ?thesis by (subst step) simp
        next
          case (Some fv)
          obtain f v where fv: "fv = (f, v)" by (cases fv)
          show ?thesis
          proof (cases f)
            case NoFn
            with Some fv Cons Call api Inr P1 show ?thesis by (subst step) simp
          next
            case (Fn n body)
            note this' = Some [unfolded fv Fn]
            obtain m2 r2 where body: "exec_acts fl (this_of this v) body (note_call n v m1) = (m2, r2)" by fastforce
            have P2: "P X m2"
              using 1(2) [OF Cons Call api [symmetric] Inr this' refl refl] note_call_keeps [OF P1] body
              by (metis fst_conv)
            show ?thesis
            proof (cases r2)
              case (Inl e)
              with body this' Cons Call api Inr P2 show ?thesis by (subst step) simp
            next
              case (Inr u)
              have "P X (fst (exec_acts fl this rest m2))"
                using 1(3) [OF Cons Call api [symmetric] \<open>r = Inr rep\<close> this' refl refl body [symmetric] Inr] P2 by blast
              with Inr body this' Cons Call api \<open>r = Inr rep\<close> show ?thesis by (subst step) simp
            qed
          qed
        qed
      qed
    qed
  qed
qed

lemma call_clo_keeps [keeps_intros]: "keeps (P X) (call_clo fl cb v)"
  by (auto simp: call_clo_def keeps_def note_call_keeps split: ucb.split intro!: exec_acts_keeps)

lemma call_user_keeps [keeps_intros]: "keeps (P X) (call_user fl c)"
  unfolding call_user_def by (auto intro!: keeps_intros split: option.split)

subsection \<open>The stored callbacks and the loop\<close>

lemma mono_at: "P {} m \<Longrightarrow> P {i} m"
  by (rule P_mono)

lemma keeps_at: "keeps (P {i}) f \<Longrightarrow> P {} m \<Longrightarrow> P {i} (fst (f m))"
  using mono_at by (simp add: keeps_def)

lemma init_context_keeps: "keeps (P X) (init_context fl p t g r)"
proof -
  have "P X (fst (sbind (alloc_context p t s) (\<lambda>h.
      sbind (bm_send_command fl ''Page.addScriptToEvaluateOnNewDocument''
        (json_object [(''source'', JString stealth_js)]) (KInit p h g) (EDrop h) s) (\<lambda>_.
      sbind (bm_send_command fl ''Page.enable'' JNull KNothing ENothing s) (\<lambda>_. ret None))) m))"
    if P: "P X m" for s m
  proof -
    obtain m1 where m1: "alloc_context p t s m = (m1, Inr (bm_next m))" by (simp add: alloc_context_def)
    have id: "bm_cmd_id m1 = bm_cmd_id m" using m1 by (auto simp: alloc_context_def)
    have "P X (fst (bm_send_command fl ''Page.addScriptToEvaluateOnNewDocument''
        (json_object [(''source'', JString stealth_js)]) (KInit p (bm_next m) g) (EDrop (bm_next m)) s m1))"
    proof (cases "sint (bm_cmd_id m) = 2 ^ 31 - 1")
      case True
      then show ?thesis using send_overflow [of X m1] P_alloc [OF P, of p t s] m1 id by simp
    next
      case False
      then show ?thesis
        using send_tail [OF P_init [OF P, of p g t s], of _ _ _ m1] m1 id by simp
    qed
    moreover have "keeps (P X) (sbind (bm_send_command fl ''Page.enable'' JNull KNothing ENothing s) (\<lambda>_. ret None))"
      by (intro keeps_intros) (simp add: plain_entry_def)
    ultimately have "P X (fst (sbind (bm_send_command fl ''Page.addScriptToEvaluateOnNewDocument''
        (json_object [(''source'', JString stealth_js)]) (KInit p (bm_next m) g) (EDrop (bm_next m)) s)
        (\<lambda>_. sbind (bm_send_command fl ''Page.enable'' JNull KNothing ENothing s) (\<lambda>_. ret None)) m1))"
      by (rule sbind_kept [where Q = "P X"])
    then show ?thesis by (simp add: sbind_eq [of "alloc_context p t s" m, OF m1])
  qed
  then have "keeps (P X) (sbind (alloc_context p t s) (\<lambda>h.
      sbind (bm_send_command fl ''Page.addScriptToEvaluateOnNewDocument''
        (json_object [(''source'', JString stealth_js)]) (KInit p h g) (EDrop h) s) (\<lambda>_.
      sbind (bm_send_command fl ''Page.enable'' JNull KNothing ENothing s) (\<lambda>_. ret None))))" for s
    by (rule keepsI)
  then show ?thesis unfolding init_context_def by (rule keeps_sbind [OF keeps_basic(3)])
qed

lemma run_rk_keeps [keeps_intros]: "keeps (P X) (run_rk fl r j)"
proof (cases r)
  case (RWait w)
  show ?thesis
  proof (rule keepsI)
    fix m
    assume P: "P X m"
    let ?c = "\<lambda>r. reply_call (wt_found (bm_waits m ! w)) (wt_lost (bm_waits m ! w)) r"
    have "keeps (P X) (sbind (lift_res (value_true j)) (\<lambda>found.
         if found then sbind (update (set_wait_done w)) (\<lambda>_. ret (Some (wt_found (bm_waits m ! w), VUnit)))
         else sbind (check_wait fl w) (\<lambda>r. ret (?c r))))"
      by (intro keeps_intros)
    with RWait P show "P X (fst (run_rk fl r j m))" by (simp add: keeps_def)
  qed
qed (auto intro!: keeps_intros)

lemma run_kont_keeps:
  assumes P: "P {} m" and i: "map_of (bm_pending m) i = Some (k, e)"
  shows "P {i} (fst (run_kont fl k j m))"
proof (cases k)
  case (KInit p h g)
  have "P {i} (fst (reset_context p h m))" using P_cache [OF P] i KInit by blast
  moreover have "keeps (P {i}) (sbind (run_gk fl g h) (\<lambda>r. ret (reply_call (gk_ok g) (gk_err g) r)))"
    by (intro keeps_intros)
  ultimately show ?thesis
    using KInit by (auto simp: cache_context_def sbind_def [of "reset_context p h"] keeps_def split: prod.splits sum.splits)
next
  case (KShot path ok err)
  have "keeps (P {i}) (\<lambda>m. let (f, written) = write_shot path b64 (bm_fs m)
       in (m\<lparr>bm_fs := f\<rparr>, Inr (Some (if written then (ok, VUnit) else (err, v)))))" for b64 v
    by (rule keeps_core) (simp add: core_def split: prod.split)
  with KShot P show ?thesis by (auto intro!: keeps_at keeps_intros)
next
  case (KCookies p ok)
  have "keeps (P {i}) (update (\<lambda>m. m\<lparr>bm_fs := write_file (session_path (bm_config m) p) t (bm_fs m)\<rparr>))" for t
    by (rule keeps_update) (simp add: core_def)
  then have "keeps (P {i}) (save_cookies fl p j)" unfolding save_cookies_def by (intro keeps_intros)
  with KCookies P show ?thesis by (auto intro!: keeps_at keeps_intros)
next
  case (KAttached p t g)
  with P show ?thesis by (auto intro!: keeps_at init_context_keeps)
next
  case (KCreated p g)
  have "keeps (P {i}) (attach_to_target fl p g j)"
    unfolding attach_to_target_def by (intro keeps_intros) (simp add: plain_entry_def)
  with KCreated P show ?thesis by (auto intro!: keeps_at)
qed (use P mono_at [OF P] in \<open>auto intro!: keeps_at keeps_intros simp: plain_entry_def\<close>)

lemma run_ekont_keeps:
  assumes P: "P {} m" and i: "map_of (bm_pending m) i = Some (k, e)"
  shows "P {i} (fst (run_ekont fl e err m))"
proof (cases e)
  case (EDrop h)
  have "P {i} (fst (destroy_context h m))" using P_drop [OF P] i EDrop by blast
  with EDrop show ?thesis by (auto simp: sbind_def split: prod.splits sum.splits)
next
  case (EWait w)
  have "keeps (P {i}) (sbind (check_wait fl w)
      (\<lambda>r. ret (reply_call (wt_found (bm_waits m ! w)) (wt_lost (bm_waits m ! w)) r)))"
    by (intro keeps_intros)
  with EWait mono_at [OF P] show ?thesis by (simp add: keeps_def)
qed (use P mono_at [OF P] in \<open>auto intro!: keeps_at keeps_intros\<close>)

lemma on_response_keeps:
  assumes P: "P {} m" and i: "map_of (bm_pending m) i = Some (k, e)"
    and r: "on_response fl msg i k e m = (m', r)"
  shows "P {i} m'" "r = Inr u \<Longrightarrow> P {} m'"
proof -
  let ?f = "if json_contains msg ''error'' then
      sbind (lift_res (bind_res (json_index_mut msg ''error'')
         (\<lambda>er. bind_res (json_index_mut er ''message'') get_string))) (run_ekont fl e)
      else sbind (lift_res (json_index_mut msg ''result'')) (run_kont fl k)"
  obtain m1 r1 where f: "?f m = (m1, r1)" by fastforce
  have f1: "P {i} m1"
  proof -
    have "P {i} (fst (sbind (lift_res x) (run_kont fl k) m))" for x
      using run_kont_keeps [OF P i] mono_at [OF P] by (auto simp: sbind_def split: sum.split)
    moreover have "P {i} (fst (sbind (lift_res x) (run_ekont fl e) m))" for x
      using run_ekont_keeps [OF P i] mono_at [OF P] by (auto simp: sbind_def split: sum.split)
    ultimately have "P {i} (fst (?f m))"
      by (cases "json_contains msg ''error''") (simp_all only: if_True if_False)
    then show ?thesis unfolding f by simp
  qed
  have res: "(case r1 of Inl e \<Rightarrow> (m1, Inl e) | Inr c \<Rightarrow>
      sbind (call_user fl c) (\<lambda>_. update (erase_pending i)) m1) = (m', r)"
    using r unfolding on_response_def sbind_eq [of ?f m, OF f] .
  have "P {i} m' \<or> P {} m' \<and> r = Inr ()" "r = Inr u \<Longrightarrow> P {} m'"
    using f1 res call_user_keeps [of "{i}" fl] P_erase [of i]
    by (auto simp: keeps_def sbind_def split: sum.splits prod.splits) (metis fst_conv)+
  then show "P {i} m'" "r = Inr u \<Longrightarrow> P {} m'" using P_mono by blast+
qed

lemma on_protocol_event_keeps [keeps_intros]: "keeps (P X) (on_protocol_event fl msg)"
proof -
  have "P X (remove_event sid meth m)" if "P X m" for sid meth m
    using that by (rule P_core) (simp add: remove_event_def core_def)
  moreover have "keeps (P X) (sbind (lift_res j) (\<lambda>params. call_clo fl cb (VJson params)))" for j cb
    by (intro keeps_intros)
  ultimately have "keeps (P X) (\<lambda>m. case map_of (bm_events m) (event_key sid meth) of
         None \<Rightarrow> (m, Inr ())
       | Some cb \<Rightarrow>
           sbind (lift_res (json_value Inr msg ''params'' (JObject []))) (\<lambda>params. call_clo fl cb (VJson params))
             (remove_event sid meth m))" for sid meth
    by (simp add: keeps_def split: option.split)
  then show ?thesis unfolding on_protocol_event_def by (intro keeps_sbind keeps_basic)
qed

lemma on_ws_message_kept:
  assumes P: "P {} m" and r: "on_ws_message fl s m = (m', r)"
  shows "(\<exists>i. P {i} m') \<and> (r = Inr u \<longrightarrow> P {} m')"
proof -
  have weak: "(\<exists>i. P {i} m') \<and> (r = Inr u \<longrightarrow> P {} m')" if "P {} m'" using that P_mono by blast
  show ?thesis
  proof (cases "json_parse_noexc fl s")
    case None
    with P r weak show ?thesis by (auto simp: on_ws_message_def)
  next
    case (Some msg)
    note msg = this
    show ?thesis
    proof (cases "json_contains msg ''id''")
      case False
      then have "P {} m'"
        using P r msg keepsD [OF on_protocol_event_keeps P] by (auto simp: on_ws_message_def split: if_splits)
      then show ?thesis by (rule weak)
    next
      case True
      show ?thesis
      proof (cases "bind_res (json_index_mut msg ''id'') get_int")
        case (Inl e)
        with True msg P r weak show ?thesis by (simp add: on_ws_message_def)
      next
        case (Inr i)
        show ?thesis
        proof (cases "map_of (bm_pending m) (sint i)")
          case None
          with Inr True msg P r weak show ?thesis by (simp add: on_ws_message_def)
        next
          case (Some ke)
          obtain k e where ke: "ke = (k, e)" by (cases ke)
          with Some Inr True msg r have "on_response fl msg (sint i) k e m = (m', r)"
            by (simp add: on_ws_message_def)
          from on_response_keeps [OF P _ this] Some ke show ?thesis by blast
        qed
      qed
    qed
  qed
qed

lemma send_all_keeps [keeps_intros]: "keeps (P X) (send_all fl js)"
proof (induction js)
  case (Cons j js)
  then show ?case unfolding send_all.simps by (intro keeps_intros) blast
qed (auto intro: keeps_intros)

lemma on_ws_open_keeps: "keeps (P X) (on_ws_open fl)"
proof -
  have put: "keeps (P X) (sbind next_cmd_id (\<lambda>i. sbind (update (put_pending i KNothing ENothing)) (\<lambda>_. send_text fl (j i))))" for j
  proof (rule keepsI)
    fix m
    assume P: "P X m"
    show "P X (fst (sbind next_cmd_id (\<lambda>i. sbind (update (put_pending i KNothing ENothing)) (\<lambda>_. send_text fl (j i))) m))"
    proof (cases "sint (bm_cmd_id m) = 2 ^ 31 - 1")
      case True
      with P show ?thesis by (simp add: sbind_def next_cmd_id_def)
    next
      case False
      have "P X (put_pending (bm_cmd_id m) KNothing ENothing (bump_id m))"
        by (rule P_send [OF P False]) (simp add: plain_entry_def)
      then have "P X (fst (send_text fl j' (put_pending (bm_cmd_id m) KNothing ENothing (bump_id m))))" for j'
        using send_text_keeps by (simp add: keeps_def)
      with False show ?thesis by (simp add: sbind_def next_cmd_id_def bump_id_def)
    qed
  qed
  have clr: "keeps (P X) (update (\<lambda>m. m\<lparr>bm_pending_commands := []\<rparr>))"
    by (rule keeps_update) (simp add: core_def)
  show ?thesis
  proof (rule keepsI)
    fix m
    assume P: "P X m"
    have "P X (m\<lparr>bm_ws_ready := True\<rparr>)" by (rule P_core [OF P]) (simp add: core_def)
    moreover have "keeps (P X) (sbind (send_all fl js) (\<lambda>_. sbind (update (\<lambda>m. m\<lparr>bm_pending_commands := []\<rparr>)) (\<lambda>_.
        sbind next_cmd_id (\<lambda>i. sbind (update (put_pending i KNothing ENothing)) (\<lambda>_. send_text fl (j i))))))" for js j
      by (rule keeps_sbind [OF send_all_keeps keeps_sbind [OF clr put]])
    ultimately show "P X (fst (on_ws_open fl m))" by (simp add: on_ws_open_def keeps_def)
  qed
qed

lemma run_task_kept:
  assumes P: "P {} m" and r: "run_task fl t m = (m', r)"
  shows "(\<exists>i. P {i} m') \<and> (r = Inr u \<longrightarrow> P {} m')"
proof (cases t)
  case TOpen
  with r P_mono keepsD [OF on_ws_open_keeps P] show ?thesis by (metis run_task.simps(1))
next
  case (TMessage s)
  with r on_ws_message_kept [OF P] show ?thesis by simp
next
  case (TCheck w)
  have "keeps (P {}) (\<lambda>m. call_user fl (reply_call (wt_found (bm_waits m ! w)) (wt_lost (bm_waits m ! w)) x) m)" for x
    using call_user_keeps by (simp add: keeps_def)
  then have "keeps (P {}) (run_task fl t)" unfolding TCheck run_task.simps by (intro keeps_intros)
  with r P P_mono show ?thesis by (metis keepsD)
qed

end

lemma sint_plus_one:
  fixes w :: int32
  assumes "sint w \<noteq> 2 ^ 31 - 1"
  shows "sint (w + 1) = sint w + 1"
proof -
  have "- (2 ^ 31) \<le> sint w" "sint w < 2 ^ 31" using sint_range_size [of w] by (simp_all add: size_word.rep_eq)
  with assms have "- (2 ^ 31) \<le> sint w + 1" "sint w + 1 < 2 ^ 31" by simp_all
  then have "signed_take_bit 31 (sint w + 1) = sint w + 1" by (rule signed_take_bit_int_eq_self)
  then show ?thesis by (simp add: sint_word_ariths)
qed

lemma destroy_fields [simp]:
  "bm_caught (fst (destroy_context h m)) = bm_caught m"
  "bm_pending (fst (destroy_context h m)) = bm_pending m"
  "bm_cmd_id (fst (destroy_context h m)) = bm_cmd_id m"
  "bm_contexts (fst (destroy_context h m)) = bm_contexts m"
  by (simp_all add: destroy_context_def split: option.split)

lemma destroy_all_frame:
  "(\<lambda>m. (bm_caught m, bm_pending m, bm_cmd_id m, bm_contexts m)) (fst (destroy_all hs m)) =
   (bm_caught m, bm_pending m, bm_cmd_id m, bm_contexts m)"
proof (induction hs arbitrary: m)
  case (Cons h hs)
  obtain m1 r where d: "destroy_context h m = (m1, r)" by fastforce
  with destroy_fields [of h m] Cons.IH [of m1] show ?case
    by (auto simp: sbind_def split: sum.split)
qed simp

lemma destroy_all_fields [simp]:
  "bm_caught (fst (destroy_all hs m)) = bm_caught m"
  "bm_pending (fst (destroy_all hs m)) = bm_pending m"
  "bm_cmd_id (fst (destroy_all hs m)) = bm_cmd_id m"
  "bm_contexts (fst (destroy_all hs m)) = bm_contexts m"
  using destroy_all_frame [of hs m] by simp_all

lemma remove_reset_clear_fields [simp]:
  "bm_caught (fst (remove_context p m)) = bm_caught m"
  "bm_pending (fst (remove_context p m)) = bm_pending m"
  "bm_cmd_id (fst (remove_context p m)) = bm_cmd_id m"
  "bm_caught (fst (reset_context p h m)) = bm_caught m"
  "bm_pending (fst (reset_context p h m)) = bm_pending m"
  "bm_cmd_id (fst (reset_context p h m)) = bm_cmd_id m"
  "bm_caught (fst (clear_contexts m)) = bm_caught m"
  "bm_pending (fst (clear_contexts m)) = bm_pending m"
  "bm_cmd_id (fst (clear_contexts m)) = bm_cmd_id m"
  by (simp_all add: remove_context_def reset_context_def clear_contexts_def Let_def split: option.split)

text \<open>Only \<open>catching\<close> swallows an exception.\<close>

interpretation caught: manager_property "\<lambda>X m. bm_caught m = c" for c
  by unfold_locales
     (auto simp: core_def bump_id_def put_pending_def alloc_context_def set_context_def set_wait_done_def erase_pending_def)

text \<open>An id that was given out and is not pending any more.\<close>

definition settled :: "int \<Rightarrow> manager \<Rightarrow> bool" where
  "settled i m \<longleftrightarrow> i < sint (bm_cmd_id m) \<and> map_of (bm_pending m) i = None"

interpretation settled: manager_property "\<lambda>X. settled i" for i
  by unfold_locales
     (auto simp: settled_def core_def bump_id_def put_pending_def alloc_context_def set_context_def
       set_wait_done_def erase_pending_def sint_plus_one)

end
