(* ===== verification/Cdp_Invariant.thy ===== *)
theory Cdp_Invariant
  imports Cdp_Safety
begin

text \<open>
  The memory invariant of the browser contexts: a cached context is alive and belongs to the platform
  it is cached for, a context that waits for its init script is alive, not cached, and owned by one
  pending command, and the guard of a timer is set only while its context is alive. \<open>X\<close> is the id of
  the response that is being handled, whose entry is not erased yet.
\<close>

definition live :: "manager \<Rightarrow> nat \<Rightarrow> string \<Rightarrow> bool" where
  "live m h p \<longleftrightarrow> (\<exists>c. map_of (bm_heap m) h = Some c \<and> bc_platform c = p)"

definition pend_ok :: "manager \<Rightarrow> kont \<Rightarrow> ekont \<Rightarrow> bool" where
  "pend_ok m k e \<longleftrightarrow>
     (\<forall>p h g. k = KInit p h g \<longrightarrow> e = EDrop h \<and> live m h p \<and> (\<forall>q. map_of (bm_contexts m) q \<noteq> Some h)) \<and>
     (\<forall>h. e = EDrop h \<longrightarrow> (\<exists>p g. k = KInit p h g))"

definition guards_ok :: "manager \<Rightarrow> bool" where
  "guards_ok m \<longleftrightarrow> (\<forall>g < length (bm_guards m). bm_guards m ! g \<longrightarrow>
     (\<exists>h c. map_of (bm_heap m) h = Some c \<and> g \<in> set (bc_guards c)))"

definition bm_inv :: "int set \<Rightarrow> manager \<Rightarrow> bool" where
  "bm_inv X m \<longleftrightarrow>
     msorted (bm_contexts m) \<and>
     (\<forall>h c. map_of (bm_heap m) h = Some c \<longrightarrow> h < bm_next m) \<and>
     (\<forall>i ke. map_of (bm_pending m) i = Some ke \<longrightarrow> i < sint (bm_cmd_id m)) \<and>
     (\<forall>p h. map_of (bm_contexts m) p = Some h \<longrightarrow> live m h p) \<and>
     (\<forall>i k e. map_of (bm_pending m) i = Some (k, e) \<longrightarrow> i \<notin> X \<longrightarrow> pend_ok m k e) \<and>
     (\<forall>i j p h g e q g' e'. map_of (bm_pending m) i = Some (KInit p h g, e) \<longrightarrow>
        map_of (bm_pending m) j = Some (KInit q h g', e') \<longrightarrow> i \<notin> X \<longrightarrow> j \<notin> X \<longrightarrow> i = j) \<and>
     guards_ok m"

lemma bm_invD:
  assumes "bm_inv X m"
  shows "msorted (bm_contexts m)"
    "map_of (bm_heap m) h = Some c \<Longrightarrow> h < bm_next m"
    "map_of (bm_pending m) i = Some ke \<Longrightarrow> i < sint (bm_cmd_id m)"
    "map_of (bm_contexts m) p = Some h \<Longrightarrow> live m h p"
    "map_of (bm_pending m) i = Some (k, e) \<Longrightarrow> i \<notin> X \<Longrightarrow> pend_ok m k e"
    "map_of (bm_pending m) i = Some (KInit p h g, e) \<Longrightarrow> map_of (bm_pending m) j = Some (KInit q h g', e') \<Longrightarrow>
       i \<notin> X \<Longrightarrow> j \<notin> X \<Longrightarrow> i = j"
    "guards_ok m"
  using assms unfolding bm_inv_def by blast+

lemma bm_inv_core:
  assumes "bm_inv X m" "core m' = core m"
  shows "bm_inv X m'"
proof -
  from assms(2) have "bm_pending m' = bm_pending m" "bm_cmd_id m' = bm_cmd_id m" "bm_contexts m' = bm_contexts m"
    "bm_heap m' = bm_heap m" "bm_next m' = bm_next m" "bm_guards m' = bm_guards m"
    by (simp_all add: core_def)
  note eqs = this
  show ?thesis
    using assms(1) unfolding bm_inv_def pend_ok_def live_def guards_ok_def eqs .
qed

text \<open>The waits for selectors do not matter.\<close>

lemma bm_inv_waits: "bm_inv X m \<Longrightarrow> bm_inv X (m\<lparr>bm_waits := ws\<rparr>)"
  by (simp add: bm_inv_def pend_ok_def live_def guards_ok_def)

lemma bm_inv_over: "bm_inv X m \<Longrightarrow> bm_inv X (set_wait_done w m)"
  by (simp add: set_wait_done_def bm_inv_waits)

lemma pend_okD:
  assumes "pend_ok m (KInit p h g) e"
  shows "e = EDrop h" "live m h p" "map_of (bm_contexts m) q \<noteq> Some h"
  using assms unfolding pend_ok_def by blast+

lemma pend_ok_grow:
  assumes ok: "pend_ok m k e" and live: "\<And>h p. live m h p \<Longrightarrow> live m' h p"
    and eq: "bm_contexts m' = bm_contexts m"
  shows "pend_ok m' k e"
  unfolding pend_ok_def eq
proof (intro conjI allI impI)
  fix p h g
  assume k: "k = KInit p h g"
  note D = pend_okD [OF ok [unfolded k]]
  from D(1) show "e = EDrop h" .
  from live [OF D(2)] show "live m' h p" .
  fix q
  from D(3) show "map_of (bm_contexts m) q \<noteq> Some h" .
next
  fix h
  assume "e = EDrop h"
  with ok show "\<exists>p g. k = KInit p h g" unfolding pend_ok_def by blast
qed

lemma bm_inv_grow:
  assumes inv: "bm_inv X m" and live: "\<And>h p. live m h p \<Longrightarrow> live m' h p"
    and eqs: "bm_contexts m' = bm_contexts m" "bm_pending m' = bm_pending m" and ids: "sint (bm_cmd_id m) \<le> sint (bm_cmd_id m')"
    and bound: "\<And>h c. map_of (bm_heap m') h = Some c \<Longrightarrow> h < bm_next m'" and guards: "guards_ok m'"
  shows "bm_inv X m'"
  unfolding bm_inv_def eqs
proof (intro conjI allI impI)
  fix i k e
  assume "map_of (bm_pending m) i = Some (k, e)" "i \<notin> X"
  from pend_ok_grow [OF bm_invD(5) [OF inv this] live eqs(1)] show "pend_ok m' k e" .
next
  fix i j p h g e q g' e'
  assume "map_of (bm_pending m) i = Some (KInit p h g, e)" "map_of (bm_pending m) j = Some (KInit q h g', e')"
    "i \<notin> X" "j \<notin> X"
  then show "i = j" using bm_invD(6) [OF inv, of i p h g e j q g' e'] by simp
next
  show "msorted (bm_contexts m)" "guards_ok m'" by (rule bm_invD(1) [OF inv], rule guards)
  show "map_of (bm_heap m') h = Some c \<Longrightarrow> h < bm_next m'" for h c by (rule bound)
  show "map_of (bm_pending m) i = Some ke \<Longrightarrow> i < sint (bm_cmd_id m')" for i ke
    using bm_invD(3) [OF inv, of i ke] ids by simp
  show "map_of (bm_contexts m) p = Some h \<Longrightarrow> live m' h p" for p h by (rule live [OF bm_invD(4) [OF inv]])
qed

lemma bm_inv_mono:
  assumes inv: "bm_inv X m" and "X \<subseteq> Y"
  shows "bm_inv Y m"
  unfolding bm_inv_def
proof (intro conjI allI impI)
  fix i k e
  assume "map_of (bm_pending m) i = Some (k, e)" "i \<notin> Y"
  with assms show "pend_ok m k e" using bm_invD(5) [OF inv, of i k e] by blast
next
  fix i j p h g e q g' e'
  assume "map_of (bm_pending m) i = Some (KInit p h g, e)" "map_of (bm_pending m) j = Some (KInit q h g', e')"
    "i \<notin> Y" "j \<notin> Y"
  then show "i = j" using bm_invD(6) [OF inv, of i p h g e j q g' e'] \<open>X \<subseteq> Y\<close> by blast
qed (use bm_invD(1-4,7) [OF inv] in simp_all)

lemma bm_inv_new: "bm_inv X (new_manager c f)"
  by (simp add: bm_inv_def new_manager_def guards_ok_def)

lemma bm_inv_erase: "bm_inv {i} m \<Longrightarrow> bm_inv {} (erase_pending i m)"
  unfolding bm_inv_def pend_ok_def live_def guards_ok_def erase_pending_def
  by (simp split: if_splits)

text \<open>A new entry has an id that was not given out yet.\<close>

lemma bm_inv_put:
  assumes inv: "bm_inv X m" and id: "sint (bm_cmd_id m) \<noteq> 2 ^ 31 - 1"
    and ok: "pend_ok m k e"
    and own: "\<And>p h g i q g' e'. k = KInit p h g \<Longrightarrow> i \<notin> X \<Longrightarrow> map_of (bm_pending m) i \<noteq> Some (KInit q h g', e')"
  shows "bm_inv X (put_pending (bm_cmd_id m) k e (bump_id m))"
proof -
  let ?m = "put_pending (bm_cmd_id m) k e (bump_id m)"
  have fields: "bm_heap ?m = bm_heap m" "bm_contexts ?m = bm_contexts m" "bm_guards ?m = bm_guards m"
    "bm_next ?m = bm_next m" "sint (bm_cmd_id ?m) = sint (bm_cmd_id m) + 1"
    "map_of (bm_pending ?m) = (map_of (bm_pending m))(sint (bm_cmd_id m) \<mapsto> (k, e))"
    by (simp_all add: put_pending_def bump_id_def sint_plus_one [OF id])
  have l: "live ?m = live m" "guards_ok ?m = guards_ok m" "pend_ok ?m = pend_ok m"
    by (simp_all add: fun_eq_iff live_def guards_ok_def pend_ok_def fields)
  have fresh: "map_of (bm_pending m) (sint (bm_cmd_id m)) = None"
    using bm_invD(3) [OF inv, of "sint (bm_cmd_id m)"] by (cases "map_of (bm_pending m) (sint (bm_cmd_id m))") auto
  show ?thesis
    unfolding bm_inv_def fields l
  proof (intro conjI allI impI)
    fix i ke
    assume "((map_of (bm_pending m))(sint (bm_cmd_id m) \<mapsto> (k, e))) i = Some ke"
    then show "i < sint (bm_cmd_id m) + 1" using bm_invD(3) [OF inv, of i] by (fastforce split: if_splits)
  next
    fix i k' e'
    assume "((map_of (bm_pending m))(sint (bm_cmd_id m) \<mapsto> (k, e))) i = Some (k', e')" "i \<notin> X"
    then show "pend_ok m k' e'" using bm_invD(5) [OF inv, of i] ok by (auto split: if_splits)
  next
    fix i j p h g e1 q g' e2
    assume "((map_of (bm_pending m))(sint (bm_cmd_id m) \<mapsto> (k, e))) i = Some (KInit p h g, e1)"
      "((map_of (bm_pending m))(sint (bm_cmd_id m) \<mapsto> (k, e))) j = Some (KInit q h g', e2)" "i \<notin> X" "j \<notin> X"
    then show "i = j"
      using bm_invD(6) [OF inv, of i p h g e1 j q g' e2] own [of p h g j q g' e2] own [of q h g' i p g e1]
      by (auto split: if_splits)
  qed (use bm_invD [OF inv] in \<open>auto\<close>)
qed

lemma bm_inv_send:
  assumes "bm_inv X m" "sint (bm_cmd_id m) \<noteq> 2 ^ 31 - 1" "plain_entry k e"
  shows "bm_inv X (put_pending (bm_cmd_id m) k e (bump_id m))"
  using assms by (intro bm_inv_put) (auto simp: plain_entry_def pend_ok_def)

lemma alloc_live:
  assumes "bm_inv X m" "live m h p"
  shows "live (fst (alloc_context q t s m)) h p"
  using assms bm_invD(2) [OF assms(1), of h] by (auto simp: live_def alloc_context_def)

lemma bm_inv_alloc: "bm_inv X m \<Longrightarrow> bm_inv X (fst (alloc_context q t s m))"
proof (rule bm_inv_grow)
  assume inv: "bm_inv X m"
  let ?m = "fst (alloc_context q t s m)"
  show "live m h p \<Longrightarrow> live ?m h p" for h p by (rule alloc_live [OF inv])
  show "map_of (bm_heap ?m) h = Some c \<Longrightarrow> h < bm_next ?m" for h c
    using bm_invD(2) [OF inv, of h c] by (auto simp: alloc_context_def split: if_splits)
  have old: "map_of (bm_heap ?m) h = Some c" if "map_of (bm_heap m) h = Some c" for h c
    using that bm_invD(2) [OF inv, of h c] by (auto simp: alloc_context_def)
  have "bm_guards ?m = bm_guards m" by (simp add: alloc_context_def)
  with bm_invD(7) [OF inv] old show "guards_ok ?m" unfolding guards_ok_def by metis
qed (simp_all add: alloc_context_def)

lemma bm_inv_init:
  assumes inv: "bm_inv X m" and id: "sint (bm_cmd_id m) \<noteq> 2 ^ 31 - 1"
  shows "bm_inv X (put_pending (bm_cmd_id m) (KInit p (bm_next m) g) (EDrop (bm_next m))
            (bump_id (fst (alloc_context p t s m))))"
proof -
  let ?a = "fst (alloc_context p t s m)"
  have a: "bm_pending ?a = bm_pending m" "bm_contexts ?a = bm_contexts m" "bm_cmd_id ?a = bm_cmd_id m"
    "map_of (bm_heap ?a) (bm_next m) = Some (new_context p t s)"
    by (simp_all add: alloc_context_def)
  have old: "h < bm_next m" if "live m h q" for h q
    using that bm_invD(2) [OF inv, of h] by (auto simp: live_def)
  have nc: "map_of (bm_contexts m) q \<noteq> Some (bm_next m)" for q
    using bm_invD(4) [OF inv, of q "bm_next m"] old by blast
  have "pend_ok ?a (KInit p (bm_next m) g) (EDrop (bm_next m))"
    using nc a by (auto simp: pend_ok_def live_def new_context_def)
  moreover have "map_of (bm_pending m) i \<noteq> Some (KInit q (bm_next m) g', e')" if "i \<notin> X" for i q g' e'
    using bm_invD(5) [OF inv, of i "KInit q (bm_next m) g'" e'] that old by (auto simp: pend_ok_def)
  ultimately have "bm_inv X (put_pending (bm_cmd_id ?a) (KInit p (bm_next m) g) (EDrop (bm_next m)) (bump_id ?a))"
    using id a by (intro bm_inv_put [OF bm_inv_alloc [OF inv]]) auto
  then show ?thesis using a by simp
qed

text \<open>Destroying a context that is neither cached nor waiting.\<close>

lemma bm_inv_destroy:
  assumes inv: "bm_inv X m" and nc: "\<And>p. map_of (bm_contexts m) p \<noteq> Some h"
    and np: "\<And>i p g e. i \<notin> X \<Longrightarrow> map_of (bm_pending m) i \<noteq> Some (KInit p h g, e)"
  shows "bm_inv X (fst (destroy_context h m))"
proof (cases "map_of (bm_heap m) h")
  case None
  with inv show ?thesis by (simp add: destroy_context_def)
next
  case (Some c)
  let ?m = "fst (destroy_context h m)"
  have fields: "map_of (bm_heap ?m) = (map_of (bm_heap m))(h := None)" "bm_next ?m = bm_next m"
    "bm_guards ?m = foldl (\<lambda>g i. g[i := False]) (bm_guards m) (bc_guards c)"
    using Some by (simp_all add: destroy_context_def)
  have live: "live ?m h' p \<longleftrightarrow> h' \<noteq> h \<and> live m h' p" for h' p by (simp add: live_def fields)
  have len: "length (foldl (\<lambda>g i. g[i := False]) gs js) = length gs" for gs and js :: "nat list"
    by (induction js arbitrary: gs) auto
  have nth: "foldl (\<lambda>g i. g[i := False]) gs js ! j \<longleftrightarrow> gs ! j \<and> j \<notin> set js" if "j < length gs" for gs j and js :: "nat list"
    using that
  proof (induction js arbitrary: gs)
    case (Cons i js)
    then show ?case using Cons.IH [of "gs[i := False]"] by (cases "i = j") auto
  qed simp
  have "guards_ok ?m"
    unfolding guards_ok_def fields len
  proof (intro allI impI)
    fix g
    assume g: "g < length (bm_guards m)" "foldl (\<lambda>g i. g[i := False]) (bm_guards m) (bc_guards c) ! g"
    with nth [OF g(1)] have "bm_guards m ! g" "g \<notin> set (bc_guards c)" by auto
    with bm_invD(7) [OF inv] g(1) obtain h' c' where "map_of (bm_heap m) h' = Some c'" "g \<in> set (bc_guards c')"
      unfolding guards_ok_def by blast
    with \<open>g \<notin> set (bc_guards c)\<close> Some show "\<exists>h' c'. ((map_of (bm_heap m))(h := None)) h' = Some c' \<and> g \<in> set (bc_guards c')"
      by (intro exI [of _ h'] exI [of _ c']) auto
  qed
  moreover have "pend_ok ?m k e" if "map_of (bm_pending m) i = Some (k, e)" "i \<notin> X" for i k e
    using bm_invD(5) [OF inv that] np that by (auto simp: pend_ok_def live)
  moreover have "live ?m h' p" if "map_of (bm_contexts m) p = Some h'" for h' p
    using bm_invD(4) [OF inv that] nc [of p] that by (auto simp: live)
  ultimately show ?thesis
    using bm_invD(1,2,3,6) [OF inv] unfolding bm_inv_def
    by (simp add: fields) blast
qed

lemma bm_inv_id: "bm_inv X m \<Longrightarrow> sint (bm_cmd_id m) \<noteq> 2 ^ 31 - 1 \<Longrightarrow> bm_inv X (bump_id m)"
  by (rule bm_inv_grow [of X m])
     (auto simp: bump_id_def sint_plus_one live_def guards_ok_def dest: bm_invD(2,7))

lemma guards_grow:
  assumes "guards_ok m" "\<And>h c. map_of (bm_heap m) h = Some c \<Longrightarrow>
      \<exists>c'. map_of (bm_heap m') h = Some c' \<and> set (bc_guards c) \<subseteq> set (bc_guards c')"
    and "\<And>g. g < length (bm_guards m') \<Longrightarrow> bm_guards m' ! g \<Longrightarrow>
      g < length (bm_guards m) \<and> bm_guards m ! g \<or> (\<exists>h c. map_of (bm_heap m') h = Some c \<and> g \<in> set (bc_guards c))"
  shows "guards_ok m'"
  unfolding guards_ok_def
proof (intro allI impI)
  fix g
  assume "g < length (bm_guards m')" "bm_guards m' ! g"
  from assms(3) [OF this] show "\<exists>h c. map_of (bm_heap m') h = Some c \<and> g \<in> set (bc_guards c)"
  proof
    assume "g < length (bm_guards m) \<and> bm_guards m ! g"
    with assms(1) obtain h c where "map_of (bm_heap m) h = Some c" "g \<in> set (bc_guards c)"
      unfolding guards_ok_def by blast
    with assms(2) [of h c] show ?thesis by blast
  qed
qed

lemma bm_inv_context:
  assumes inv: "bm_inv X m" and h: "map_of (bm_heap m) h = Some c"
    and c': "bc_platform c' = bc_platform c" "bc_guards c' = bc_guards c"
  shows "bm_inv X (set_context h c' m)"
proof (rule bm_inv_grow [OF inv])
  show "live m k p \<Longrightarrow> live (set_context h c' m) k p" for k p
    using h c' by (auto simp: live_def set_context_def)
  show "map_of (bm_heap (set_context h c' m)) k = Some d \<Longrightarrow> k < bm_next (set_context h c' m)" for k d
    using bm_invD(2) [OF inv, of k] h by (auto simp: set_context_def split: if_splits)
  show "guards_ok (set_context h c' m)"
    using h c' by (intro guards_grow [OF bm_invD(7) [OF inv]]) (auto simp: set_context_def)
qed (simp_all add: set_context_def)

lemma bm_inv_after:
  assumes inv: "bm_inv X m" and h: "map_of (bm_heap m) h = Some c"
  shows "bm_inv X (set_context h (c\<lparr>bc_guards := bc_guards c @ [length (bm_guards m)]\<rparr>)
            (m\<lparr>bm_guards := bm_guards m @ [True]\<rparr>))" (is "bm_inv X ?m")
proof (rule bm_inv_grow [OF inv])
  show "live m k p \<Longrightarrow> live ?m k p" for k p using h by (auto simp: live_def set_context_def)
  show "map_of (bm_heap ?m) k = Some d \<Longrightarrow> k < bm_next ?m" for k d
    using bm_invD(2) [OF inv, of k] h by (auto simp: set_context_def split: if_splits)
  have new: "map_of (bm_heap ?m) h = Some (c\<lparr>bc_guards := bc_guards c @ [length (bm_guards m)]\<rparr>)"
    by (simp add: set_context_def)
  show "guards_ok ?m"
  proof (rule guards_grow [OF bm_invD(7) [OF inv]])
    fix g
    assume g: "g < length (bm_guards ?m)" "bm_guards ?m ! g"
    show "g < length (bm_guards m) \<and> bm_guards m ! g \<or> (\<exists>h c. map_of (bm_heap ?m) h = Some c \<and> g \<in> set (bc_guards c))"
    proof (cases "g < length (bm_guards m)")
      case True
      with g show ?thesis by (auto simp: set_context_def nth_append)
    next
      case False
      with g have "g = length (bm_guards m)" by (simp add: set_context_def)
      with new show ?thesis by (intro disjI2 exI [of _ h]) simp
    qed
  qed (use h in \<open>auto simp: set_context_def\<close>)
qed (simp_all add: set_context_def)

lemma live_unique: "live m h p \<Longrightarrow> live m h q \<Longrightarrow> p = q"
  by (auto simp: live_def)

text \<open>Changing the cache.\<close>

lemma bm_inv_contexts:
  assumes inv: "bm_inv X m" and sorted: "msorted cs"
    and cached: "\<And>p h. map_of cs p = Some h \<Longrightarrow> live m h p"
    and pend: "\<And>i p h g e q. map_of (bm_pending m) i = Some (KInit p h g, e) \<Longrightarrow> i \<notin> X \<Longrightarrow> map_of cs q \<noteq> Some h"
  shows "bm_inv X (m\<lparr>bm_contexts := cs\<rparr>)" (is "bm_inv X ?m")
proof -
  have l: "live ?m = live m" "guards_ok ?m = guards_ok m" by (simp_all add: fun_eq_iff live_def guards_ok_def)
  have "pend_ok ?m k e" if "map_of (bm_pending m) i = Some (k, e)" "i \<notin> X" for i k e
    unfolding pend_ok_def l
  proof (intro conjI allI impI)
    fix p h g
    assume k: "k = KInit p h g"
    note D = pend_okD [OF bm_invD(5) [OF inv that(1) [unfolded k] that(2)]]
    show "e = EDrop h" "live m h p" by (fact D)+
    show "map_of (bm_contexts ?m) q \<noteq> Some h" for q using pend [OF that(1) [unfolded k] that(2)] by simp
  next
    fix h
    assume "e = EDrop h"
    with bm_invD(5) [OF inv that] show "\<exists>p g. k = KInit p h g" unfolding pend_ok_def by blast
  qed
  moreover have "i = j" if "map_of (bm_pending m) i = Some (KInit p h g, e)"
    "map_of (bm_pending m) j = Some (KInit q h g', e')" "i \<notin> X" "j \<notin> X" for i j p h g e q g' e'
    using bm_invD(6) [OF inv that] .
  ultimately show ?thesis
    unfolding bm_inv_def l using sorted cached bm_invD(2,3,7) [OF inv]
    by (intro conjI allI impI) simp_all
qed

lemma bm_inv_remove:
  assumes inv: "bm_inv X m"
  shows "bm_inv X (fst (remove_context p m))"
proof (cases "map_of (bm_contexts m) p")
  case None
  with inv show ?thesis by (simp add: remove_context_def)
next
  case (Some h)
  let ?m = "m\<lparr>bm_contexts := merase p (bm_contexts m)\<rparr>"
  have pend: "map_of (bm_contexts m) q \<noteq> Some h'" if "map_of (bm_pending m) i = Some (KInit r h' g, e)" "i \<notin> X"
    for i q r h' g e using pend_okD(3) [OF bm_invD(5) [OF inv that]] .
  have "bm_inv X ?m"
    using bm_invD(1,4) [OF inv] pend by (intro bm_inv_contexts [OF inv]) (auto split: if_splits)
  moreover have "map_of (bm_contexts ?m) q \<noteq> Some h" for q
    using live_unique [OF bm_invD(4) [OF inv Some] bm_invD(4) [OF inv], of q] by auto
  moreover have "map_of (bm_pending ?m) i \<noteq> Some (KInit r h g, e)" if "i \<notin> X" for i r g e
    using pend [of i r h g e p] that Some by auto
  ultimately have "bm_inv X (fst (destroy_context h ?m))" by (intro bm_inv_destroy)
  with Some show ?thesis by (simp add: remove_context_def)
qed

lemma bm_inv_clear:
  assumes inv: "bm_inv {} m"
  shows "bm_inv {} (fst (clear_contexts m))"
proof -
  have all: "bm_inv {} (fst (destroy_all hs m'))"
    if "bm_inv {} m'" "bm_contexts m' = []"
      "\<And>h i p g e. h \<in> set hs \<Longrightarrow> map_of (bm_pending m') i \<noteq> Some (KInit p h g, e)" for hs m'
    using that
  proof (induction hs arbitrary: m')
    case (Cons h hs)
    obtain m1 r where d: "destroy_context h m' = (m1, r)" by fastforce
    have "bm_inv {} m1"
      using bm_inv_destroy [OF Cons.prems(1), of h] Cons.prems(2,3) d by (metis fst_conv list.set_intros(1) map_of.simps(1) option.distinct(1))
    moreover have "bm_contexts m1 = []" "bm_pending m1 = bm_pending m'"
      using destroy_fields [of h m'] d Cons.prems(2) by simp_all
    ultimately show ?case
      using Cons.IH [of m1] Cons.prems(3) d by (auto simp: sbind_def split: sum.split)
  qed simp
  have "bm_inv {} (m\<lparr>bm_contexts := []\<rparr>)" by (rule bm_inv_contexts [OF inv]) auto
  moreover have "map_of (bm_pending m) i \<noteq> Some (KInit p h g, e)" if "h \<in> snd ` set (bm_contexts m)" for h i p g e
  proof
    assume pe: "map_of (bm_pending m) i = Some (KInit p h g, e)"
    from that obtain q where "(q, h) \<in> set (bm_contexts m)" by auto
    then have "map_of (bm_contexts m) q = Some h" using bm_invD(1) [OF inv] by (simp add: map_of_Some_iff_set)
    with pend_okD(3) [OF bm_invD(5) [OF inv pe]] show False by auto
  qed
  ultimately show ?thesis unfolding clear_contexts_def by (intro all) auto
qed

lemma bm_inv_cache:
  assumes inv: "bm_inv {} m" and i: "map_of (bm_pending m) i = Some (KInit p h g, e)"
  shows "bm_inv {i} (fst (reset_context p h m))"
proof -
  let ?m = "m\<lparr>bm_contexts := mput p h (bm_contexts m)\<rparr>"
  note ok = pend_okD [OF bm_invD(5) [OF inv i]]
  have other: "map_of (bm_contexts m) q \<noteq> Some h'" if "map_of (bm_pending m) j = Some (KInit r h' g', e')" for j q r h' g' e'
    using pend_okD(3) [OF bm_invD(5) [OF inv that]] by simp
  have "h' \<noteq> h" if "map_of (bm_pending m) j = Some (KInit r h' g', e')" "j \<notin> {i}" for j r h' g' e'
    using bm_invD(6) [OF inv i, of j r g' e'] that by auto
  note diff = this
  have inv1: "bm_inv {i} ?m"
  proof (rule bm_inv_contexts [OF bm_inv_mono [OF inv]])
    show "live m h' q" if "map_of (mput p h (bm_contexts m)) q = Some h'" for q h'
      using that bm_invD(4) [OF inv] ok(2) by (auto split: if_splits)
    show "map_of (mput p h (bm_contexts m)) q \<noteq> Some h'"
      if "map_of (bm_pending m) j = Some (KInit r h' g', e')" "j \<notin> {i}" for j r h' g' e' q
      using other [OF that(1)] diff [OF that] by (auto split: if_splits)
  qed (use bm_invD(1) [OF inv] in auto)
  show ?thesis
  proof (cases "map_of (bm_contexts m) p")
    case None
    with inv1 show ?thesis by (simp add: reset_context_def)
  next
    case (Some old)
    have "map_of (bm_contexts ?m) q \<noteq> Some old" for q
      using live_unique [OF bm_invD(4) [OF inv Some] bm_invD(4) [OF inv], of q] ok(3) [of p] Some by auto
    moreover have "map_of (bm_pending ?m) j \<noteq> Some (KInit r old g', e')" for j r g' e'
      using other [of j r old g' e' p] Some by auto
    ultimately have "bm_inv {i} (fst (destroy_context old ?m))" by (intro bm_inv_destroy [OF inv1])
    with Some show ?thesis by (simp add: reset_context_def)
  qed
qed

lemma bm_inv_drop:
  assumes inv: "bm_inv {} m" and i: "map_of (bm_pending m) i = Some (k, EDrop h)"
  shows "bm_inv {i} (fst (destroy_context h m))"
proof (rule bm_inv_destroy)
  from bm_invD(5) [OF inv i] obtain p g where k: "k = KInit p h g" by (auto simp: pend_ok_def)
  note ok = pend_okD [OF bm_invD(5) [OF inv i [unfolded k]]]
  show "map_of (bm_contexts m) q \<noteq> Some h" for q using ok(3) by simp
  show "map_of (bm_pending m) j \<noteq> Some (KInit q h g', e')" if "j \<notin> {i}" for j q g' e'
    using bm_invD(6) [OF inv i [unfolded k], of j q g' e'] that by auto
  show "bm_inv {i} m" by (rule bm_inv_mono [OF inv]) simp
qed

interpretation inv: manager_property bm_inv
  by unfold_locales
     (blast intro: bm_inv_core bm_inv_mono bm_inv_id bm_inv_send bm_inv_alloc bm_inv_init bm_inv_context
       bm_inv_after bm_inv_remove bm_inv_clear bm_inv_cache bm_inv_drop bm_inv_erase bm_inv_waits bm_inv_over)+

end
