(* ===== verification/Cdp_Runs.thy ===== *)
theory Cdp_Runs
  imports Cdp_Invariant
begin

text \<open>
  Runs of the browser manager: what its client does (start, stop, calls), what the WebSocket library
  and the worker thread report, turns of the loop and timers, in any order. The lemmas of
  \<open>manager_property\<close> are extended to runs.
\<close>

datatype bm_event =
    BeStart
  | BeStop
  | BeCalls "act list"
  | BeWs ws_event
  | BeLaunch os_oracle
  | BeStep
  | BeTimer nat
  | BeClock nat
  | BeHealth bool

text \<open>An exception that a call of the client throws is the client's; the manager is as it was then.\<close>

fun bm_do :: "float_io \<Rightarrow> bm_event \<Rightarrow> unit action" where
  "bm_do fl BeStart m = (bm_start m, Inr ())"
| "bm_do fl BeStop m = bm_stop m"
| "bm_do fl (BeCalls acts) m =
     (case client_calls fl acts m of
        (m1, Inl e) \<Rightarrow> if e = Undefined then (m1, Inl e) else (m1, Inr ())
      | (m1, Inr u) \<Rightarrow> (m1, Inr ()))"
| "bm_do fl (BeWs e) m = (on_ws_event e m, Inr ())"
| "bm_do fl (BeLaunch os) m = (run_launch os m, Inr ())"
| "bm_do fl BeStep m = bm_step fl m"
| "bm_do fl (BeTimer i) m = fire_timer fl i m"
| "bm_do fl (BeClock d) m = (m\<lparr>bm_now := bm_now m + d\<rparr>, Inr ())"
| "bm_do fl (BeHealth alive) m = (fst (bm_health_check alive m), Inr ())"

fun bm_run :: "float_io \<Rightarrow> bm_event list \<Rightarrow> unit action" where
  "bm_run fl [] = ret ()"
| "bm_run fl (ev # evs) = sbind (bm_do fl ev) (\<lambda>_. bm_run fl evs)"

lemma bm_run_append: "bm_run fl (as @ bs) m = sbind (bm_run fl as) (\<lambda>_. bm_run fl bs) m"
  by (induction as arbitrary: m) (auto simp: sbind_def split: prod.splits sum.splits)

lemma core_launch_done: "core (launch_done ls m) = core m"
  by (simp add: launch_done_def core_def)

lemma core_launches_done: "core (launches_done m) = core m"
proof -
  have "core (foldl (\<lambda>m ls. launch_done ls m) m' lss) = core m'" for m' lss
    by (induction lss arbitrary: m') (auto simp: core_launch_done)
  then show ?thesis by (simp add: launches_done_def) (simp add: core_def)
qed

lemma core_run_launch: "core (run_launch os m) = core m"
  by (simp add: run_launch_def core_def split: prod.split)

lemma core_ws_event: "core (on_ws_event e m) = core m"
  by (simp add: on_ws_event_def post_task_def core_def split: ws_event.split)

lemma core_start: "core (bm_start m) = core m"
  by (simp add: bm_start_def kill_chrome_def core_def)

lemma core_health: "core (fst (bm_health_check alive m)) = core m"
  by (simp add: bm_health_check_def core_def)

text \<open>The part of \<open>stop\<close> after the contexts are gone.\<close>

lemma core_stop_tail:
  "core ((launches_done ((kill_chrome (m\<lparr>bm_ws_started := False\<rparr>))
     \<lparr>bm_timers := [], bm_sched := False, bm_wake := False\<rparr>))\<lparr>bm_started := False, bm_crashed := False\<rparr>) = core m"
proof -
  have "core (x\<lparr>bm_started := a, bm_crashed := b\<rparr>) = core x" for x a b by (simp add: core_def)
  then show ?thesis by (simp add: core_launches_done) (simp add: core_def kill_chrome_def)
qed

subsection \<open>What is caught\<close>

lemma run_task_caught: "run_task fl t m = (m', r) \<Longrightarrow> bm_caught m' = bm_caught m"
  using caught.run_task_kept [of m "bm_caught m" fl t m' r] by simp

lemma call_clo_caught: "call_clo fl cb v m = (m', r) \<Longrightarrow> bm_caught m' = bm_caught m"
  using keepsD [OF caught.call_clo_keeps, of m "bm_caught m" fl cb v m' r] by simp

lemma catching_cases:
  assumes "catching f m = (m1, r)"
  obtains (ok) u where "f m = (m1, Inr u)" "r = Inr ()"
  | (undefined) "f m = (m1, Inl Undefined)" "r = Inl Undefined"
  | (caught) e m0 where "f m = (m0, Inl e)" "e \<noteq> Undefined" "m1 = m0\<lparr>bm_caught := bm_caught m0 @ [e]\<rparr>" "r = Inr ()"
proof -
  obtain m0 x where f: "f m = (m0, x)" by fastforce
  show thesis
  proof (cases x)
    case (Inr u)
    with f assms show thesis by (intro ok [of u]) (simp_all add: catching_def)
  next
    case (Inl e)
    with f assms show thesis
      by (cases "e = Undefined") (auto simp: catching_def intro: undefined caught)
  qed
qed

lemma catching_task_caught:
  "catching (run_task fl t) m = (m1, r) \<Longrightarrow> \<exists>cs. bm_caught m1 = bm_caught m @ cs"
  by (erule catching_cases) (auto dest: run_task_caught)

lemma run_tasks_caught: "run_tasks fl ts m = (m', r) \<Longrightarrow> \<exists>cs. bm_caught m' = bm_caught m @ cs"
proof (induction ts arbitrary: m)
  case (Cons t ts)
  obtain m1 r1 where t: "catching (run_task fl t) m = (m1, r1)" by fastforce
  with Cons.prems Cons.IH [of m1] catching_task_caught [OF t] show ?case
    by (auto simp: sbind_def split: sum.splits)
qed simp

subsection \<open>Keeping a property as long as nothing is caught\<close>

context manager_property
begin

lemma run_tasks_kept:
  "P {} m \<Longrightarrow> run_tasks fl ts m = (m', Inr u) \<Longrightarrow> bm_caught m' = bm_caught m \<Longrightarrow> P {} m'"
proof (induction ts arbitrary: m)
  case (Cons t ts)
  obtain m1 r1 where t: "catching (run_task fl t) m = (m1, r1)" by fastforce
  with Cons.prems(2) obtain x where r1: "r1 = Inr x" and rest: "run_tasks fl ts m1 = (m', Inr u)"
    by (auto simp: sbind_def split: sum.splits)
  from run_tasks_caught [OF rest] obtain cs where cs: "bm_caught m' = bm_caught m1 @ cs" by blast
  from t show ?case
  proof (cases rule: catching_cases)
    case (ok v)
    with run_task_kept [OF Cons.prems(1)] have "P {} m1" by blast
    moreover from ok have "bm_caught m1 = bm_caught m" by (auto dest: run_task_caught)
    ultimately show ?thesis using Cons.IH [OF _ rest] Cons.prems(3) by simp
  next
    case (caught e m0)
    then have "bm_caught m0 = bm_caught m" by (auto dest: run_task_caught)
    with cs caught Cons.prems(3) show ?thesis by simp
  qed (use r1 in simp)
qed simp

lemma stop_kept: "P {} m \<Longrightarrow> P {} (fst (bm_stop m))"
proof -
  assume P: "P {} m"
  let ?rest = "\<lambda>_ :: unit. update (\<lambda>m. (launches_done ((kill_chrome (m\<lparr>bm_ws_started := False\<rparr>))
     \<lparr>bm_timers := [], bm_sched := False, bm_wake := False\<rparr>))\<lparr>bm_started := False, bm_crashed := False\<rparr>)"
  have "keeps (P {}) (update (\<lambda>m. (launches_done ((kill_chrome (m\<lparr>bm_ws_started := False\<rparr>))
     \<lparr>bm_timers := [], bm_sched := False, bm_wake := False\<rparr>))\<lparr>bm_started := False, bm_crashed := False\<rparr>))"
    by (rule keeps_update) (rule core_stop_tail)
  then show ?thesis
    using P sbind_kept [where Q = "P {}" and f = clear_contexts and m = m and g = ?rest, OF P_clear [OF P]] by (simp add: bm_stop_def)
qed

lemma bm_do_kept:
  assumes P: "P {} m" and r: "bm_do fl ev m = (m', Inr u)" and c: "bm_caught m' = bm_caught m"
  shows "P {} m'"
proof (cases ev)
  case BeStop
  with r stop_kept [OF P] show ?thesis by simp
next
  case (BeCalls acts)
  with r exec_acts_keeps [OF P, of fl None acts] show ?thesis
    by (auto simp: client_calls_def split: prod.splits sum.splits if_splits)
next
  case BeStep
  have "P {} (launches_done m)" by (rule P_core [OF P]) (rule core_launches_done)
  then have "P {} ((launches_done m)\<lparr>bm_posted := [], bm_wake := False\<rparr>)" by (rule P_core) (simp add: core_def)
  moreover have "bm_caught (launches_done m) = bm_caught m" using core_launches_done [of m] by (simp add: core_def)
  ultimately show ?thesis
    using BeStep r c \<open>P {} (launches_done m)\<close> run_tasks_kept
    by (auto simp: bm_step_def Let_def split: if_splits)
next
  case (BeTimer i)
  obtain delay g cb where t: "bm_timers m ! i = (delay, g, cb)" by (cases "bm_timers m ! i")
  let ?m = "m\<lparr>bm_timers := take i (bm_timers m) @ drop (Suc i) (bm_timers m)\<rparr>"
  have P1: "P {} ?m" by (rule P_core [OF P]) (simp add: core_def)
  have "P {} m'" if "catching (call_clo fl cb VUnit) ?m = (m', Inr u)"
    using that
  proof (cases rule: catching_cases)
    case (ok v)
    with keepsD [OF call_clo_keeps P1] show ?thesis by blast
  next
    case (caught e m0)
    then have "bm_caught m0 = bm_caught m" by (auto dest: call_clo_caught)
    with caught c show ?thesis by simp
  qed simp
  with BeTimer r t P P1 show ?thesis by (auto simp: fire_timer_def Let_def split: if_splits)
next
  case (BeClock d)
  with r show ?thesis by (auto intro: P_core [OF P] simp: core_def)
qed (use r in \<open>auto intro: P_core [OF P] simp: core_start core_ws_event core_run_launch core_health\<close>)

end

lemma bm_do_caught: "bm_do fl ev m = (m', r) \<Longrightarrow> \<exists>cs. bm_caught m' = bm_caught m @ cs"
proof (cases ev)
  case BeStop
  assume "bm_do fl ev m = (m', r)"
  with BeStop caught.stop_kept [of m "bm_caught m"] show ?thesis by simp
next
  case (BeCalls acts)
  assume "bm_do fl ev m = (m', r)"
  with BeCalls caught.exec_acts_keeps [of m "bm_caught m" fl None acts] show ?thesis
    by (auto simp: client_calls_def split: prod.splits sum.splits if_splits)
next
  case BeStep
  assume r: "bm_do fl ev m = (m', r)"
  have "bm_caught (launches_done m) = bm_caught m" using core_launches_done [of m] by (simp add: core_def)
  with BeStep r run_tasks_caught [of fl _ _ m' r] show ?thesis
    by (fastforce simp: bm_step_def Let_def split: if_splits)
next
  case (BeTimer i)
  assume r: "bm_do fl ev m = (m', r)"
  obtain delay g cb where t: "bm_timers m ! i = (delay, g, cb)" by (cases "bm_timers m ! i")
  let ?m = "m\<lparr>bm_timers := take i (bm_timers m) @ drop (Suc i) (bm_timers m)\<rparr>"
  have "\<exists>cs. bm_caught m' = bm_caught m @ cs" if "catching (call_clo fl cb VUnit) ?m = (m', r)"
    using that by (cases rule: catching_cases) (auto dest: call_clo_caught)
  with BeTimer r t show ?thesis by (auto simp: fire_timer_def Let_def split: if_splits)
qed (auto simp: bm_start_def kill_chrome_def on_ws_event_def post_task_def run_launch_def
      bm_health_check_def split: if_splits ws_event.splits prod.splits)

lemma bm_run_caught: "bm_run fl evs m = (m', r) \<Longrightarrow> \<exists>cs. bm_caught m' = bm_caught m @ cs"
proof (induction evs arbitrary: m)
  case (Cons ev evs)
  obtain m1 r1 where e: "bm_do fl ev m = (m1, r1)" by fastforce
  obtain cs where "bm_caught m1 = bm_caught m @ cs" using bm_do_caught [OF e] by blast
  with Cons.prems Cons.IH [of m1] e show ?case by (auto simp: sbind_def split: sum.splits)
qed simp

context manager_property
begin

lemma bm_run_kept:
  "P {} m \<Longrightarrow> bm_run fl evs m = (m', Inr u) \<Longrightarrow> bm_caught m' = bm_caught m \<Longrightarrow> P {} m'"
proof (induction evs arbitrary: m)
  case (Cons ev evs)
  obtain m1 r1 where e: "bm_do fl ev m = (m1, r1)" by fastforce
  with Cons.prems(2) obtain x where r1: "r1 = Inr x" and rest: "bm_run fl evs m1 = (m', Inr u)"
    by (auto simp: sbind_def split: sum.splits)
  obtain cs1 cs2 where "bm_caught m1 = bm_caught m @ cs1" "bm_caught m' = bm_caught m1 @ cs2"
    using bm_do_caught [OF e] bm_run_caught [OF rest] by blast
  with Cons.prems(3) have c: "bm_caught m1 = bm_caught m" "bm_caught m' = bm_caught m1" by simp_all
  show ?case using Cons.IH [OF bm_do_kept [OF Cons.prems(1) _ c(1)] rest c(2)] e r1 by blast
qed simp

end

text \<open>Properties that also survive an exception.\<close>

locale robust_property = manager_property +
  assumes P_any: "P X m \<Longrightarrow> P Y m"
    and P_caught: "P X m \<Longrightarrow> P X (m\<lparr>bm_caught := cs\<rparr>)"
begin

lemma run_tasks_robust: "P {} m \<Longrightarrow> P {} (fst (run_tasks fl ts m))"
proof (induction ts arbitrary: m)
  case (Cons t ts)
  obtain m1 r1 where t: "catching (run_task fl t) m = (m1, r1)" by fastforce
  then have "P {} m1"
  proof (cases rule: catching_cases)
    case (ok u)
    with run_task_kept [OF Cons.prems ok(1)] show ?thesis by blast
  next
    case undefined
    with run_task_kept [OF Cons.prems undefined(1)] P_any show ?thesis by blast
  next
    case (caught e m0)
    with run_task_kept [OF Cons.prems caught(1)] P_any P_caught show ?thesis by blast
  qed
  with t Cons.IH [of m1] show ?case by (auto simp: sbind_def split: sum.split)
qed simp

lemma bm_do_robust:
  assumes P: "P {} m"
  shows "P {} (fst (bm_do fl ev m))"
proof (cases ev)
  case BeStop
  with stop_kept [OF P] show ?thesis by simp
next
  case (BeCalls acts)
  with exec_acts_keeps [OF P, of fl None acts] show ?thesis
    by (auto simp: client_calls_def split: prod.split sum.split)
next
  case BeStep
  have "P {} (launches_done m)" by (rule P_core [OF P]) (rule core_launches_done)
  moreover from this have "P {} ((launches_done m)\<lparr>bm_posted := [], bm_wake := False\<rparr>)"
    by (rule P_core) (simp add: core_def)
  ultimately show ?thesis using BeStep run_tasks_robust by (simp add: bm_step_def Let_def)
next
  case (BeTimer i)
  obtain delay g cb where t: "bm_timers m ! i = (delay, g, cb)" by (cases "bm_timers m ! i")
  let ?m = "m\<lparr>bm_timers := take i (bm_timers m) @ drop (Suc i) (bm_timers m)\<rparr>"
  have P1: "P {} ?m" by (rule P_core [OF P]) (simp add: core_def)
  have "P {} (fst (catching (call_clo fl cb VUnit) ?m))"
    using keepsD [OF call_clo_keeps P1] P_caught
    by (auto simp: catching_def split: prod.split sum.split)
  with BeTimer t P P1 show ?thesis by (simp add: fire_timer_def Let_def)
next
  case (BeClock d)
  show ?thesis by (rule P_core [OF P]) (simp add: BeClock core_def)
qed (auto intro: P_core [OF P] simp: core_start core_ws_event core_run_launch core_health)

lemma bm_run_robust: "P {} m \<Longrightarrow> P {} (fst (bm_run fl evs m))"
proof (induction evs arbitrary: m)
  case (Cons ev evs)
  obtain m1 r1 where e: "bm_do fl ev m = (m1, r1)" by fastforce
  with bm_do_robust [OF Cons.prems, of fl ev] Cons.IH [of m1] show ?case
    by (auto simp: sbind_def split: sum.split)
qed simp

end

interpretation settled_run: robust_property "\<lambda>X. settled i" for i
  by unfold_locales (auto simp: settled_def)

text \<open>Ids only grow, and only ids that were given out are pending.\<close>

definition issued :: "int \<Rightarrow> manager \<Rightarrow> bool" where
  "issued i m \<longleftrightarrow> i < sint (bm_cmd_id m)"

definition ids_ok :: "manager \<Rightarrow> bool" where
  "ids_ok m \<longleftrightarrow> (\<forall>i. map_of (bm_pending m) i \<noteq> None \<longrightarrow> 0 \<le> i \<and> i < sint (bm_cmd_id m)) \<and> 0 \<le> sint (bm_cmd_id m)"

interpretation issued: robust_property "\<lambda>X. issued i" for i
  by unfold_locales
     (auto simp: issued_def core_def bump_id_def put_pending_def alloc_context_def set_context_def
       set_wait_done_def erase_pending_def sint_plus_one)

interpretation ids: robust_property "\<lambda>X. ids_ok"
  by unfold_locales
     (force simp: ids_ok_def core_def bump_id_def put_pending_def alloc_context_def set_context_def
       set_wait_done_def erase_pending_def sint_plus_one)+

lemma ids_ok_new: "ids_ok (new_manager c f)"
  by (simp add: ids_ok_def new_manager_def)

text \<open>A response to a settled id has no effect.\<close>

lemma settled_ignored:
  assumes "settled (sint i) m" "json_parse_noexc fl s = Some msg" "json_contains msg ''id''"
    "bind_res (json_index_mut msg ''id'') get_int = Inr i"
  shows "on_ws_message fl s m = (m, Inr ())"
  using assms by (simp add: on_ws_message_def settled_def)

lemma response_settles:
  assumes r: "on_response fl msg i k e m = (m', Inr u)" and i: "map_of (bm_pending m) i = Some (k, e)"
    and ok: "ids_ok m"
  shows "settled i m'"
proof -
  have "issued i m" using ok i by (auto simp: ids_ok_def issued_def)
  from issued.on_response_keeps(1) [OF this i r] have "issued i m'" .
  moreover have "map_of (bm_pending m') i = None"
    using r by (auto simp: on_response_def sbind_def update_def erase_pending_def split: prod.splits sum.splits)
  ultimately show ?thesis by (simp add: settled_def issued_def)
qed

lemma reach_ids: "bm_run fl evs (create_browser c f) = (m, Inr u) \<Longrightarrow> ids_ok m"
  using ids.bm_run_robust [OF ids_ok_new, of fl evs c f] by (simp add: create_browser_def)

lemma run_inv: "bm_run fl evs (create_browser c f) = (m, Inr u) \<Longrightarrow> bm_caught m = [] \<Longrightarrow> bm_inv {} m"
  using inv.bm_run_kept [OF bm_inv_new, of fl evs c f m u] by (simp add: create_browser_def new_manager_def)

text \<open>A message that answers command \<open>i\<close>.\<close>

definition is_answer :: "float_io \<Rightarrow> string \<Rightarrow> int32 \<Rightarrow> bool" where
  "is_answer fl s i \<longleftrightarrow>
     (case json_parse_noexc fl s of
        None \<Rightarrow> False
      | Some msg \<Rightarrow> json_contains msg ''id'' \<and> bind_res (json_index_mut msg ''id'') get_int = Inr i)"

lemma is_answerE:
  assumes "is_answer fl s i"
  obtains msg where "json_parse_noexc fl s = Some msg" "json_contains msg ''id''"
    "bind_res (json_index_mut msg ''id'') get_int = Inr i"
  using assms by (auto simp: is_answer_def split: option.splits)

lemma answer_settles:
  assumes "ids_ok m" "map_of (bm_pending m) (sint i) = Some ke" "is_answer fl s i" "on_ws_message fl s m = (m1, Inr ())"
  shows "settled (sint i) m1"
proof -
  obtain k e where ke: "ke = (k, e)" by (cases ke)
  obtain msg where "json_parse_noexc fl s = Some msg" "json_contains msg ''id''"
    "bind_res (json_index_mut msg ''id'') get_int = Inr i"
    using is_answerE [OF assms(3)] .
  with assms(2,4) have "on_response fl msg (sint i) k e m = (m1, Inr ())" by (simp add: on_ws_message_def ke)
  from response_settles [OF this _ assms(1)] assms(2) show ?thesis by (simp add: ke)
qed

lemma answer_ignored: "settled (sint i) m \<Longrightarrow> is_answer fl s i \<Longrightarrow> on_ws_message fl s m = (m, Inr ())"
  by (erule is_answerE) (rule settled_ignored)

end
