(* ===== verification/Cdp_Flows.thy ===== *)
theory Cdp_Flows
  imports Cdp_Runs Loop_Queue
begin

text \<open>
  What the protocol exchanges of the browser manager come to, message by message: a command and its
  response, the commands queued before the connection opens, obtaining a context, closing one, saving
  and restoring a session.
\<close>

subsection \<open>Commands that can be sent\<close>

text \<open>A method or key of the protocol is plain ASCII.\<close>

lemma utf8_names:
  "utf8_valid ''id''" "utf8_valid ''method''" "utf8_valid ''params''" "utf8_valid ''sessionId''"
  "utf8_valid ''url''" "utf8_valid ''about:blank''" "utf8_valid ''targetId''" "utf8_valid ''flatten''"
  "utf8_valid ''source''" "utf8_valid ''cookies''"
  "utf8_valid ''Target.createTarget''" "utf8_valid ''Target.attachToTarget''"
  "utf8_valid ''Page.addScriptToEvaluateOnNewDocument''" "utf8_valid ''Page.enable''"
  "utf8_valid ''Storage.getCookies''" "utf8_valid ''Storage.setCookies''" "utf8_valid ''Target.closeTarget''"
  by code_simp+

lemma list_all_text_lines: "P line_feed \<Longrightarrow> list_all (list_all P) ls \<Longrightarrow> list_all P (text_lines ls)"
  by (cases ls) (auto simp: text_lines_def list_all_iff)

lemma utf8_stealth: "utf8_valid stealth_js"
proof (rule utf8_ascii)
  show "list_all (\<lambda>c. \<not> digit7 c) stealth_js"
    unfolding stealth_js_def by (rule list_all_text_lines) (simp_all only: list.pred_inject append.simps char.sel not_False_eq_True)
qed

lemma cmd_message_dumps:
  assumes "utf8_valid meth" "json_utf8 params" "utf8_valid sid"
  shows "\<exists>s. json_dump fl (cmd_message i meth params sid) = Inr s"
proof (rule dump_ok)
  show "json_utf8 (cmd_message i meth params sid)"
    unfolding cmd_message_def using assms
    by (intro json_utf8_object) (simp add: utf8_names json_of_int_def del: utf8_valid.simps)
qed

text \<open>The state after a command was sent.\<close>

definition sent_cmd :: "kont \<Rightarrow> ekont \<Rightarrow> string \<Rightarrow> manager \<Rightarrow> manager" where
  "sent_cmd k e s m =
     (put_pending (bm_cmd_id m) k e (bump_id m))\<lparr>bm_sent := bm_sent m @ [s]\<rparr>"

lemma sent_cmd_fields [simp]:
  "bm_ws_ready (sent_cmd k e s m) = bm_ws_ready m" "bm_started (sent_cmd k e s m) = bm_started m"
  "bm_contexts (sent_cmd k e s m) = bm_contexts m" "bm_heap (sent_cmd k e s m) = bm_heap m"
  "bm_next (sent_cmd k e s m) = bm_next m" "bm_log (sent_cmd k e s m) = bm_log m"
  "bm_cmd_id (sent_cmd k e s m) = bm_cmd_id m + 1" "bm_sent (sent_cmd k e s m) = bm_sent m @ [s]"
  "map_of (bm_pending (sent_cmd k e s m)) = (map_of (bm_pending m))(sint (bm_cmd_id m) \<mapsto> (k, e))"
  "bm_fs (sent_cmd k e s m) = bm_fs m" "bm_config (sent_cmd k e s m) = bm_config m"
  by (simp_all add: sent_cmd_def put_pending_def bump_id_def)

lemma send_ready:
  assumes "bm_ws_ready m" "sint (bm_cmd_id m) \<noteq> 2 ^ 31 - 1"
    "json_dump fl (cmd_message (bm_cmd_id m) meth params sid) = Inr s"
  shows "bm_send_command fl meth params k e sid m = (sent_cmd k e s m, Inr ())"
  using assms
  by (simp add: bm_send_command_def sbind_def next_cmd_id_def Let_def send_text_def sent_cmd_def
      put_pending_def bump_id_def)

lemma send_queued:
  assumes "\<not> bm_ws_ready m" "sint (bm_cmd_id m) \<noteq> 2 ^ 31 - 1"
  shows "bm_send_command fl meth params k e sid m =
    ((put_pending (bm_cmd_id m) k e (bump_id m))
       \<lparr>bm_pending_commands := bm_pending_commands m @ [cmd_message (bm_cmd_id m) meth params sid]\<rparr>, Inr ())"
  using assms by (simp add: bm_send_command_def sbind_def next_cmd_id_def Let_def put_pending_def bump_id_def)

subsection \<open>What is posted to the loop\<close>

definition bm_turn :: "manager \<Rightarrow> task list \<times> manager" where
  "bm_turn m = (if bm_wake m then (bm_posted m, m\<lparr>bm_posted := [], bm_wake := False\<rparr>) else ([], m))"

interpretation posted_tasks: loop_queue bm_posted bm_wake bm_sched post_task bm_turn
  by unfold_locales (auto simp: post_task_def bm_turn_def)

lemma bm_step_turn: "bm_step fl m = (case bm_turn (launches_done m) of (ts, m1) \<Rightarrow> run_tasks fl ts m1)"
  by (simp add: bm_step_def bm_turn_def Let_def)

lemma messages_post: "fold (\<lambda>s. on_ws_event (WsMessage s)) ss m = fold post_task (map TMessage ss) m"
  by (induction ss arbitrary: m) (simp_all add: on_ws_event_def)

lemma post_task_frame: "fold post_task ts m = m\<lparr>bm_posted := bm_posted m @ ts, bm_wake := bm_wake m \<or> bm_sched m \<and> ts \<noteq> []\<rparr>"
proof (induction ts arbitrary: m)
  case (Cons t ts)
  have "b \<or> c \<or> c \<and> d \<longleftrightarrow> b \<or> c" for b c d by blast
  then show ?case by (simp add: Cons.IH) (simp add: post_task_def)
qed simp

lemma no_launches: "bm_done m = [] \<Longrightarrow> launches_done m = m"
  by (simp add: launches_done_def)

lemma messages_next_turn:
  assumes "bm_done m = []" "bm_sched m" "ss \<noteq> []"
  shows "bm_step fl (fold (\<lambda>s. on_ws_event (WsMessage s)) ss m) =
    run_tasks fl (bm_posted m @ map TMessage ss) (m\<lparr>bm_posted := [], bm_wake := False\<rparr>)"
proof -
  let ?m = "fold post_task (map TMessage ss) m"
  have "fst (bm_turn ?m) = bm_posted m @ map TMessage ss" using assms by (intro posted_tasks.next_turn) simp_all
  moreover have "snd (bm_turn ?m) = m\<lparr>bm_posted := [], bm_wake := False\<rparr>"
    using assms by (simp add: post_task_frame bm_turn_def)
  moreover have "launches_done ?m = ?m" using assms(1) by (intro no_launches) (simp add: post_task_frame)
  ultimately show ?thesis by (simp add: messages_post bm_step_turn case_prod_beta)
qed

lemma messages_while_stopped:
  assumes "bm_done m = []" "\<not> bm_sched m" "\<not> bm_wake m"
  shows "bm_step fl (fold (\<lambda>s. on_ws_event (WsMessage s)) ss m) =
    (m\<lparr>bm_posted := bm_posted m @ map TMessage ss\<rparr>, Inr ())"
proof -
  let ?m = "fold post_task (map TMessage ss) m"
  have "bm_turn ?m = ([], ?m)" using assms(2,3) by (rule posted_tasks.stopped_turn)
  moreover have "launches_done ?m = ?m" using assms(1) by (intro no_launches) (simp add: post_task_frame)
  ultimately show ?thesis using assms(2,3) by (simp add: messages_post bm_step_turn) (simp add: post_task_frame)
qed

subsection \<open>Responses\<close>

definition is_response :: "json \<Rightarrow> int32 \<Rightarrow> json \<Rightarrow> bool" where
  "is_response msg i j \<longleftrightarrow> json_contains msg ''id'' \<and> bind_res (json_index_mut msg ''id'') get_int = Inr i \<and>
     \<not> json_contains msg ''error'' \<and> json_index_mut msg ''result'' = Inr j"

definition is_failure :: "json \<Rightarrow> int32 \<Rightarrow> string \<Rightarrow> bool" where
  "is_failure msg i err \<longleftrightarrow> json_contains msg ''id'' \<and> bind_res (json_index_mut msg ''id'') get_int = Inr i \<and>
     json_contains msg ''error'' \<and>
     bind_res (json_index_mut msg ''error'') (\<lambda>er. bind_res (json_index_mut er ''message'') get_string) = Inr err"

definition response :: "int32 \<Rightarrow> json \<Rightarrow> json" where
  "response i j = json_object [(''id'', json_of_int i), (''result'', j)]"

definition failure :: "int32 \<Rightarrow> string \<Rightarrow> json" where
  "failure i err = json_object [(''id'', json_of_int i), (''error'', json_object [(''message'', JString err)])]"

lemma json_index_mut_object:
  "json_index_mut (json_object kvs) k = Inr (case map_of (rev kvs) k of Some v \<Rightarrow> v | None \<Rightarrow> JNull)"
  by (simp add: json_object_def map_of_map_list split: option.split)

lemma json_index_const_object:
  "json_index_const (json_object kvs) k = (case map_of (rev kvs) k of Some v \<Rightarrow> Inr v | None \<Rightarrow> Inl Undefined)"
  by (simp add: json_object_def map_of_map_list)

lemma response_ok: "is_response (response i j) i j"
  by (simp add: is_response_def response_def json_index_mut_object)

lemma failure_ok: "is_failure (failure i err) i err"
  by (simp add: is_failure_def failure_def json_index_mut_object)

lemma sbind_lifted: "sbind (sbind (lift_res (Inr x)) f) g m = sbind (f x) g m"
  by (simp add: sbind_def)

lemma deliver_response:
  assumes "json_parse_noexc fl s = Some msg" "is_response msg i j" "map_of (bm_pending m) (sint i) = Some (k, e)"
    and "run_kont fl k j m = (m1, Inr c)"
  shows "on_ws_message fl s m = sbind (call_user fl c) (\<lambda>_. update (erase_pending (sint i))) m1"
  using assms by (simp add: on_ws_message_def is_response_def on_response_def sbind_lifted sbind_eq [of "run_kont fl k j"])

lemma deliver_failure:
  assumes "json_parse_noexc fl s = Some msg" "is_failure msg i err" "map_of (bm_pending m) (sint i) = Some (k, e)"
    and "run_ekont fl e err m = (m1, Inr c)"
  shows "on_ws_message fl s m = sbind (call_user fl c) (\<lambda>_. update (erase_pending (sint i))) m1"
  using assms by (simp add: on_ws_message_def is_failure_def on_response_def sbind_lifted sbind_eq [of "run_ekont fl e err"])

lemma erase_fields [simp]:
  "bm_ws_ready (erase_pending i m) = bm_ws_ready m" "bm_started (erase_pending i m) = bm_started m"
  "bm_contexts (erase_pending i m) = bm_contexts m" "bm_heap (erase_pending i m) = bm_heap m"
  "bm_next (erase_pending i m) = bm_next m" "bm_log (erase_pending i m) = bm_log m"
  "bm_cmd_id (erase_pending i m) = bm_cmd_id m" "bm_sent (erase_pending i m) = bm_sent m"
  "map_of (bm_pending (erase_pending i m)) = (map_of (bm_pending m))(i := None)"
  "bm_fs (erase_pending i m) = bm_fs m" "bm_config (erase_pending i m) = bm_config m"
  by (simp_all add: erase_pending_def)

lemma call_user_none [simp]: "call_user fl None m = (m, Inr ())"
  by (simp add: call_user_def)


lemma call_user_note [simp]: "call_user fl (Some (Clo this (Fn n []), v)) m = (note_call n v m, Inr ())"
  by (simp add: call_user_def call_clo_def exec_acts.simps)

lemma sbind_call_user [simp]:
  "sbind (call_user fl None) g m = g () m"
  "sbind (call_user fl (Some (Clo this (Fn n []), v))) g m = g () (note_call n v m)"
  by (simp_all add: sbind_def)

lemma note_call_fields [simp]:
  "bm_ws_ready (note_call n v m) = bm_ws_ready m" "bm_started (note_call n v m) = bm_started m"
  "bm_contexts (note_call n v m) = bm_contexts m" "bm_heap (note_call n v m) = bm_heap m"
  "bm_next (note_call n v m) = bm_next m" "bm_log (note_call n v m) = bm_log m @ [(n, v)]"
  "bm_cmd_id (note_call n v m) = bm_cmd_id m" "bm_sent (note_call n v m) = bm_sent m"
  "bm_pending (note_call n v m) = bm_pending m" "bm_fs (note_call n v m) = bm_fs m"
  "bm_config (note_call n v m) = bm_config m"
  by (simp_all add: note_call_def)

subsection \<open>Obtaining a context\<close>

lemma get_context_sends:
  assumes "bm_started m" "bm_ws_ready m" "map_of (bm_contexts m) p = None" "sint (bm_cmd_id m) \<noteq> 2 ^ 31 - 1"
  shows "\<exists>s. do_get_context fl p g m = (sent_cmd (KCreated p g) (EUser (gk_err g)) s m, Inr NoCall) \<and>
    json_dump fl (cmd_message (bm_cmd_id m) ''Target.createTarget''
       (json_object [(''url'', JString ''about:blank'')]) []) = Inr s"
proof -
  have "json_utf8 (json_object [(''url'', JString ''about:blank'')])"
    by (rule json_utf8_object) (simp add: utf8_names del: utf8_valid.simps)
  from cmd_message_dumps [OF utf8_names(11) this utf8_empty, of fl "bm_cmd_id m"] obtain s where
    s: "json_dump fl (cmd_message (bm_cmd_id m) ''Target.createTarget''
       (json_object [(''url'', JString ''about:blank'')]) []) = Inr s" ..
  from send_ready [OF assms(2,4) this] assms(1,3) s show ?thesis
    by (auto simp: do_get_context_def no_reply_def sbind_def)
qed

lemma created_sends:
  assumes "bm_ws_ready m" "utf8_valid T" "sint (bm_cmd_id m) \<noteq> 2 ^ 31 - 1"
  shows "\<exists>s. run_kont fl (KCreated p g) (json_object [(''targetId'', JString T)]) m =
      (sent_cmd (KAttached p T g) (EUser (gk_err g)) s m, Inr None) \<and>
    json_dump fl (cmd_message (bm_cmd_id m) ''Target.attachToTarget''
       (json_object [(''targetId'', JString T), (''flatten'', JBool True)]) []) = Inr s"
proof -
  have "json_utf8 (json_object [(''targetId'', JString T), (''flatten'', JBool True)])"
    using assms(2) by (intro json_utf8_object) (simp add: utf8_names del: utf8_valid.simps)
  from cmd_message_dumps [OF utf8_names(12) this utf8_empty, of fl "bm_cmd_id m"] obtain s where
    s: "json_dump fl (cmd_message (bm_cmd_id m) ''Target.attachToTarget''
       (json_object [(''targetId'', JString T), (''flatten'', JBool True)]) []) = Inr s" ..
  from send_ready [OF assms(1,3) this] s show ?thesis
    by (auto simp: attach_to_target_def sbind_def json_index_const_object)
qed

lemma attached_sends:
  assumes "bm_ws_ready m" "utf8_valid S" "sint (bm_cmd_id m) \<noteq> 2 ^ 31 - 1" "sint (bm_cmd_id m + 1) \<noteq> 2 ^ 31 - 1"
  shows "\<exists>s t. run_kont fl (KAttached p T g) (json_object [(''sessionId'', JString S)]) m =
      (sent_cmd KNothing ENothing t (sent_cmd (KInit p (bm_next m) g) (EDrop (bm_next m)) s
         (fst (alloc_context p T S m))), Inr None) \<and>
    json_dump fl (cmd_message (bm_cmd_id m) ''Page.addScriptToEvaluateOnNewDocument''
       (json_object [(''source'', JString stealth_js)]) S) = Inr s \<and>
    json_dump fl (cmd_message (bm_cmd_id m + 1) ''Page.enable'' JNull S) = Inr t"
proof -
  obtain a where a: "alloc_context p T S m = (a, Inr (bm_next m))" by (simp add: alloc_context_def)
  have f: "bm_ws_ready a" "bm_cmd_id a = bm_cmd_id m" using assms(1) a by (auto simp: alloc_context_def)
  have "json_utf8 (json_object [(''source'', JString stealth_js)])"
    using utf8_stealth by (intro json_utf8_object) (simp add: utf8_names del: utf8_valid.simps)
  from cmd_message_dumps [OF utf8_names(13) this assms(2), of fl "bm_cmd_id a"] obtain s where
    ds: "json_dump fl (cmd_message (bm_cmd_id a) ''Page.addScriptToEvaluateOnNewDocument''
       (json_object [(''source'', JString stealth_js)]) S) = Inr s" ..
  note s = send_ready [OF f(1) _ this]
  from cmd_message_dumps [OF utf8_names(14) _ assms(2), of JNull fl "bm_cmd_id m + 1"] obtain t where
    t: "json_dump fl (cmd_message (bm_cmd_id m + 1) ''Page.enable'' JNull S) = Inr t" by auto
  have "bm_send_command fl ''Page.enable'' JNull KNothing ENothing S
      (sent_cmd (KInit p (bm_next m) g) (EDrop (bm_next m)) s a) =
      (sent_cmd KNothing ENothing t (sent_cmd (KInit p (bm_next m) g) (EDrop (bm_next m)) s a), Inr ())"
    using f assms(4) t by (intro send_ready) simp_all
  then have "run_kont fl (KAttached p T g) (json_object [(''sessionId'', JString S)]) m =
      (sent_cmd KNothing ENothing t (sent_cmd (KInit p (bm_next m) g) (EDrop (bm_next m)) s
         (fst (alloc_context p T S m))), Inr None)"
    using s assms(3) f(2) a
    by (auto simp: init_context_def sbind_def json_index_const_object)
  with ds t f(2) show ?thesis by auto
qed

lemma old_ids: "ids_ok m \<Longrightarrow> sint (bm_cmd_id m) \<le> i \<Longrightarrow> map_of (bm_pending m) i = None"
  unfolding ids_ok_def by (metis linorder_not_less)

lemma alloc_fields [simp]:
  "bm_pending (fst (alloc_context p T S m)) = bm_pending m"
  "bm_cmd_id (fst (alloc_context p T S m)) = bm_cmd_id m"
  "bm_contexts (fst (alloc_context p T S m)) = bm_contexts m"
  "bm_log (fst (alloc_context p T S m)) = bm_log m" "bm_sent (fst (alloc_context p T S m)) = bm_sent m"
  "map_of (bm_heap (fst (alloc_context p T S m))) = (map_of (bm_heap m))(bm_next m \<mapsto> new_context p T S)"
  by (simp_all add: alloc_context_def)

lemma init_caches:
  assumes "map_of (bm_contexts m) p = None"
  shows "run_kont fl (KInit p h (GetCtx ok err)) j m =
     (m\<lparr>bm_contexts := mput p h (bm_contexts m)\<rparr>, Inr (Some (ok, VCtx h)))"
  using assms by (simp add: cache_context_def reset_context_def sbind_def)

definition replies :: "float_io \<Rightarrow> string \<Rightarrow> int32 \<Rightarrow> json \<Rightarrow> bool" where
  "replies fl s i j \<longleftrightarrow> (\<exists>msg. json_parse_noexc fl s = Some msg \<and> is_response msg i j)"

definition fails :: "float_io \<Rightarrow> string \<Rightarrow> int32 \<Rightarrow> string \<Rightarrow> bool" where
  "fails fl s i err \<longleftrightarrow> (\<exists>msg. json_parse_noexc fl s = Some msg \<and> is_failure msg i err)"

lemma replies_deliver:
  "replies fl s i j \<Longrightarrow> map_of (bm_pending m) (sint i) = Some (k, e) \<Longrightarrow> run_kont fl k j m = (m1, Inr c) \<Longrightarrow>
   on_ws_message fl s m = sbind (call_user fl c) (\<lambda>_. update (erase_pending (sint i))) m1"
  unfolding replies_def using deliver_response by blast

lemma fails_deliver:
  "fails fl s i err \<Longrightarrow> map_of (bm_pending m) (sint i) = Some (k, e) \<Longrightarrow> run_ekont fl e err m = (m1, Inr c) \<Longrightarrow>
   on_ws_message fl s m = sbind (call_user fl c) (\<lambda>_. update (erase_pending (sint i))) m1"
  unfolding fails_def using deliver_failure by blast

text \<open>Nothing is posted, due or waiting on the loop thread.\<close>

definition calm :: "manager \<Rightarrow> bool" where
  "calm m \<longleftrightarrow> bm_posted m = [] \<and> \<not> bm_wake m \<and> bm_sched m \<and> bm_done m = []"

lemma calm_simps [simp]:
  "calm (sent_cmd k e s m) = calm m" "calm (erase_pending i m) = calm m" "calm (note_call n v m) = calm m"
  "calm (m\<lparr>bm_contexts := cs\<rparr>) = calm m" "calm (fst (alloc_context p t s m)) = calm m"
  "bm_caught (sent_cmd k e s m) = bm_caught m" "bm_caught (erase_pending i m) = bm_caught m"
  "bm_caught (note_call n v m) = bm_caught m" "bm_caught (fst (alloc_context p t s m)) = bm_caught m"
  by (simp_all add: calm_def sent_cmd_def put_pending_def bump_id_def erase_pending_def note_call_def alloc_context_def)

text \<open>What talking to Chrome does not change.\<close>

definition setting :: "manager \<Rightarrow> fs \<times> browser_config \<times> int32 \<times> bool list" where
  "setting m = (bm_fs m, bm_config m, bm_pid m, bm_guards m)"

lemma setting_simps [simp]:
  "setting (sent_cmd k e s m) = setting m" "setting (erase_pending i m) = setting m"
  "setting (note_call n v m) = setting m" "setting (m\<lparr>bm_contexts := cs\<rparr>) = setting m"
  "setting (fst (alloc_context p t s m)) = setting m"
  by (simp_all add: setting_def sent_cmd_def put_pending_def bump_id_def erase_pending_def note_call_def
      alloc_context_def)

text \<open>A message that arrives on a calm loop is handled by the next turn.\<close>

lemma calm_message:
  assumes "calm m" "on_ws_message fl s m = (m', Inr ())"
  shows "bm_run fl [BeWs (WsMessage s), BeStep] m = (m', Inr ())"
proof -
  have "launches_done (post_task (TMessage s) m) = post_task (TMessage s) m"
    using assms(1) by (simp add: launches_done_def calm_def post_task_def)
  moreover have "(post_task (TMessage s) m)\<lparr>bm_posted := [], bm_wake := False\<rparr> = m"
    "bm_wake (post_task (TMessage s) m)" "bm_posted (post_task (TMessage s) m) = [TMessage s]"
    using assms(1) by (simp_all add: calm_def post_task_def)
  moreover have "catching (on_ws_message fl s) m = (m', Inr ())"
    using assms(2) by (simp add: catching_def)
  ultimately have "bm_step fl (post_task (TMessage s) m) = (m', Inr ())"
    by (simp add: bm_step_def Let_def sbind_eq)
  then show ?thesis
    by (simp add: on_ws_event_def sbind_eq)
qed

lemma get_context_exchange:
  assumes m: "bm_started m" "bm_ws_ready m" "map_of (bm_contexts m) p = None" "ids_ok m"
    and id: "i = bm_cmd_id m" "sint i < 2 ^ 31 - 4"
    and TS: "utf8_valid T" "utf8_valid S"
    and r1: "replies fl s1 i (json_object [(''targetId'', JString T)])"
    and r2: "replies fl s2 (i + 1) (json_object [(''sessionId'', JString S)])"
    and r3: "replies fl s3 (i + 2) j"
  shows "\<exists>m1 m2 m3 m'. do_get_context fl p (GetCtx (Clo this (Fn n [])) err) m = (m1, Inr NoCall) \<and>
    on_ws_message fl s1 m1 = (m2, Inr ()) \<and> on_ws_message fl s2 m2 = (m3, Inr ()) \<and>
    on_ws_message fl s3 m3 = (m', Inr ()) \<and>
    (calm m \<longrightarrow> calm m1 \<and> calm m2 \<and> calm m3 \<and> calm m') \<and> bm_caught m' = bm_caught m \<and>
    setting m' = setting m \<and> bm_started m' \<and> bm_ws_ready m' \<and> bm_cmd_id m' = i + 4 \<and>
    map_of (bm_contexts m') = (map_of (bm_contexts m))(p \<mapsto> bm_next m) \<and>
    map_of (bm_heap m') = (map_of (bm_heap m))(bm_next m \<mapsto> new_context p T S) \<and>
    bm_log m' = bm_log m @ [(n, VCtx (bm_next m))] \<and>
    map_of (bm_pending m') = (map_of (bm_pending m))(sint i + 3 \<mapsto> (KNothing, ENothing)) \<and>
    (\<exists>t1 t2 t3 t4. bm_sent m1 = bm_sent m @ [t1] \<and> bm_sent m2 = bm_sent m @ [t1, t2] \<and>
      bm_sent m3 = bm_sent m @ [t1, t2, t3, t4] \<and> bm_sent m' = bm_sent m @ [t1, t2, t3, t4] \<and>
      json_dump fl (cmd_message i ''Target.createTarget'' (json_object [(''url'', JString ''about:blank'')]) []) = Inr t1 \<and>
      json_dump fl (cmd_message (i + 1) ''Target.attachToTarget''
        (json_object [(''targetId'', JString T), (''flatten'', JBool True)]) []) = Inr t2 \<and>
      json_dump fl (cmd_message (i + 2) ''Page.addScriptToEvaluateOnNewDocument''
        (json_object [(''source'', JString stealth_js)]) S) = Inr t3 \<and>
      json_dump fl (cmd_message (i + 3) ''Page.enable'' JNull S) = Inr t4)"
proof -
  let ?g = "GetCtx (Clo this (Fn n [])) err"
  have si: "sint (i + 1) = sint i + 1" "sint (i + 2) = sint i + 2" "sint (i + 3) = sint i + 3"
  proof -
    show 1: "sint (i + 1) = sint i + 1" using id(2) by (intro sint_plus_one) simp
    have "sint (i + 1 + 1) = sint (i + 1) + 1" using id(2) 1 by (intro sint_plus_one) simp
    then show 2: "sint (i + 2) = sint i + 2" using 1 by (simp add: add.assoc)
    have "sint (i + 2 + 1) = sint (i + 2) + 1" using id(2) 2 by (intro sint_plus_one) simp
    then show "sint (i + 3) = sint i + 3" using 2 by (simp add: add.assoc)
  qed
  have nid: "sint i \<noteq> 2 ^ 31 - 1" "sint (i + 1) \<noteq> 2 ^ 31 - 1" "sint (i + 2) \<noteq> 2 ^ 31 - 1" "sint (i + 3) \<noteq> 2 ^ 31 - 1"
    using id(2) si by simp_all
  have fresh: "map_of (bm_pending m) (sint i) = None" "map_of (bm_pending m) (sint i + 1) = None"
    "map_of (bm_pending m) (sint i + 2) = None"
    using old_ids [OF m(4)] id(1) by simp_all
  obtain t1 where t1: "do_get_context fl p ?g m = (sent_cmd (KCreated p ?g) (EUser (gk_err ?g)) t1 m, Inr NoCall)"
    "json_dump fl (cmd_message i ''Target.createTarget'' (json_object [(''url'', JString ''about:blank'')]) []) = Inr t1"
    using get_context_sends [OF m(1-3), of fl ?g] nid(1) id(1) by blast
  define m1 where "m1 = sent_cmd (KCreated p ?g) (EUser (gk_err ?g)) t1 m"
  obtain t2 where t2: "run_kont fl (KCreated p ?g) (json_object [(''targetId'', JString T)]) m1 =
      (sent_cmd (KAttached p T ?g) (EUser (gk_err ?g)) t2 m1, Inr None)"
    "json_dump fl (cmd_message (i + 1) ''Target.attachToTarget''
        (json_object [(''targetId'', JString T), (''flatten'', JBool True)]) []) = Inr t2"
    using created_sends [of m1 T fl p ?g] m(2) TS(1) nid(2) id(1) by (auto simp: m1_def)
  define m2 where "m2 = erase_pending (sint i) (sent_cmd (KAttached p T ?g) (EUser (gk_err ?g)) t2 m1)"
  have d1: "on_ws_message fl s1 m1 = (m2, Inr ())"
    using replies_deliver [OF r1 _ t2(1)] id(1) by (simp add: m1_def m2_def)
  have m2: "bm_cmd_id m2 = i + 2" "bm_ws_ready m2" "bm_next m2 = bm_next m"
    using id(1) m(2) by (simp_all add: m2_def m1_def add.assoc)
  obtain t3 t4 where t3: "run_kont fl (KAttached p T ?g) (json_object [(''sessionId'', JString S)]) m2 =
      (sent_cmd KNothing ENothing t4 (sent_cmd (KInit p (bm_next m) ?g) (EDrop (bm_next m)) t3
         (fst (alloc_context p T S m2))), Inr None)"
    "json_dump fl (cmd_message (i + 2) ''Page.addScriptToEvaluateOnNewDocument''
        (json_object [(''source'', JString stealth_js)]) S) = Inr t3"
    "json_dump fl (cmd_message (i + 3) ''Page.enable'' JNull S) = Inr t4"
    using attached_sends [of m2 S fl p T ?g] m2 TS(2) nid(3,4) by (auto simp: add.assoc)
  define m3 where "m3 = erase_pending (sint (i + 1)) (sent_cmd KNothing ENothing t4
      (sent_cmd (KInit p (bm_next m) ?g) (EDrop (bm_next m)) t3 (fst (alloc_context p T S m2))))"
  have p2: "map_of (bm_pending m2) (sint (i + 1)) = Some (KAttached p T ?g, EUser (gk_err ?g))"
    using id(1) si by (simp add: m2_def m1_def)
  have d2: "on_ws_message fl s2 m2 = (m3, Inr ())"
    using replies_deliver [OF r2 p2 t3(1)] by (simp add: m3_def)
  have p3: "map_of (bm_pending m3) (sint (i + 2)) = Some (KInit p (bm_next m) ?g, EDrop (bm_next m))"
    using id(1) si m2 by (simp add: m3_def add.assoc)
  have c3: "map_of (bm_contexts m3) p = None" using m(3) by (simp add: m3_def m2_def m1_def)
  define m4 where "m4 = erase_pending (sint (i + 2)) (note_call n (VCtx (bm_next m))
      (m3\<lparr>bm_contexts := mput p (bm_next m) (bm_contexts m3)\<rparr>))"
  have d3: "on_ws_message fl s3 m3 = (m4, Inr ())"
    using replies_deliver [OF r3 p3 init_caches [OF c3]] by (simp add: m4_def)
  have pend: "map_of (bm_pending m4) = (map_of (bm_pending m))(sint i + 3 \<mapsto> (KNothing, ENothing))"
    using fresh si m2(1) id(1) by (auto simp: m4_def m3_def m2_def m1_def fun_eq_iff add.assoc)
  have sent: "bm_sent m1 = bm_sent m @ [t1]" "bm_sent m2 = bm_sent m @ [t1, t2]"
    "bm_sent m3 = bm_sent m @ [t1, t2, t3, t4]" "bm_sent m4 = bm_sent m @ [t1, t2, t3, t4]"
    by (simp_all add: m4_def m3_def m2_def m1_def)
  have calm: "calm m \<longrightarrow> calm m1 \<and> calm m2 \<and> calm m3 \<and> calm m4" "bm_caught m4 = bm_caught m"
    "setting m4 = setting m"
    by (simp_all add: m4_def m3_def m2_def m1_def)
  have rest: "map_of (bm_contexts m4) = (map_of (bm_contexts m))(p \<mapsto> bm_next m)"
    "map_of (bm_heap m4) = (map_of (bm_heap m))(bm_next m \<mapsto> new_context p T S)"
    "bm_log m4 = bm_log m @ [(n, VCtx (bm_next m))]"
    by (simp_all add: m4_def m3_def m2_def m1_def)
  have flags: "bm_started m4" "bm_ws_ready m4" "bm_cmd_id m4 = i + 4"
    using m(1,2) id(1) by (simp_all add: m4_def m3_def m2_def m1_def alloc_context_def add.assoc)
  show ?thesis
    using t1 t2(2) t3(2,3) d1 d2 d3 pend sent calm rest flags unfolding m1_def [symmetric] by blast
qed

subsection \<open>Responses that arrive in a row\<close>

type_synonym arrived = "string \<times> int32 \<times> json \<times> nat"

text \<open>A response to a pending command of the user, with the number of the callback it is to reach.\<close>

definition answers_user :: "float_io \<Rightarrow> manager \<Rightarrow> arrived \<Rightarrow> bool" where
  "answers_user fl m r \<longleftrightarrow> (case r of (s, i, j, n) \<Rightarrow> replies fl s i j \<and>
     (\<exists>this e. map_of (bm_pending m) (sint i) = Some (KUser (Clo this (Fn n [])), e)))"

lemma run_user_responses:
  "\<forall>r \<in> set rs. answers_user fl m r \<Longrightarrow> distinct (map (\<lambda>r. fst (snd r)) rs) \<Longrightarrow>
   \<exists>m'. run_tasks fl (map (\<lambda>r. TMessage (fst r)) rs) m = (m', Inr ()) \<and>
     bm_log m' = bm_log m @ map (\<lambda>(s, i, j, n). (n, VJson j)) rs \<and> bm_posted m' = bm_posted m \<and>
     map_of (bm_pending m') = map_of (bm_pending m) |` (- set (map (\<lambda>r. sint (fst (snd r))) rs))"
proof (induction rs arbitrary: m)
  case Nil
  have "map_of (bm_pending m) |` UNIV = map_of (bm_pending m)" by (rule ext) simp
  then show ?case by simp
next
  case (Cons r rs)
  obtain s i j n where r: "r = (s, i, j, n)" by (cases r)
  with Cons.prems(1) obtain this e where a: "replies fl s i j"
    "map_of (bm_pending m) (sint i) = Some (KUser (Clo this (Fn n [])), e)"
    by (auto simp: answers_user_def)
  let ?m = "erase_pending (sint i) (note_call n (VJson j) m)"
  have one: "catching (run_task fl (TMessage s)) m = (?m, Inr ())"
    using replies_deliver [OF a, of m "Some (Clo this (Fn n []), VJson j)"] by (simp add: catching_def)
  have rest: "\<forall>x \<in> set rs. answers_user fl ?m x"
  proof
    fix x assume x: "x \<in> set rs"
    obtain s' i' j' n' where x': "x = (s', i', j', n')" by (cases x)
    with x r Cons.prems(2) have "i' \<noteq> i" by force
    then have "sint i' \<noteq> sint i" using signed_word_eqI by blast
    with Cons.prems(1) x x' show "answers_user fl ?m x" by (auto simp: answers_user_def)
  qed
  have d: "distinct (map (\<lambda>r. fst (snd r)) rs)" using Cons.prems(2) by (simp only: list.map distinct.simps)
  from Cons.IH [OF rest d] obtain m' where m': "run_tasks fl (map (\<lambda>r. TMessage (fst r)) rs) ?m = (m', Inr ())"
    "bm_log m' = bm_log ?m @ map (\<lambda>(s, i, j, n). (n, VJson j)) rs" "bm_posted m' = bm_posted ?m"
    "map_of (bm_pending m') = map_of (bm_pending ?m) |` (- set (map (\<lambda>r. sint (fst (snd r))) rs))"
    by blast
  have "map_of (bm_pending m') = map_of (bm_pending m) |` (- set (map (\<lambda>r. sint (fst (snd r))) (r # rs)))"
    unfolding m'(4) r by (auto simp: restrict_map_def fun_eq_iff)
  moreover have "run_tasks fl (map (\<lambda>r. TMessage (fst r)) (r # rs)) m = (m', Inr ())"
    by (simp only: r list.map run_tasks.simps fst_conv sbind_eq [of "catching (run_task fl (TMessage s))" m, OF one])
      (simp add: m'(1))
  ultimately show ?case using m'(2,3) by (intro exI [of _ m']) (simp add: r erase_pending_def note_call_def)
qed

subsection \<open>Commands before the connection is open\<close>

type_synonym command = "string \<times> json \<times> kont \<times> ekont \<times> string"

fun issue_all :: "float_io \<Rightarrow> command list \<Rightarrow> unit action" where
  "issue_all fl [] = ret ()"
| "issue_all fl ((meth, params, k, e, sid) # cs) =
     sbind (bm_send_command fl meth params k e sid) (\<lambda>_. issue_all fl cs)"

fun messages_from :: "int32 \<Rightarrow> command list \<Rightarrow> json list" where
  "messages_from i [] = []"
| "messages_from i ((meth, params, k, e, sid) # cs) = cmd_message i meth params sid # messages_from (i + 1) cs"

definition command_utf8 :: "command \<Rightarrow> bool" where
  "command_utf8 c = (case c of (meth, params, k, e, sid) \<Rightarrow> utf8_valid meth \<and> json_utf8 params \<and> utf8_valid sid)"

lemma messages_dump:
  "list_all command_utf8 cs \<Longrightarrow> \<exists>ts. map_res (json_dump fl) (messages_from i cs) = Inr ts \<and> length ts = length cs"
proof (induction cs arbitrary: i)
  case (Cons c cs)
  obtain meth params k e sid where c: "c = (meth, params, k, e, sid)" by (cases c)
  with Cons.prems obtain t where "json_dump fl (cmd_message i meth params sid) = Inr t"
    using cmd_message_dumps [of meth params sid fl i] by (auto simp: command_utf8_def)
  with Cons.IH [of "i + 1"] Cons.prems show ?case by (auto simp: c)
qed simp

text \<open>The text of each message, by its place.\<close>

lemma messages_texts:
  "map_res (json_dump fl) (messages_from i cs) = Inr ts \<Longrightarrow> k < length cs \<Longrightarrow> cs ! k = (meth, params, ok, err, sid) \<Longrightarrow>
   json_dump fl (cmd_message (i + of_nat k) meth params sid) = Inr (ts ! k)"
proof (induction cs arbitrary: i ts k)
  case (Cons c cs)
  obtain meth' params' ok' err' sid' where c: "c = (meth', params', ok', err', sid')" by (cases c)
  with Cons.prems(1) obtain t us where t: "json_dump fl (cmd_message i meth' params' sid') = Inr t"
    "map_res (json_dump fl) (messages_from (i + 1) cs) = Inr us" "ts = t # us"
    by (auto simp: bind_res_Inr_iff)
  show ?case
  proof (cases k)
    case 0
    with t c Cons.prems(3) show ?thesis by simp
  next
    case (Suc l)
    with Cons.IH [OF t(2), of l] t(3) Cons.prems(2,3) show ?thesis by (simp add: ac_simps)
  qed
qed simp

lemma sint_plus_nat: "sint (i :: int32) + int k < 2 ^ 31 \<Longrightarrow> sint (i + of_nat k) = sint i + int k"
proof (induction k)
  case (Suc k)
  then have "sint (i + of_nat k) = sint i + int k" by simp
  with Suc.prems sint_plus_one [of "i + of_nat k"] show ?case by (simp add: ac_simps)
qed simp

lemma issue_all_queues:
  "\<not> bm_ws_ready m \<Longrightarrow> sint (bm_cmd_id m) + int (length cs) < 2 ^ 31 \<Longrightarrow>
   \<exists>m'. issue_all fl cs m = (m', Inr ()) \<and> \<not> bm_ws_ready m' \<and> bm_sent m' = bm_sent m \<and>
     sint (bm_cmd_id m') = sint (bm_cmd_id m) + int (length cs) \<and>
     bm_pending_commands m' = bm_pending_commands m @ messages_from (bm_cmd_id m) cs"
proof (induction cs arbitrary: m)
  case (Cons c cs)
  obtain meth params k e sid where c: "c = (meth, params, k, e, sid)" by (cases c)
  have id: "sint (bm_cmd_id m) \<noteq> 2 ^ 31 - 1" using Cons.prems(2) by simp
  let ?m = "(put_pending (bm_cmd_id m) k e (bump_id m))
       \<lparr>bm_pending_commands := bm_pending_commands m @ [cmd_message (bm_cmd_id m) meth params sid]\<rparr>"
  have f: "\<not> bm_ws_ready ?m" "bm_cmd_id ?m = bm_cmd_id m + 1" "bm_sent ?m = bm_sent m"
    using Cons.prems(1) by (simp_all add: put_pending_def bump_id_def)
  with Cons.prems(2) have "sint (bm_cmd_id ?m) + int (length cs) < 2 ^ 31" by (simp add: sint_plus_one [OF id])
  from Cons.IH [OF f(1) this] f show ?case
    using send_queued [OF Cons.prems(1) id, of fl meth params k e sid]
    by (auto simp: c sbind_def sint_plus_one [OF id])
qed simp

lemma send_all_texts:
  "map_res (json_dump fl) js = Inr ts \<Longrightarrow> send_all fl js m = (m\<lparr>bm_sent := bm_sent m @ ts\<rparr>, Inr ())"
proof (induction js arbitrary: m ts)
  case (Cons j js)
  then obtain t us where "json_dump fl j = Inr t" "map_res (json_dump fl) js = Inr us" "ts = t # us"
    by (auto simp: bind_res_Inr_iff)
  with Cons.IH [of us "m\<lparr>bm_sent := bm_sent m @ [t]\<rparr>"] show ?case by (simp add: sbind_def send_text_def)
qed simp

lemma open_flushes:
  assumes "map_res (json_dump fl) (bm_pending_commands m) = Inr ts" "sint (bm_cmd_id m) \<noteq> 2 ^ 31 - 1"
  shows "\<exists>t m'. on_ws_open fl m = (m', Inr ()) \<and> bm_ws_ready m' \<and> bm_pending_commands m' = [] \<and>
    bm_sent m' = bm_sent m @ ts @ [t] \<and>
    json_dump fl (cmd_message (bm_cmd_id m) ''Page.enable'' (JObject []) []) = Inr t"
proof -
  obtain t where t: "json_dump fl (cmd_message (bm_cmd_id m) ''Page.enable'' (JObject []) []) = Inr t"
    using cmd_message_dumps [OF utf8_names(14) _ utf8_empty, of "JObject []" fl "bm_cmd_id m"] by auto
  have "send_all fl (bm_pending_commands m) (m\<lparr>bm_ws_ready := True\<rparr>) =
      (m\<lparr>bm_ws_ready := True, bm_sent := bm_sent m @ ts\<rparr>, Inr ())"
    using send_all_texts [OF assms(1), of "m\<lparr>bm_ws_ready := True\<rparr>"] by simp
  with t assms(2) show ?thesis
    by (auto simp: on_ws_open_def sbind_def next_cmd_id_def put_pending_def send_text_def)
qed

subsection \<open>Two contexts for one platform, and a context that is not initialised\<close>

lemma on_cached_context:
  assumes "bm_inv {} m" "map_of (bm_pending m) (sint i) = Some (KInit p h (GetCtx (Clo this (Fn n [])) err), e)"
    and "map_of (bm_contexts m) p = Some old" "replies fl s i j"
  shows "\<exists>m'. on_ws_message fl s m = (m', Inr ()) \<and> map_of (bm_contexts m') p = Some h \<and>
    map_of (bm_heap m') old = None \<and> live m' h p \<and> bm_log m' = bm_log m @ [(n, VCtx h)]"
proof -
  note new = pend_okD [OF bm_invD(5) [OF assms(1,2)], simplified]
  from bm_invD(4) [OF assms(1,3)] obtain c where c: "map_of (bm_heap m) old = Some c" by (auto simp: live_def)
  let ?m = "fst (reset_context p h m)"
  have r: "reset_context p h m = (?m, Inr ())" "map_of (bm_contexts ?m) p = Some h"
    "map_of (bm_heap ?m) old = None" "bm_log ?m = bm_log m"
    using assms(3) c by (simp_all add: reset_context_def destroy_context_def)
  have "old \<noteq> h" using new(3) assms(3) by blast
  with new(2) assms(3) c have alive: "live ?m h p" by (auto simp: live_def reset_context_def destroy_context_def)
  have "run_kont fl (KInit p h (GetCtx (Clo this (Fn n [])) err)) j m =
      (?m, Inr (Some (Clo this (Fn n []), VCtx h)))"
    by (simp add: cache_context_def sbind_eq [of "reset_context p h" m, OF r(1)])
  from replies_deliver [OF assms(4,2) this] r(2-4) alive show ?thesis by (simp add: live_def)
qed

lemma dangling_call:
  "map_of (bm_heap m) h = None \<Longrightarrow> api_call fl this (Page (Ctx h) ops) ok err m = (m, Inl Undefined)"
  by (simp add: ctx_of_ref_def deref_def sbind_def)

lemma on_first_context:
  assumes "map_of (bm_pending m) (sint i) = Some (KInit p h (GetCtx (Clo this (Fn n [])) err), e)"
    and "map_of (bm_contexts m) p = None" "replies fl s i j"
  shows "on_ws_message fl s m =
    (erase_pending (sint i) (note_call n (VCtx h) (m\<lparr>bm_contexts := mput p h (bm_contexts m)\<rparr>)), Inr ())"
  using replies_deliver [OF assms(3,1) init_caches [OF assms(2)]] by simp

lemma init_failure:
  assumes "bm_inv {} m" "map_of (bm_pending m) (sint i) = Some (KInit p h g, e)" "fails fl s i err"
  shows "\<exists>m'. on_ws_message fl s m = (m', Inr ()) \<and> bm_log m' = bm_log m \<and> bm_contexts m' = bm_contexts m \<and>
    map_of (bm_heap m') h = None \<and> map_of (bm_pending m') (sint i) = None"
proof -
  note ok = pend_okD [OF bm_invD(5) [OF assms(1,2)], simplified]
  from ok(2) obtain c where c: "map_of (bm_heap m) h = Some c" by (auto simp: live_def)
  let ?m = "fst (destroy_context h m)"
  have d: "destroy_context h m = (?m, Inr ())" "bm_log ?m = bm_log m" "map_of (bm_heap ?m) h = None"
    using c by (simp_all add: destroy_context_def)
  have "run_ekont fl e err m = (?m, Inr None)"
    using ok(1) by (simp add: sbind_eq [of "destroy_context h" m, OF d(1)])
  from fails_deliver [OF assms(3,2) this] d show ?thesis by simp
qed

subsection \<open>A close that fails\<close>

lemma close_failure:
  assumes m: "bm_started m" "bm_ws_ready m" "sint (bm_cmd_id m) \<noteq> 2 ^ 31 - 1"
    and h: "map_of (bm_contexts m) p = Some h" "map_of (bm_heap m) h = Some c" "\<not> bc_closed c"
    and u: "utf8_valid (bc_target c)" and f: "fails fl s (bm_cmd_id m) msg"
  shows "\<exists>m1 m'. page_call fl h c CloseContext ok (Clo this (Fn n [])) m = (m1, Inr NoCall) \<and>
    on_ws_message fl s m1 = (m', Inr ()) \<and> bm_log m' = bm_log m @ [(n, VStr msg)] \<and>
    map_of (bm_contexts m') p = Some h \<and> map_of (bm_heap m') h = Some (c\<lparr>bc_closed := True\<rparr>) \<and> bm_started m'"
proof -
  let ?m = "set_context h (c\<lparr>bc_closed := True\<rparr>) m"
  have f1: "bm_ws_ready ?m" "bm_cmd_id ?m = bm_cmd_id m" "bm_log ?m = bm_log m" "bm_contexts ?m = bm_contexts m"
    "map_of (bm_heap ?m) h = Some (c\<lparr>bc_closed := True\<rparr>)" "bm_started ?m"
    using m by (simp_all add: set_context_def)
  have "json_utf8 (json_object [(''targetId'', JString (bc_target c))])"
    using u by (intro json_utf8_object) (simp add: utf8_names del: utf8_valid.simps)
  from cmd_message_dumps [OF utf8_names(17) this utf8_empty, of fl "bm_cmd_id ?m"] obtain t where
    "json_dump fl (cmd_message (bm_cmd_id ?m) ''Target.closeTarget''
       (json_object [(''targetId'', JString (bc_target c))]) []) = Inr t" ..
  note t = send_ready [OF f1(1) _ this]
  let ?m1 = "sent_cmd (KClose h ok) (EUser (Clo this (Fn n []))) t ?m"
  have "page_call fl h c CloseContext ok (Clo this (Fn n [])) m = (?m1, Inr NoCall)"
    using t m(3) f1(2) h(3) by (simp add: bc_close_def no_reply_def sbind_def)
  moreover have "map_of (bm_pending ?m1) (sint (bm_cmd_id m)) = Some (KClose h ok, EUser (Clo this (Fn n [])))"
    using f1(2) by simp
  from fails_deliver [OF f this] have "on_ws_message fl s ?m1 =
      (erase_pending (sint (bm_cmd_id m)) (note_call n (VStr msg) ?m1), Inr ())" by simp
  ultimately show ?thesis using f1 h(1) by simp
qed

text \<open>Which operations look at the mark of a closed context.\<close>

lemma closed_page_calls:
  assumes "bc_closed c"
  shows "\<forall>css txt dx dy key timeout. \<forall>op \<in> {Click css, TypeText css txt, Scroll dx dy, PressKey key, Hover css,
      ExistsSelector css, WaitForSelector css timeout}. page_call fl h c op ok err m = (m, Inr (CallErr ''context closed''))"
    and "page_call fl h c CloseContext ok err m = (m, Inr (CallErr ''already closed''))"
  using assms
  by (simp_all add: bc_click_def bc_type_def bc_scroll_def bc_press_key_def bc_hover_def bc_exists_def
      bc_wait_for_selector_def bc_close_def)

lemma unmarked_page_calls:
  "\<forall>url js path meth params. \<forall>op \<in> {Navigate url, Evaluate js, AddInitScript js, CurrentUrl, Screenshot path,
      SendCommand meth params, DumpStructure}.
    page_call fl h (c\<lparr>bc_closed := b\<rparr>) op ok err m = page_call fl h c op ok err m"
  by (simp add: bc_navigate_def bc_evaluate_def bc_add_init_script_def bc_current_url_def bc_screenshot_def
      bc_send_command_def dump_page_structure_def)

subsection \<open>Sessions\<close>

lemma session_path_nonempty [simp]: "session_path c p \<noteq> []"
  by (simp add: session_path_def Let_def)

text \<open>A path a file can be written to: a file, or a new name in a directory.\<close>

definition writable :: "fs \<Rightarrow> string \<Rightarrow> bool" where
  "writable f path \<longleftrightarrow> snd (open_out False (resolve f path) f)"

lemma write_then_slurp:
  assumes "writable f path" "path \<noteq> []"
  shows "slurp_file (write_file path data f) path = data"
proof -
  obtain f1 where o: "open_out False (resolve f path) f = (f1, True)"
    using assms(1) by (cases "open_out False (resolve f path) f") (simp add: writable_def)
  then have "fs_node f1 (resolve f path) = Some (File [])" "fs_cwd f1 = fs_cwd f"
    by (auto simp: open_out_def split: option.splits node.splits if_splits)
  then show ?thesis
    using o assms(2) by (simp add: slurp_file_def write_file_def file_content_def Let_def write_out_def resolve_def)
qed

lemma write_unwritable: "\<not> writable f path \<Longrightarrow> write_file path data f = f"
  by (auto simp: writable_def write_file_def Let_def write_out_def open_out_def split: option.splits node.splits if_splits)

text \<open>A screenshot.\<close>

lemma shot_written:
  assumes "base64_decode data = img" "path \<noteq> []" "writable (bm_fs m) path"
  shows "\<exists>m'. run_kont fl (KShot path ok err) (json_object [(''data'', JString data)]) m = (m', Inr (Some (ok, VUnit))) \<and>
    slurp_file (bm_fs m') path = img"
proof -
  have "write_shot path data (bm_fs m) = (write_file path img (bm_fs m), True)"
    using assms(1,3) by (cases "open_out False (resolve (bm_fs m) path) (bm_fs m)")
      (simp add: write_shot_def write_file_def writable_def Let_def)
  with write_then_slurp [OF assms(3,2)] show ?thesis
    by (simp add: json_index_const_object)
qed

lemma shot_refused:
  assumes "\<not> writable (bm_fs m) path"
  shows "run_kont fl (KShot path ok err) (json_object [(''data'', JString data)]) m =
    (m, Inr (Some (err, VStr ''screenshot: cannot write file'')))"
proof -
  have "write_shot path data (bm_fs m) = (bm_fs m, False)"
    using assms by (auto simp: write_shot_def writable_def Let_def open_out_def split: option.splits node.splits if_splits)
  then show ?thesis by (simp add: json_index_const_object)
qed

lemma save_cookies_ok:
  assumes "json_utf8 cookies"
  shows "\<exists>doc. json_dump_indent fl 2 (json_object [(''cookies'', cookies)]) = Inr doc \<and>
    run_kont fl (KCookies p ok) (json_object [(''cookies'', cookies)]) m =
      (m\<lparr>bm_fs := write_file (session_path (bm_config m) p) doc (bm_fs m)\<rparr>, Inr (Some (ok, VUnit)))"
proof -
  have "json_utf8 (json_object [(''cookies'', cookies)])"
    using assms by (intro json_utf8_object) (simp add: utf8_names del: utf8_valid.simps)
  then obtain doc where "json_dump_indent fl 2 (json_object [(''cookies'', cookies)]) = Inr doc"
    using dump_val_ok_iff [of fl True 2 0 "json_object [(''cookies'', cookies)]"]
    unfolding json_dump_indent_def by blast
  then show ?thesis by (simp add: save_cookies_def json_index_const_object sbind_lifted)
qed

lemma norm_object_single: "norm_json (json_object [(k, v)]) = json_object [(k, norm_json v)]"
  by (simp add: json_object_def map_list_def)

lemma json_utf8_norm: "json_utf8 j \<Longrightarrow> json_utf8 (norm_json j)"
proof (induction j)
  case (JArray js)
  then show ?case by (simp add: list_all_iff)
next
  case (JObject kvs)
  then show ?case by (force simp: list_all_iff)
qed simp_all

lemma session_restored:
  assumes fl: "float_io_ok fl" and cookies: "wf_json cookies" "json_utf8 cookies"
    and w: "writable (bm_fs m) (session_path (bm_config m) p)"
    and m: "bm_started m" "bm_ws_ready m" "sint (bm_cmd_id m) \<noteq> 2 ^ 31 - 1"
    and h: "map_of (bm_contexts m) p = Some h" "map_of (bm_heap m) h = Some c" "utf8_valid (bc_session c)"
  shows "\<exists>m1 s. run_kont fl (KCookies p ok) (json_object [(''cookies'', cookies)]) m = (m1, Inr (Some (ok, VUnit))) \<and>
    bm_sent m1 = bm_sent m \<and>
    restore_session fl p ok' err' m1 = (sent_cmd (KRestored ok') (EUser err') s m1, Inr NoCall) \<and>
    json_dump fl (cmd_message (bm_cmd_id m) ''Storage.setCookies''
       (json_object [(''cookies'', norm_json cookies)]) (bc_session c)) = Inr s"
proof -
  obtain doc where doc: "json_dump_indent fl 2 (json_object [(''cookies'', cookies)]) = Inr doc"
    and save: "run_kont fl (KCookies p ok) (json_object [(''cookies'', cookies)]) m =
      (m\<lparr>bm_fs := write_file (session_path (bm_config m) p) doc (bm_fs m)\<rparr>, Inr (Some (ok, VUnit)))"
    using save_cookies_ok [OF cookies(2), of fl p ok m] by blast
  let ?m = "m\<lparr>bm_fs := write_file (session_path (bm_config m) p) doc (bm_fs m)\<rparr>"
  have wf: "wf_json (json_object [(''cookies'', cookies)])"
    using cookies(1) by (simp add: json_object_def map_list_def)
  have parse: "json_parse_noexc fl doc = Some (json_object [(''cookies'', norm_json cookies)])"
    using parse_dump_indent [OF fl wf doc] by (simp add: json_parse_noexc_def norm_object_single)
  have "doc \<noteq> []"
  proof
    assume "doc = []"
    with parse have "json_parse fl [] = Inr (json_object [(''cookies'', norm_json cookies)])"
      by (simp add: json_parse_noexc_def split: sum.splits)
    then show False by (simp add: json_parse_def skip_bom_def scan_def parse_value.simps)
  qed
  then have restore: "restore_session fl p ok' err' ?m =
      do_get_context fl p (RestoreCtx (json_object [(''cookies'', norm_json cookies)]) ok' err') ?m"
    using parse by (simp add: restore_session_def write_then_slurp [OF w])
  have "json_utf8 (json_object [(''cookies'', norm_json cookies)])"
    using json_utf8_norm [OF cookies(2)] by (intro json_utf8_object) (simp add: utf8_names del: utf8_valid.simps)
  from cmd_message_dumps [OF utf8_names(16) this h(3), of fl "bm_cmd_id m"] obtain s where
    s: "json_dump fl (cmd_message (bm_cmd_id m) ''Storage.setCookies''
       (json_object [(''cookies'', norm_json cookies)]) (bc_session c)) = Inr s" ..
  have "bm_send_command fl ''Storage.setCookies'' (json_object [(''cookies'', norm_json cookies)])
      (KRestored ok') (EUser err') (bc_session c) ?m = (sent_cmd (KRestored ok') (EUser err') s ?m, Inr ())"
    using m s by (intro send_ready) simp_all
  then have "do_get_context fl p (RestoreCtx (json_object [(''cookies'', norm_json cookies)]) ok' err') ?m =
      (sent_cmd (KRestored ok') (EUser err') s ?m, Inr NoCall)"
    using m h by (simp add: do_get_context_def json_index_const_object deref_def no_reply_def sbind_def)
  with save restore s show ?thesis by auto
qed

subsection \<open>Stopping\<close>

lemma destroy_all_ok:
  "distinct hs \<Longrightarrow> (\<And>h. h \<in> set hs \<Longrightarrow> map_of (bm_heap m) h \<noteq> None) \<Longrightarrow>
   \<exists>m'. destroy_all hs m = (m', Inr ()) \<and> (\<forall>h. map_of (bm_heap m') h = (if h \<in> set hs then None else map_of (bm_heap m) h)) \<and>
     bm_contexts m' = bm_contexts m \<and> bm_pid m' = bm_pid m \<and> bm_killed m' = bm_killed m \<and> bm_posted m' = bm_posted m \<and>
     bm_done m' = bm_done m \<and> bm_log m' = bm_log m"
proof (induction hs arbitrary: m)
  case (Cons h hs)
  from Cons.prems(2) [of h] obtain c where c: "map_of (bm_heap m) h = Some c" by auto
  let ?m = "fst (destroy_context h m)"
  have d: "destroy_context h m = (?m, Inr ())" "map_of (bm_heap ?m) = (map_of (bm_heap m))(h := None)"
    "bm_contexts ?m = bm_contexts m" "bm_pid ?m = bm_pid m" "bm_killed ?m = bm_killed m" "bm_posted ?m = bm_posted m"
    "bm_done ?m = bm_done m" "bm_log ?m = bm_log m"
    using c by (simp_all add: destroy_context_def)
  have "\<And>k. k \<in> set hs \<Longrightarrow> map_of (bm_heap ?m) k \<noteq> None" using Cons.prems d(2) by auto
  with Cons.IH [of ?m] Cons.prems(1) obtain m' where "destroy_all hs ?m = (m', Inr ())"
    "\<forall>k. map_of (bm_heap m') k = (if k \<in> set hs then None else map_of (bm_heap ?m) k)"
    "bm_contexts m' = bm_contexts ?m \<and> bm_pid m' = bm_pid ?m \<and> bm_killed m' = bm_killed ?m \<and> bm_posted m' = bm_posted ?m \<and>
     bm_done m' = bm_done ?m \<and> bm_log m' = bm_log ?m"
    by auto
  with d show ?case
    by (intro exI [of _ m']) (simp add: sbind_eq [of "destroy_context h" m, OF d(1)])
qed simp

lemma launches_done_fields [simp]:
  "bm_pid (launches_done m) = bm_pid m" "bm_killed (launches_done m) = bm_killed m"
  "bm_timers (launches_done m) = bm_timers m" "bm_sched (launches_done m) = bm_sched m"
  "bm_posted (launches_done m) = bm_posted m" "bm_log (launches_done m) = bm_log m"
proof -
  have "(\<lambda>m. (bm_pid m, bm_killed m, bm_timers m, bm_sched m, bm_posted m, bm_log m)) (foldl (\<lambda>m ls. launch_done ls m) x lss) =
      (bm_pid x, bm_killed x, bm_timers x, bm_sched x, bm_posted x, bm_log x)" for x lss
  proof (induction lss arbitrary: x)
    case (Cons ls lss)
    then show ?case by (simp add: launch_done_def)
  qed simp
  from this [of "m\<lparr>bm_done := []\<rparr>" "bm_done m"]
  show "bm_pid (launches_done m) = bm_pid m" "bm_killed (launches_done m) = bm_killed m"
    "bm_timers (launches_done m) = bm_timers m" "bm_sched (launches_done m) = bm_sched m"
    "bm_posted (launches_done m) = bm_posted m" "bm_log (launches_done m) = bm_log m"
    by (simp_all add: launches_done_def)
qed

lemma stop_releases:
  assumes inv: "bm_inv {} m" and "bm_started m"
  shows "\<exists>m'. bm_stop m = (m', Inr ()) \<and> bm_contexts m' = [] \<and> \<not> bm_started m' \<and> \<not> sint (bm_pid m') > 0 \<and>
    (\<forall>p h. map_of (bm_contexts m) p = Some h \<longrightarrow> map_of (bm_heap m') h = None) \<and>
    bm_killed m' = bm_killed m @ (if sint (bm_pid m) > 0 then [bm_pid m] else []) \<and>
    bm_timers m' = [] \<and> \<not> bm_sched m' \<and> bm_posted m' = bm_posted m \<and> bm_log m' = bm_log m"
proof -
  have cached: "map_of (bm_contexts m) p = Some h" if "(p, h) \<in> set (bm_contexts m)" for p h
    using that bm_invD(1) [OF inv] by (simp add: map_of_Some_iff_set)
  have "inj_on snd (set (bm_contexts m))"
  proof (rule inj_onI)
    fix x y
    assume xy: "x \<in> set (bm_contexts m)" "y \<in> set (bm_contexts m)" "snd x = snd y"
    then have "live m (snd x) (fst x)" "live m (snd x) (fst y)"
      using bm_invD(4) [OF inv] cached by (metis prod.collapse)+
    with xy(3) show "x = y" using live_unique by (metis prod.collapse)
  qed
  moreover have "distinct (bm_contexts m)"
    using msorted_distinct [OF bm_invD(1) [OF inv]] by (simp add: distinct_map)
  ultimately have dist: "distinct (map snd (bm_contexts m))" by (simp add: distinct_map)
  have alive: "map_of (bm_heap m) h \<noteq> None" if "h \<in> set (map snd (bm_contexts m))" for h
    using that cached bm_invD(4) [OF inv] by (force simp: live_def)
  obtain m1 where m1: "clear_contexts m = (m1, Inr ())" "bm_contexts m1 = []"
    "\<And>h. map_of (bm_heap m1) h = (if h \<in> set (map snd (bm_contexts m)) then None else map_of (bm_heap m) h)"
    "bm_pid m1 = bm_pid m" "bm_killed m1 = bm_killed m" "bm_posted m1 = bm_posted m" "bm_log m1 = bm_log m"
    using destroy_all_ok [OF dist, of "m\<lparr>bm_contexts := []\<rparr>"] alive
    by (auto simp: clear_contexts_def)
  let ?m' = "(launches_done ((kill_chrome (m1\<lparr>bm_ws_started := False\<rparr>))
     \<lparr>bm_timers := [], bm_sched := False, bm_wake := False\<rparr>))\<lparr>bm_started := False, bm_crashed := False\<rparr>"
  have stop: "bm_stop m = (?m', Inr ())" using assms(2) m1(1) by (simp add: bm_stop_def sbind_def)
  have core: "bm_heap ?m' = bm_heap m1" "bm_contexts ?m' = bm_contexts m1"
    using core_stop_tail [of m1] by (simp_all add: core_def)
  have "map_of (bm_heap ?m') h = None" if "map_of (bm_contexts m) p = Some h" for p h
    using map_of_SomeD [OF that] m1(3) unfolding core by force
  moreover have "\<not> 0 < sint (bm_pid ?m')" using m1(4) by (simp add: kill_chrome_def)
  ultimately show ?thesis
    using stop m1 core by (intro exI [of _ ?m']) (simp add: kill_chrome_def)
qed

end
