(* ===== verification/Cdp_Waits.thy ===== *)
theory Cdp_Waits
  imports Cdp_Runs
begin

text \<open>
  wait_for_selector: the three places where a wait goes on (its check on the loop thread, the answer and
  the failure of its question to Chrome), and that together they call one of the two callbacks at most.
\<close>

text \<open>A wait that is over; it stays over in every run, exceptions included.\<close>

definition wait_over :: "nat \<Rightarrow> manager \<Rightarrow> bool" where
  "wait_over w m \<longleftrightarrow> w < length (bm_waits m) \<and> wt_done (bm_waits m ! w)"

lemma wait_over_set: "wait_over w m \<Longrightarrow> wait_over w (set_wait_done v m)"
  by (cases "v = w") (simp_all add: wait_over_def set_wait_done_def)

lemma set_wait_over: "w < length (bm_waits m) \<Longrightarrow> wait_over w (set_wait_done w m)"
  by (simp add: wait_over_def set_wait_done_def)

lemma wait_over_clear [simp]:
  "wait_over w (fst (destroy_context h m)) = wait_over w m"
  "wait_over w (fst (remove_context p m)) = wait_over w m"
  "wait_over w (fst (reset_context p h m)) = wait_over w m"
  "wait_over w (fst (alloc_context p t s m)) = wait_over w m"
  by (simp_all add: wait_over_def destroy_context_def remove_context_def reset_context_def
      alloc_context_def Let_def split: option.split)

lemma wait_over_destroy_all [simp]: "wait_over w (fst (destroy_all hs m)) = wait_over w m"
proof (induction hs arbitrary: m)
  case (Cons h hs)
  obtain m1 r where d: "destroy_context h m = (m1, r)" by fastforce
  with Cons.IH [of m1] wait_over_clear(1) [of w h m] show ?case by (auto simp: sbind_def split: sum.split)
qed simp

lemma wait_over_waits: "bm_waits m' = bm_waits m \<Longrightarrow> wait_over w m \<Longrightarrow> wait_over w m'"
  by (simp add: wait_over_def)

interpretation over: robust_property "\<lambda>X. wait_over w" for w
proof unfold_locales
  show "wait_over w (fst (clear_contexts m))" if "wait_over w m" for m
    using that by (auto simp: clear_contexts_def Let_def intro: wait_over_waits)
  show "wait_over w (m\<lparr>bm_waits := bm_waits m @ [wt]\<rparr>)" if "wait_over w m" for m wt
    using that by (simp add: wait_over_def nth_append)
  show "wait_over w (set_wait_done v m)" if "wait_over w m" for m v
    using that by (rule wait_over_set)
qed (simp_all add: wait_over_def core_def bump_id_def put_pending_def alloc_context_def set_context_def
      erase_pending_def wait_over_clear [unfolded wait_over_def])

subsection \<open>The turns of a wait\<close>

definition check_turn :: "float_io \<Rightarrow> nat \<Rightarrow> ucall action" where
  "check_turn fl w = sbind (check_wait fl w)
     (\<lambda>r m. (m, Inr (reply_call (wt_found (bm_waits m ! w)) (wt_lost (bm_waits m ! w)) r)))"

lemma task_check_turn: "run_task fl (TCheck w) m = sbind (check_turn fl w) (call_user fl) m"
  by (auto simp: check_turn_def sbind_def split: prod.split sum.split)

inductive wait_turn :: "float_io \<Rightarrow> nat \<Rightarrow> ucall action \<Rightarrow> bool" for fl w where
  checked: "wait_turn fl w (check_turn fl w)"
| answered: "wait_turn fl w (run_rk fl (RWait w) j)"
| refused: "wait_turn fl w (run_ekont fl (EWait w) err)"

text \<open>What can happen after a turn: the caller's callback runs, the answered command is erased, and
  anything that the client, the connection and the loop do.\<close>

inductive later :: "float_io \<Rightarrow> manager \<Rightarrow> manager \<Rightarrow> bool" for fl m where
  now: "later fl m m"
| callback: "later fl m m1 \<Longrightarrow> later fl m (fst (call_clo fl cb v m1))"
| erased: "later fl m m1 \<Longrightarrow> later fl m (erase_pending i m1)"
| event: "later fl m m1 \<Longrightarrow> later fl m (fst (bm_do fl ev m1))"

lemma later_over: "later fl m m' \<Longrightarrow> wait_over w m \<Longrightarrow> wait_over w m'"
proof (induction rule: later.induct)
  case (callback m1 cb v)
  then show ?case using over.call_clo_keeps by (simp add: keeps_def)
next
  case (event m1 ev)
  then show ?case using over.bm_do_robust by blast
qed (simp_all add: over.P_erase)

lemma over_silent: "wait_turn fl w a \<Longrightarrow> wait_over w m \<Longrightarrow> a m = (m, Inr None)"
  by (induction rule: wait_turn.induct) (simp_all add: wait_over_def check_turn_def check_wait_def sbind_def)

text \<open>What a turn can tell the caller.\<close>

definition waited_ms :: "manager \<Rightarrow> nat \<Rightarrow> int" where
  "waited_ms m w = int ((bm_now m - wt_start (bm_waits m ! w)) div 10 ^ 6)"

lemma send_waits: "bm_send_command fl meth params k e sid m = (m', r) \<Longrightarrow> bm_waits m' = bm_waits m"
  by (auto simp: bm_send_command_def next_cmd_id_def put_pending_def send_text_def sbind_def Let_def
      split: if_splits sum.splits)

lemma check_wait_cases:
  assumes "check_wait fl w m = (m1, Inr rep)"
  obtains (silent) "rep = NoCall" "bm_waits m1 = bm_waits m \<or> m1 = set_wait_done w m"
  | (timeout) "w < length (bm_waits m)" "m1 = set_wait_done w m" "sint (wt_timeout (bm_waits m ! w)) \<le> waited_ms m w"
      "rep = CallErr (''wait_for_selector timeout ('' @ wt_css (bm_waits m ! w) @ '')'')"
  using assms
  by (auto simp: check_wait_def waited_ms_def Let_def bc_evaluate_def no_reply_def
      sbind_def deref_def split: if_splits option.splits prod.splits sum.splits dest: send_waits)

lemma set_wait_fields [simp]:
  "w < length (bm_waits m) \<Longrightarrow> wt_found (bm_waits (set_wait_done w m) ! w) = wt_found (bm_waits m ! w)"
  "w < length (bm_waits m) \<Longrightarrow> wt_lost (bm_waits (set_wait_done w m) ! w) = wt_lost (bm_waits m ! w)"
  by (simp_all add: set_wait_done_def)

definition wait_answer :: "float_io \<Rightarrow> nat \<Rightarrow> ucall action \<Rightarrow> manager \<Rightarrow> clo \<Rightarrow> uval \<Rightarrow> bool" where
  "wait_answer fl w a m cb v \<longleftrightarrow>
     (cb = wt_found (bm_waits m ! w) \<and> v = VUnit \<and> (\<exists>j. a = run_rk fl (RWait w) j \<and> value_true j = Inr True)) \<or>
     (cb = wt_lost (bm_waits m ! w) \<and> v = VStr (''wait_for_selector timeout ('' @ wt_css (bm_waits m ! w) @ '')'') \<and>
      sint (wt_timeout (bm_waits m ! w)) \<le> waited_ms m w)"

lemma check_answer:
  assumes "check_wait fl w m = (m1, Inr rep)" "reply_call (wt_found (bm_waits m ! w)) (wt_lost (bm_waits m ! w)) rep = Some (cb, v)"
  shows "wait_answer fl w a m cb v \<and> wait_over w m1"
  using assms(1)
proof (cases rule: check_wait_cases)
  case timeout
  with assms(2) show ?thesis by (auto simp: wait_answer_def set_wait_over)
qed (use assms(2) in simp)

lemma turn_answer:
  assumes "wait_turn fl w a" "a m = (m1, Inr (Some (cb, v)))"
  shows "wait_answer fl w a m cb v \<and> wait_over w m1"
  using assms
proof (induction rule: wait_turn.induct)
  case checked
  then obtain rep where rep: "check_wait fl w m = (m1, Inr rep)"
    "reply_call (wt_found (bm_waits m1 ! w)) (wt_lost (bm_waits m1 ! w)) rep = Some (cb, v)"
    by (auto simp: check_turn_def sbind_def split: prod.splits sum.splits)
  moreover from rep(1) have "rep = NoCall \<or> wt_found (bm_waits m1 ! w) = wt_found (bm_waits m ! w) \<and>
      wt_lost (bm_waits m1 ! w) = wt_lost (bm_waits m ! w)"
    by (cases rule: check_wait_cases) simp_all
  ultimately show ?case using check_answer [OF rep(1)] by auto
next
  case (answered j)
  show ?case
  proof (cases "value_true j")
    case (Inr found)
    with answered show ?thesis
      using check_answer [of fl w m m1 _ cb v "run_rk fl (RWait w) j"]
      by (cases found) (auto simp: wait_answer_def sbind_def set_wait_over not_le split: prod.splits sum.splits if_splits)
  qed (use answered in \<open>auto simp: sbind_def split: if_splits\<close>)
next
  case (refused err)
  then show ?case
    using check_answer [of fl w m m1 _ cb v "run_ekont fl (EWait w) err"]
    by (auto simp: sbind_def split: prod.splits sum.splits if_splits)
qed

text \<open>The deadline is looked at in the next turn of the wait: a live context that has waited too long is
  told so.\<close>

lemma late_turn:
  assumes "w < length (bm_waits m)" "\<not> wt_done (bm_waits m ! w)"
    and "map_of (bm_heap m) (wt_ctx (bm_waits m ! w)) = Some c" "\<not> bc_closed c"
    and "sint (wt_timeout (bm_waits m ! w)) \<le> waited_ms m w"
  shows "run_ekont fl (EWait w) err m = (set_wait_done w m,
      Inr (Some (wt_lost (bm_waits m ! w), VStr (''wait_for_selector timeout ('' @ wt_css (bm_waits m ! w) @ '')''))))"
    and "check_turn fl w m = run_ekont fl (EWait w) err m"
  using assms by (simp_all add: check_turn_def check_wait_def waited_ms_def deref_def sbind_def Let_def)

end
