(* ===== verification/Cdp_Samples.thy ===== *)
theory Cdp_Samples
  imports Cdp_Flows Cdp_Waits Samples
begin

text \<open>
  Concrete messages and runs of the browser manager: Chrome starts, the connection opens, a context
  is obtained and cached.
\<close>

subsection \<open>Messages\<close>

lemma contains_norm: "json_contains (norm_json (json_object kvs)) k \<longleftrightarrow> map_of (rev kvs) k \<noteq> None"
proof -
  have "rev (map (\<lambda>kv. (fst kv, f (snd kv))) kvs) = map (\<lambda>(k, v). (k, f v)) (rev kvs)" for f :: "json \<Rightarrow> json"
    by (simp add: rev_map case_prod_unfold)
  then show ?thesis
    unfolding norm_json_value by (simp add: json_object_def map_of_map_list map_of_map)
qed

lemma index_norm:
  "json_index_mut (norm_json (json_object kvs)) k =
     Inr (case map_of (rev kvs) k of Some v \<Rightarrow> norm_json v | None \<Rightarrow> JNull)"
proof -
  have "rev (map (\<lambda>kv. (fst kv, f (snd kv))) kvs) = map (\<lambda>(k, v). (k, f v)) (rev kvs)" for f :: "json \<Rightarrow> json"
    by (simp add: rev_map case_prod_unfold)
  then show ?thesis
    by (simp add: norm_json_value json_index_mut_object map_of_map split: option.split)
qed

lemma response_text:
  assumes "float_io_ok fl" "wf_json j" "json_utf8 j"
  shows "\<exists>s. replies fl s i (norm_json j)"
proof -
  have u: "json_utf8 (response i j)"
    unfolding response_def using assms(3) utf8_ascii [of "''result''"]
    by (intro json_utf8_object) (simp add: utf8_names json_of_int_def del: utf8_valid.simps)
  have w: "wf_json (response i j)"
    unfolding response_def using assms(2) by (intro wf_json_object) simp
  from dump_ok [OF u] obtain s where "json_dump fl (response i j) = Inr s" ..
  from parse_dump [OF assms(1) w this] have "json_parse_noexc fl s = Some (norm_json (response i j))"
    by (simp add: json_parse_noexc_def)
  moreover have "is_response (norm_json (response i j)) i (norm_json j)"
    by (simp add: is_response_def response_def contains_norm index_norm)
  ultimately show ?thesis unfolding replies_def by blast
qed

lemma failure_text:
  assumes "float_io_ok fl" "utf8_valid err"
  shows "\<exists>s. fails fl s i err"
proof -
  have e: "json_utf8 (json_object [(''message'', JString err)])"
    using assms(2) utf8_ascii [of "''message''"] by (intro json_utf8_object) (simp del: utf8_valid.simps)
  have u: "json_utf8 (failure i err)"
    unfolding failure_def using e utf8_ascii [of "''error''"]
    by (intro json_utf8_object) (simp add: utf8_names json_of_int_def del: utf8_valid.simps)
  have w: "wf_json (failure i err)"
    unfolding failure_def by (intro wf_json_object) (simp add: wf_json_object)
  from dump_ok [OF u] obtain s where "json_dump fl (failure i err) = Inr s" ..
  from parse_dump [OF assms(1) w this] have "json_parse_noexc fl s = Some (norm_json (failure i err))"
    by (simp add: json_parse_noexc_def)
  moreover have "is_failure (norm_json (failure i err)) i err"
    by (simp add: is_failure_def failure_def contains_norm index_norm)
  ultimately show ?thesis unfolding fails_def by blast
qed

lemma reply_single:
  assumes "utf8_valid k" "utf8_valid v"
  shows "\<exists>s. replies bits_float_io s i (json_object [(k, JString v)])"
  using response_text [OF bits_float_io_ok, of "json_object [(k, JString v)]" i] assms
  by (simp add: norm_object_single wf_json_object json_utf8_object)

lemma utf8_T_S: "utf8_valid ''T''" "utf8_valid ''S''"
  by code_simp+

subsection \<open>Chrome starts and the connection opens\<close>

definition sample_url :: string where
  "sample_url = ''ws://127.0.0.1:35001/devtools''"

definition sample_os :: os_oracle where
  "sample_os = \<lparr>os_executable = (\<lambda>p. p = ''chromium''), os_pipe = True, os_fork = Some 42,
     os_polls = [PollTimeout, ReadData (''DevTools listening on '' @ sample_url @ [line_feed])],
     os_connections = [NoConnection]\<rparr>"

definition opened_run :: "bm_event list" where
  "opened_run = [BeStart, BeLaunch sample_os, BeStep, BeWs WsOpen, BeStep]"

lemma sample_read: "read_url 60 [] (os_polls sample_os) = sample_url"
  by code_simp

lemma sample_launch:
  "\<exists>ls. launch_chrome sample_os path port st = (ls, Inr ()) \<and> ls_url ls = sample_url \<and> ls_error ls = ls_error st \<and> ls_pid ls = 42"
proof -
  have "find_chrome (os_executable sample_os) path \<noteq> []"
    by (simp add: find_chrome_def sample_os_def chrome_candidates_def)
  moreover have "sample_url = ws_prefix @ ''127.0.0.1'' @ CHR '':'' # ''35001/devtools''"
    by (simp add: sample_url_def ws_prefix_def)
  ultimately have "launch_chrome sample_os path port st = (st\<lparr>ls_pid := 42, ls_url := sample_url,
      ls_probed := Some (default_port port, http_rounds 5 (os_connections sample_os))\<rparr>, Inr ())"
    using launch_probes_default [of sample_os path 42 "''127.0.0.1''" "''35001/devtools''" port st] sample_read
    by (simp add: sample_os_def)
  then show ?thesis by simp
qed

lemma bm_run_seq: "bm_run fl as m = (m1, Inr u) \<Longrightarrow> bm_run fl (as @ bs) m = bm_run fl bs m1"
  by (simp add: bm_run_append sbind_def)

text \<open>A manager that is started and connected, with nothing left to do.\<close>

definition ready :: "manager \<Rightarrow> bool" where
  "ready m \<longleftrightarrow> bm_started m \<and> bm_ws_ready m \<and> calm m \<and> bm_caught m = [] \<and> bm_contexts m = []"

lemma opened:
  "\<exists>m. bm_run fl opened_run (create_browser c f) = (m, Inr ()) \<and> ready m \<and> bm_cmd_id m = 1 \<and>
     bm_config m = c \<and> bm_fs m = f \<and> bm_pid m = 42 \<and> bm_heap m = [] \<and> bm_next m = 0 \<and> bm_log m = [] \<and> bm_guards m = [] \<and>
     bm_pending m = [(0, (KNothing, ENothing))]"
proof -
  obtain ls where ls: "launch_chrome sample_os (br_chrome_path c) (br_cdp_port c)
      \<lparr>ls_url = [], ls_error = [], ls_pid = - 1, ls_probed = None\<rparr> = (ls, Inr ())"
      "ls_url ls = sample_url" "ls_error ls = []" "ls_pid ls = 42"
    using sample_launch [of "br_chrome_path c" "br_cdp_port c"
        "\<lparr>ls_url = [], ls_error = [], ls_pid = - 1, ls_probed = None\<rparr>"] by auto
  let ?init = "create_browser c f"
  let ?m = "?init\<lparr>bm_sched := True, bm_pid := 42, bm_ws_url := sample_url, bm_ws_started := True, bm_started := True\<rparr>"
  have start: "bm_run fl [BeStart, BeLaunch sample_os, BeStep] ?init = (?m, Inr ())"
    using ls by (simp add: bm_start_def kill_chrome_def create_browser_def new_manager_def run_launch_def
        bm_step_def launches_done_def launch_done_def sbind_def sample_url_def)
  obtain t m1 where o: "on_ws_open fl ?m = (m1, Inr ())" and m1: "bm_ws_ready m1"
    using open_flushes [of fl ?m "[]"] by (auto simp: create_browser_def new_manager_def)
  obtain t' where t': "json_dump fl (cmd_message 0 ''Page.enable'' (JObject []) []) = Inr t'"
    using cmd_message_dumps [OF utf8_names(14) _ utf8_empty, of "JObject []" fl 0] by auto
  have eq: "m1 = ?m\<lparr>bm_ws_ready := True, bm_cmd_id := 1, bm_pending := [(0, (KNothing, ENothing))], bm_sent := [t']\<rparr>"
    using o t' by (simp add: on_ws_open_def create_browser_def new_manager_def sbind_def next_cmd_id_def
        put_pending_def send_text_def)
  have "bm_run fl [BeWs WsOpen, BeStep] ?m = (m1, Inr ())"
    using o by (simp add: on_ws_event_def post_task_def bm_step_def launches_done_def sbind_def catching_def
        create_browser_def new_manager_def)
  moreover have "opened_run = [BeStart, BeLaunch sample_os, BeStep] @ [BeWs WsOpen, BeStep]"
    by (simp add: opened_run_def)
  ultimately have "bm_run fl opened_run ?init = (m1, Inr ())"
    using bm_run_seq [OF start, of "[BeWs WsOpen, BeStep]"] by (simp only:)
  moreover have "ready m1 \<and> bm_cmd_id m1 = 1 \<and> bm_config m1 = c \<and> bm_fs m1 = f \<and> bm_pid m1 = 42 \<and>
      bm_heap m1 = [] \<and> bm_next m1 = 0 \<and> bm_log m1 = [] \<and> bm_guards m1 = [] \<and>
      bm_pending m1 = [(0, (KNothing, ENothing))]"
    by (simp add: eq ready_def calm_def create_browser_def new_manager_def)
  ultimately show ?thesis by blast
qed

subsection \<open>A context is obtained\<close>

definition ask :: "string \<Rightarrow> nat \<Rightarrow> bm_event" where
  "ask p n = BeCalls [act.Call (GetContext p) (Fn n []) (Fn (Suc n) [])]"

definition answered :: "string list \<Rightarrow> bm_event list" where
  "answered ss = concat (map (\<lambda>s. [BeWs (WsMessage s), BeStep]) ss)"

lemma ask_run:
  assumes "do_get_context fl p (GetCtx (Clo None (Fn n [])) (Clo None (Fn (Suc n) []))) m = (m1, Inr NoCall)"
  shows "bm_run fl [ask p n] m = (m1, Inr ())"
  using assms by (simp add: ask_def client_calls_def exec_acts.simps called_def sbind_def)

lemma answered_Cons:
  "calm m \<Longrightarrow> on_ws_message fl s m = (m1, Inr ()) \<Longrightarrow>
   bm_run fl (answered (s # ss)) m = bm_run fl (answered ss) m1"
  using bm_run_seq [OF calm_message, of m fl s m1 "answered ss"] by (simp add: answered_def)

lemma answered_Nil: "bm_run fl (answered []) m = (m, Inr ())"
  by (simp add: answered_def)

lemma context_run:
  assumes m: "calm m" "bm_started m" "bm_ws_ready m" "map_of (bm_contexts m) p = None" "ids_ok m"
    and id: "sint (bm_cmd_id m) < 2 ^ 31 - 4"
  shows "\<exists>ss m'. bm_run bits_float_io (ask p n # answered ss) m = (m', Inr ()) \<and> calm m' \<and>
    bm_caught m' = bm_caught m \<and> setting m' = setting m \<and> bm_started m' \<and> bm_ws_ready m' \<and> bm_cmd_id m' = bm_cmd_id m + 4 \<and>
    map_of (bm_contexts m') = (map_of (bm_contexts m))(p \<mapsto> bm_next m) \<and>
    map_of (bm_heap m') = (map_of (bm_heap m))(bm_next m \<mapsto> new_context p ''T'' ''S'') \<and>
    bm_log m' = bm_log m @ [(n, VCtx (bm_next m))] \<and>
    map_of (bm_pending m') = (map_of (bm_pending m))(sint (bm_cmd_id m) + 3 \<mapsto> (KNothing, ENothing))"
proof -
  define i where "i = bm_cmd_id m"
  obtain s1 where s1: "replies bits_float_io s1 i (json_object [(''targetId'', JString ''T'')])"
    using reply_single [OF utf8_names(7) utf8_T_S(1)] by blast
  obtain s2 where s2: "replies bits_float_io s2 (i + 1) (json_object [(''sessionId'', JString ''S'')])"
    using reply_single [OF utf8_names(4) utf8_T_S(2)] by blast
  obtain s3 where s3: "replies bits_float_io s3 (i + 2) JNull"
    using response_text [OF bits_float_io_ok, of JNull "i + 2"] by auto
  from get_context_exchange [OF m(2-5) i_def _ utf8_T_S s1 s2 s3, where n = n and this = None and err = "Clo None (Fn (Suc n) [])"] id m(1)
  obtain m1 m2 m3 m' where ex: "do_get_context bits_float_io p (GetCtx (Clo None (Fn n [])) (Clo None (Fn (Suc n) []))) m = (m1, Inr NoCall)"
    "on_ws_message bits_float_io s1 m1 = (m2, Inr ())" "on_ws_message bits_float_io s2 m2 = (m3, Inr ())"
    "on_ws_message bits_float_io s3 m3 = (m', Inr ())" "calm m1" "calm m2" "calm m3" "calm m'"
    and rest: "bm_caught m' = bm_caught m" "setting m' = setting m" "bm_started m'" "bm_ws_ready m'" "bm_cmd_id m' = i + 4"
    "map_of (bm_contexts m') = (map_of (bm_contexts m))(p \<mapsto> bm_next m)"
    "map_of (bm_heap m') = (map_of (bm_heap m))(bm_next m \<mapsto> new_context p ''T'' ''S'')"
    "bm_log m' = bm_log m @ [(n, VCtx (bm_next m))]"
    "map_of (bm_pending m') = (map_of (bm_pending m))(sint i + 3 \<mapsto> (KNothing, ENothing))"
    unfolding i_def by blast
  have "bm_run bits_float_io (answered [s1, s2, s3]) m1 = (m', Inr ())"
    by (simp only: answered_Cons [OF ex(5,2)] answered_Cons [OF ex(6,3)] answered_Cons [OF ex(7,4)] answered_Nil)
  then have "bm_run bits_float_io (ask p n # answered [s1, s2, s3]) m = (m', Inr ())"
    using bm_run_seq [OF ask_run [OF ex(1)], of "answered [s1, s2, s3]"] by (simp only: append_Cons append_Nil)
  with ex(8) rest show ?thesis unfolding i_def by blast
qed

text \<open>The whole run, from a new manager to a cached context.\<close>

definition sample_config :: browser_config where
  "sample_config = default_browser_config\<lparr>br_sessions_dir := ''/home''\<rparr>"

definition sample_manager :: manager where
  "sample_manager = create_browser sample_config sample_fs"

lemma sample_context:
  "\<exists>evs m. bm_run bits_float_io evs sample_manager = (m, Inr ()) \<and> bm_caught m = [] \<and> calm m \<and>
     setting m = (sample_fs, sample_config, 42, []) \<and>
     bm_started m \<and> bm_ws_ready m \<and> bm_cmd_id m = 5 \<and> map_of (bm_contexts m) = [''x'' \<mapsto> 0] \<and>
     map_of (bm_heap m) = [0 \<mapsto> new_context ''x'' ''T'' ''S'']"
proof -
  obtain m where m: "bm_run bits_float_io opened_run sample_manager = (m, Inr ())" "ready m" "bm_cmd_id m = 1"
    "bm_heap m = []" "bm_next m = 0" "setting m = (sample_fs, sample_config, 42, [])"
    unfolding sample_manager_def using opened [of bits_float_io sample_config sample_fs]
    by (auto simp: setting_def)
  have "ids_ok m" using m(1) unfolding sample_manager_def by (rule reach_ids)
  with m(2,3) obtain ss m' where r: "bm_run bits_float_io (ask ''x'' 1 # answered ss) m = (m', Inr ())"
    "calm m'" "bm_caught m' = []" "setting m' = setting m" "bm_started m'" "bm_ws_ready m'" "bm_cmd_id m' = 5"
    "map_of (bm_contexts m') = [''x'' \<mapsto> 0]" "map_of (bm_heap m') = [0 \<mapsto> new_context ''x'' ''T'' ''S'']"
    using context_run [of m "''x''" 1] m(4,5) by (auto simp: ready_def)
  have "bm_run bits_float_io (opened_run @ ask ''x'' 1 # answered ss) sample_manager = (m', Inr ())"
    using bm_run_seq [OF m(1), of "ask ''x'' 1 # answered ss"] r(1) by (simp only:)
  with r m(6) show ?thesis
    by (intro exI [of _ "opened_run @ ask ''x'' 1 # answered ss"] exI [of _ m'] conjI)
      (simp_all del: bm_run.simps)
qed

subsection \<open>Two requests for one platform\<close>

lemma request_answered:
  fixes i :: int32
  assumes m: "calm m" "bm_ws_ready m" "sint (bm_cmd_id m) < 2 ^ 31 - 3" and i: "sint i < sint (bm_cmd_id m)"
    and p: "map_of (bm_pending m) (sint i) = Some (KCreated p g, e)"
  shows "\<exists>ss m'. bm_run bits_float_io (answered ss) m = (m', Inr ()) \<and> bm_caught m' = bm_caught m \<and>
    map_of (bm_pending m') (sint (bm_cmd_id m + 1)) = Some (KInit p (bm_next m) g, EDrop (bm_next m)) \<and>
    bm_contexts m' = bm_contexts m"
proof -
  define n where "n = bm_cmd_id m"
  have s1: "sint (n + 1) = sint n + 1" using m(3) by (intro sint_plus_one) (simp add: n_def)
  have "sint (n + 1 + 1) = sint (n + 1) + 1" using m(3) s1 by (intro sint_plus_one) (simp add: n_def)
  then have s2: "sint (n + 2) = sint n + 2" using s1 by (simp add: add.assoc)
  obtain s where s: "replies bits_float_io s i (json_object [(''targetId'', JString ''T'')])"
    using reply_single [OF utf8_names(7) utf8_T_S(1)] by blast
  obtain t where t: "run_kont bits_float_io (KCreated p g) (json_object [(''targetId'', JString ''T'')]) m =
      (sent_cmd (KAttached p ''T'' g) (EUser (gk_err g)) t m, Inr None)"
    using created_sends [OF m(2) utf8_T_S(1), of bits_float_io p g] m(3) by auto
  define m1 where "m1 = erase_pending (sint i) (sent_cmd (KAttached p ''T'' g) (EUser (gk_err g)) t m)"
  have d1: "on_ws_message bits_float_io s m = (m1, Inr ())"
    using replies_deliver [OF s p t] by (simp add: m1_def)
  have m1: "calm m1" "bm_ws_ready m1" "bm_cmd_id m1 = n + 1" "bm_next m1 = bm_next m"
    "map_of (bm_pending m1) (sint n) = Some (KAttached p ''T'' g, EUser (gk_err g))"
    using m(1,2) i by (simp_all add: m1_def n_def)
  obtain s' where s': "replies bits_float_io s' n (json_object [(''sessionId'', JString ''S'')])"
    using reply_single [OF utf8_names(4) utf8_T_S(2)] by blast
  obtain u v where u: "run_kont bits_float_io (KAttached p ''T'' g) (json_object [(''sessionId'', JString ''S'')]) m1 =
      (sent_cmd KNothing ENothing v (sent_cmd (KInit p (bm_next m1) g) (EDrop (bm_next m1)) u
         (fst (alloc_context p ''T'' ''S'' m1))), Inr None)"
    using attached_sends [OF m1(2) utf8_T_S(2), of bits_float_io p "''T''" g] m1(3) s1 s2 m(3)
    by (auto simp: n_def add.assoc)
  define m2 where "m2 = erase_pending (sint n) (sent_cmd KNothing ENothing v (sent_cmd (KInit p (bm_next m1) g)
      (EDrop (bm_next m1)) u (fst (alloc_context p ''T'' ''S'' m1))))"
  have d2: "on_ws_message bits_float_io s' m1 = (m2, Inr ())"
    using replies_deliver [OF s' m1(5) u] by (simp add: m2_def)
  have "bm_run bits_float_io (answered [s, s']) m = (m2, Inr ())"
    by (simp only: answered_Cons [OF m(1) d1] answered_Cons [OF m1(1) d2] answered_Nil)
  moreover have "map_of (bm_pending m2) (sint (n + 1)) = Some (KInit p (bm_next m) g, EDrop (bm_next m))"
    using m1(3,4) s1 s2 by (simp add: m2_def add.assoc)
  moreover have "bm_caught m2 = bm_caught m" "bm_contexts m2 = bm_contexts m" by (simp_all add: m2_def m1_def)
  ultimately show ?thesis unfolding n_def by blast
qed

lemma sample_two_contexts:
  "\<exists>evs m h e s. bm_run bits_float_io evs sample_manager = (m, Inr ()) \<and> bm_caught m = [] \<and>
     map_of (bm_pending m) (sint (7 :: int32)) = Some (KInit ''x'' h (GetCtx (Clo None (Fn 5 [])) (Clo None (Fn 6 []))), e) \<and>
     map_of (bm_contexts m) ''x'' = Some 0 \<and> replies bits_float_io s 7 JNull"
proof -
  let ?g = "GetCtx (Clo None (Fn 5 [])) (Clo None (Fn 6 []))"
  obtain m where m: "bm_run bits_float_io opened_run sample_manager = (m, Inr ())" "ready m" "bm_cmd_id m = 1" "bm_next m = 0"
    unfolding sample_manager_def using opened [of bits_float_io sample_config sample_fs] by auto
  obtain t where t: "do_get_context bits_float_io ''x'' ?g m = (sent_cmd (KCreated ''x'' ?g) (EUser (gk_err ?g)) t m, Inr NoCall)"
    using get_context_sends [of m "''x''" bits_float_io ?g] m(2,3) by (auto simp: ready_def)
  define m1 where "m1 = sent_cmd (KCreated ''x'' ?g) (EUser (gk_err ?g)) t m"
  have r1: "bm_run bits_float_io (opened_run @ [ask ''x'' 5]) sample_manager = (m1, Inr ())"
    using bm_run_seq [OF m(1), of "[ask ''x'' 5]"] ask_run [of bits_float_io "''x''" 5 m m1] t by (simp only: m1_def) simp
  have m1: "calm m1" "bm_started m1" "bm_ws_ready m1" "map_of (bm_contexts m1) ''x'' = None"
    "sint (bm_cmd_id m1) < 2 ^ 31 - 4" "bm_cmd_id m1 = 2" "bm_caught m1 = []" "bm_next m1 = 0"
    "map_of (bm_pending m1) 1 = Some (KCreated ''x'' ?g, EUser (gk_err ?g))"
    using m(2-4) by (simp_all add: m1_def ready_def)
  obtain ss m2 where r2: "bm_run bits_float_io (ask ''x'' 1 # answered ss) m1 = (m2, Inr ())"
    and m2: "calm m2" "bm_caught m2 = []" "bm_ws_ready m2" "bm_cmd_id m2 = 6" "map_of (bm_contexts m2) ''x'' = Some 0"
      "map_of (bm_pending m2) 1 = Some (KCreated ''x'' ?g, EUser (gk_err ?g))"
    using context_run [OF m1(1-4) reach_ids m1(5), of bits_float_io "opened_run @ [ask ''x'' 5]"] r1 m1(6-9)
    unfolding sample_manager_def by (fastforce simp del: bm_run.simps)
  obtain ss' m4 where r3: "bm_run bits_float_io (answered ss') m2 = (m4, Inr ())" and
    m4: "bm_caught m4 = []" "map_of (bm_contexts m4) ''x'' = Some 0"
      "map_of (bm_pending m4) (sint (7 :: int32)) = Some (KInit ''x'' (bm_next m2) ?g, EDrop (bm_next m2))"
    using request_answered [of m2 1 "''x''" ?g "EUser (gk_err ?g)"] m2 by (auto simp del: bm_run.simps)
  with bm_run_seq [OF r2, of "answered ss'"]
    bm_run_seq [OF r1, of "(ask ''x'' 1 # answered ss) @ answered ss'"]
  have "bm_run bits_float_io ((opened_run @ [ask ''x'' 5]) @ (ask ''x'' 1 # answered ss) @ answered ss')
      sample_manager = (m4, Inr ())"
    by (simp only:)
  moreover obtain s6 where "replies bits_float_io s6 7 JNull"
    using response_text [OF bits_float_io_ok, of JNull 7] by auto
  ultimately show ?thesis using m4 by blast
qed

subsection \<open>Other situations\<close>

lemma sample_replies:
  "\<exists>s1 s2 s3. replies bits_float_io s1 i (json_object [(''targetId'', JString ''T'')]) \<and>
     replies bits_float_io s2 j (json_object [(''sessionId'', JString ''S'')]) \<and> replies bits_float_io s3 k JNull"
  using reply_single [OF utf8_names(7) utf8_T_S(1), of i] reply_single [OF utf8_names(4) utf8_T_S(2), of j]
    response_text [OF bits_float_io_ok, of JNull k] by auto

text \<open>A timer is started for a context, and the context is removed.\<close>

lemma sample_orphan_timer:
  "\<exists>evs m i delay g cb. bm_run bits_float_io evs sample_manager = (m, Inr ()) \<and> bm_caught m = [] \<and>
     i < length (bm_timers m) \<and> bm_timers m ! i = (delay, g, cb) \<and> (\<forall>h. map_of (bm_heap m) h = None)"
proof -
  obtain evs m where m: "bm_run bits_float_io evs sample_manager = (m, Inr ())" "bm_caught m = []"
    "map_of (bm_contexts m) = [''x'' \<mapsto> 0]" "map_of (bm_heap m) = [0 \<mapsto> new_context ''x'' ''T'' ''S'']"
    using sample_context by blast
  let ?ev = "BeCalls [act.Call (Page (Ctx 0) (AfterDelay 5)) (Fn 7 []) NoFn, act.Call (RemoveContext ''x'') NoFn NoFn]"
  obtain m' where m': "bm_run bits_float_io [?ev] m = (m', Inr ())" "bm_caught m' = []"
    "length (bm_timers m) < length (bm_timers m')" "\<And>h. map_of (bm_heap m') h = None"
    using m(2-4) by (simp add: client_calls_def exec_acts.simps called_def sbind_def ctx_of_ref_def deref_def
        bc_after_def Let_def set_context_def no_reply_def remove_context_def destroy_context_def del: map_of_eq_empty_iff)
  obtain delay g cb where "bm_timers m' ! length (bm_timers m) = (delay, g, cb)"
    by (cases "bm_timers m' ! length (bm_timers m)")
  with bm_run_seq [OF m(1), of "[?ev]"] m' show ?thesis
    by (intro exI [of _ "evs @ [?ev]"] exI [of _ m'] exI [of _ "length (bm_timers m)"]) (simp del: bm_run.simps)
qed

text \<open>A wait for a selector whose time is over at once.\<close>

lemma sample_wait:
  "\<exists>evs m w c. bm_run bits_float_io evs sample_manager = (m, Inr ()) \<and>
     w < length (bm_waits m) \<and> \<not> wt_done (bm_waits m ! w) \<and>
     map_of (bm_heap m) (wt_ctx (bm_waits m ! w)) = Some c \<and> \<not> bc_closed c \<and>
     sint (wt_timeout (bm_waits m ! w)) \<le> waited_ms m w \<and>
     wt_lost (bm_waits m ! w) = Clo None (Fn 2 [])"
proof -
  obtain evs m where m: "bm_run bits_float_io evs sample_manager = (m, Inr ())"
    "map_of (bm_heap m) = [0 \<mapsto> new_context ''x'' ''T'' ''S'']"
    using sample_context by blast
  let ?ev = "BeCalls [act.Call (Page (Ctx 0) (WaitForSelector ''a'' 0)) (Fn 1 []) (Fn 2 [])]"
  let ?wt = "\<lparr>wt_ctx = 0, wt_css = ''a'', wt_timeout = 0, wt_start = bm_now m, wt_done = False,
    wt_found = Clo None (Fn 1 []), wt_lost = Clo None (Fn 2 [])\<rparr>"
  let ?m = "post_task (TCheck (length (bm_waits m))) (m\<lparr>bm_waits := bm_waits m @ [?wt]\<rparr>)"
  have "bm_run bits_float_io [?ev] m = (?m, Inr ())"
    using m(2) by (simp add: client_calls_def exec_acts.simps called_def sbind_def ctx_of_ref_def deref_def
        bc_wait_for_selector_def Let_def new_context_def)
  with bm_run_seq [OF m(1)] have "bm_run bits_float_io (evs @ [?ev]) sample_manager = (?m, Inr ())" by metis
  moreover have "bm_waits ?m = bm_waits m @ [?wt]" "map_of (bm_heap ?m) 0 = Some (new_context ''x'' ''T'' ''S'')"
    using m(2) by (simp_all add: post_task_def)
  ultimately show ?thesis
    by (intro exI [of _ "evs @ [?ev]"] exI [of _ ?m] exI [of _ "length (bm_waits m)"] exI [of _ "new_context ''x'' ''T'' ''S''"])
      (simp add: waited_ms_def new_context_def del: bm_run.simps)
qed

text \<open>The answer to the first command arrives, and the manager is restarted.\<close>

lemma sample_answered:
  "\<exists>evs m s m1 m2. bm_run bits_float_io evs sample_manager = (m, Inr ()) \<and>
     map_of (bm_pending m) (sint (0 :: int32)) = Some (KNothing, ENothing) \<and> is_answer bits_float_io s 0 \<and>
     on_ws_message bits_float_io s m = (m1, Inr ()) \<and> m1 \<noteq> m \<and> bm_run bits_float_io [BeStop, BeStart] m1 = (m2, Inr ())"
proof -
  obtain m where m: "bm_run bits_float_io opened_run sample_manager = (m, Inr ())" "ready m"
    "bm_pending m = [(0, (KNothing, ENothing))]"
    unfolding sample_manager_def using opened by blast
  obtain s where s: "replies bits_float_io s 0 JNull"
    using response_text [OF bits_float_io_ok, of JNull 0] by auto
  then have a: "is_answer bits_float_io s 0"
    by (auto simp: replies_def is_response_def is_answer_def)
  have d: "on_ws_message bits_float_io s m = (erase_pending 0 m, Inr ())"
    using replies_deliver [OF s, of m KNothing ENothing m None] m(3) by simp
  have "erase_pending 0 m \<noteq> m"
    using m(3) by (metis erase_fields(9) fun_upd_same map_of_Cons_code(2) option.distinct(1))
  moreover have "bm_run bits_float_io [BeStop, BeStart] (erase_pending 0 m) =
      (bm_start (fst (bm_stop (erase_pending 0 m))), Inr ())"
    using m(2) by (simp add: sbind_def bm_stop_def clear_contexts_def ready_def)
  ultimately show ?thesis using m(1,3) a d by (intro exI conjI) auto
qed

lemma sample_writable: "writable sample_fs (session_path sample_config ''x'')"
  by code_simp

end
