(* ===== verification/Logger.thy ===== *)
theory Logger
  imports Module_Models
begin

text \<open>
  \<open>SpdlogLogger\<close> (src/wheel/logger/imp/spdlog_logger.cpp) and the \<open>LOG_...\<close> macros
  (src/wheel/logger/logger_macros.h). The registry of spdlog is the state they share: the logger
  registered as \<open>lynne\<close>, if any, with its level, and what the log file holds.
\<close>

subsection \<open>Levels\<close>

datatype log_level = Debug | Info | Warn | Error

text \<open>The levels of spdlog by their rank: trace 0, debug 1, info 2, warn 3, err 4, critical 5, off 6.\<close>

definition spd_levels :: "string list" where
  "spd_levels = [''trace'', ''debug'', ''info'', ''warning'', ''error'', ''critical'', ''off'']"

fun find_index :: "string \<Rightarrow> string list \<Rightarrow> nat option" where
  "find_index x [] = None"
| "find_index x (y # ys) = (if x = y then Some 0 else map_option Suc (find_index x ys))"

definition level_from_str :: "string \<Rightarrow> nat" where
  "level_from_str name =
     (case find_index name spd_levels of
        Some i \<Rightarrow> i
      | None \<Rightarrow> if name = ''warn'' then 3 else if name = ''err'' then 4 else 6)"

definition to_lower :: "char \<Rightarrow> char" where
  "to_lower c = (if 65 \<le> (of_char c :: nat) \<and> (of_char c :: nat) \<le> 90 then char_of (of_char c + 32 :: nat) else c)"

definition spd_level :: "log_level \<Rightarrow> nat" where
  "spd_level level = (case level of Debug \<Rightarrow> 1 | Info \<Rightarrow> 2 | Warn \<Rightarrow> 3 | Error \<Rightarrow> 4)"

text \<open>Levels are ordered by severity.\<close>

instantiation log_level :: linorder
begin

definition less_eq_log_level :: "log_level \<Rightarrow> log_level \<Rightarrow> bool" where
  "less_eq_log_level a b \<longleftrightarrow> spd_level a \<le> spd_level b"

definition less_log_level :: "log_level \<Rightarrow> log_level \<Rightarrow> bool" where
  "less_log_level a b \<longleftrightarrow> spd_level a < spd_level b"

instance
proof
  fix a b c :: log_level
  have inj: "spd_level a = spd_level b \<Longrightarrow> a = b" by (cases a; cases b) (simp_all add: spd_level_def)
  show "a < b \<longleftrightarrow> a \<le> b \<and> \<not> b \<le> a" "a \<le> a" "a \<le> b \<or> b \<le> a"
    by (auto simp: less_eq_log_level_def less_log_level_def)
  show "a \<le> b \<Longrightarrow> b \<le> c \<Longrightarrow> a \<le> c" by (simp add: less_eq_log_level_def)
  show "a \<le> b \<Longrightarrow> b \<le> a \<Longrightarrow> a = b" by (rule inj) (simp add: less_eq_log_level_def)
qed

end

subsection \<open>State\<close>

record registry =
  rg_lynne :: "(nat \<times> string) option"
  rg_files :: "string \<Rightarrow> (nat \<times> string) list"

record logger =
  lo_config :: log_config
  lo_started :: bool

definition new_logger :: "log_config \<Rightarrow> logger" where
  "new_logger c = \<lparr>lo_config = c, lo_started = False\<rparr>"

text \<open>\<open>LoggerFactory\<close>.\<close>

definition create_logger :: "log_config \<Rightarrow> logger" where
  "create_logger c = new_logger c"

definition logger_name :: "logger \<Rightarrow> string" where
  "logger_name l = ''SpdlogLogger''"

subsection \<open>Operations\<close>

definition config_level :: "log_config \<Rightarrow> nat" where
  "config_level c = level_from_str (map to_lower (lg_level c))"

text \<open>
  The file sink truncates the file; \<open>can_open\<close> says whether it can be opened. Registering a name that
  is taken throws.
\<close>

definition logger_start :: "bool \<Rightarrow> logger \<Rightarrow> registry \<Rightarrow> (logger \<times> registry) \<times> unit result" where
  "logger_start can_open l r =
     (if lo_started l then ((l, r), Inr ())
      else if \<not> can_open then ((l, r), Inl LibraryException)
      else
        (let file = lg_log_file (lo_config l);
             r1 = r\<lparr>rg_files := (rg_files r)(file := [])\<rparr>
         in if rg_lynne r1 \<noteq> None then ((l, r1), Inl LibraryException)
            else ((l\<lparr>lo_started := True\<rparr>, r1\<lparr>rg_lynne := Some (config_level (lo_config l), file)\<rparr>), Inr ())))"

definition logger_stop :: "logger \<Rightarrow> registry \<Rightarrow> logger \<times> registry" where
  "logger_stop l r = (if lo_started l then (l\<lparr>lo_started := False\<rparr>, r\<lparr>rg_lynne := None\<rparr>) else (l, r))"

definition logger_destroy :: "logger \<Rightarrow> registry \<Rightarrow> registry" where
  "logger_destroy l r = snd (logger_stop l r)"

definition logger_health_check :: "logger \<Rightarrow> registry \<Rightarrow> bool" where
  "logger_health_check l r \<longleftrightarrow> lo_started l \<and> rg_lynne r \<noteq> None"

definition log_message :: "logger \<Rightarrow> log_level \<Rightarrow> string \<Rightarrow> registry \<Rightarrow> registry" where
  "log_message l level message r =
     (if \<not> lo_started l then r
      else case rg_lynne r of
             None \<Rightarrow> r
           | Some (threshold, file) \<Rightarrow>
               if threshold \<le> spd_level level then
                 r\<lparr>rg_files := (rg_files r)(file := rg_files r file @ [(spd_level level, message)])\<rparr>
               else r)"

subsection \<open>The macros\<close>

text \<open>
  The text is formatted into a buffer of 4096 bytes and passed as a C string: it is cut at 4095 bytes
  and at the first NUL. \<open>text\<close> is the message with its arguments filled in.
\<close>

definition log_buffer :: "string \<Rightarrow> string \<Rightarrow> nat \<Rightarrow> string \<Rightarrow> string" where
  "log_buffer mod_name file line msg =
     takeWhile (\<lambda>c. c \<noteq> CHR 0x00)
       (take 4095 (''['' @ mod_name @ ''][''  @ file @ '':'' @ nat_str line @ ''] '' @ msg))"

definition log_macro ::
  "logger option \<Rightarrow> log_level \<Rightarrow> string \<Rightarrow> string \<Rightarrow> nat \<Rightarrow> string \<Rightarrow> registry \<Rightarrow> registry" where
  "log_macro g_logger level mod_name file line msg r =
     (case g_logger of None \<Rightarrow> r | Some l \<Rightarrow> log_message l level (log_buffer mod_name file line msg) r)"

definition log_debug :: "logger option \<Rightarrow> string \<Rightarrow> string \<Rightarrow> nat \<Rightarrow> string \<Rightarrow> registry \<Rightarrow> registry" where
  "log_debug g_logger mod_name file line msg = log_macro g_logger Debug mod_name file line msg"

definition log_info :: "logger option \<Rightarrow> string \<Rightarrow> string \<Rightarrow> nat \<Rightarrow> string \<Rightarrow> registry \<Rightarrow> registry" where
  "log_info g_logger mod_name file line msg = log_macro g_logger Info mod_name file line msg"

definition log_warn :: "logger option \<Rightarrow> string \<Rightarrow> string \<Rightarrow> nat \<Rightarrow> string \<Rightarrow> registry \<Rightarrow> registry" where
  "log_warn g_logger mod_name file line msg = log_macro g_logger Warn mod_name file line msg"

definition log_error :: "logger option \<Rightarrow> string \<Rightarrow> string \<Rightarrow> nat \<Rightarrow> string \<Rightarrow> registry \<Rightarrow> registry" where
  "log_error g_logger mod_name file line msg = log_macro g_logger Error mod_name file line msg"

subsection \<open>Lemmas\<close>

lemma config_level_default: "config_level default_log_config = 2"
  by code_simp

lemma length_log_buffer: "length (log_buffer mod_name file line msg) \<le> 4095"
  unfolding log_buffer_def by (rule order_trans [OF length_takeWhile_le]) simp

text \<open>A started logger writes the messages at or above its level, in order, and nothing else.\<close>

definition log_all :: "logger \<Rightarrow> (log_level \<times> string) list \<Rightarrow> registry \<Rightarrow> registry" where
  "log_all l ms r = foldl (\<lambda>r (level, msg). log_message l level msg r) r ms"

lemma log_all_filter:
  assumes "lo_started l" "rg_lynne r = Some (t, file)"
  shows "rg_files (log_all l ms r) file =
     rg_files r file @ map (\<lambda>(level, msg). (spd_level level, msg)) (filter (\<lambda>(level, _). t \<le> spd_level level) ms) \<and>
     rg_lynne (log_all l ms r) = rg_lynne r \<and> (\<forall>f. f \<noteq> file \<longrightarrow> rg_files (log_all l ms r) f = rg_files r f)"
  using assms(2)
proof (induction ms arbitrary: r)
  case (Cons m ms)
  obtain level msg where m: "m = (level, msg)" by (cases m)
  let ?r = "log_message l level msg r"
  have "rg_lynne ?r = Some (t, file)" using assms(1) Cons.prems by (simp add: log_message_def)
  from Cons.IH [OF this] show ?case
    using assms(1) Cons.prems by (simp add: m log_all_def log_message_def)
qed (simp add: log_all_def)

lemma started_writes:
  assumes "logger_start True (new_logger c) r = ((l, r1), Inr ())"
  shows "rg_files (log_all l ms r1) (lg_log_file c) =
      map (\<lambda>(level, msg). (spd_level level, msg)) (filter (\<lambda>(level, _). config_level c \<le> spd_level level) ms) \<and>
    (\<forall>f. f \<noteq> lg_log_file c \<longrightarrow> rg_files (log_all l ms r1) f = rg_files r f)"
proof -
  have "lo_started l" "rg_lynne r1 = Some (config_level c, lg_log_file c)"
    "rg_files r1 = (rg_files r)(lg_log_file c := [])"
    using assms by (auto simp: logger_start_def new_logger_def Let_def split: if_splits)
  with log_all_filter [OF this(1,2), of ms] show ?thesis by simp
qed

text \<open>The levels written for each name, spelled out; a name nobody knows is taken for \<open>off\<close>.\<close>

lemma written_levels:
  "config_level c \<le> spd_level level \<longleftrightarrow>
     (let name = map to_lower (lg_level c)
      in level \<in> (if name \<in> {''trace'', ''debug''} then {Debug, Info, Warn, Error}
         else if name = ''info'' then {Info, Warn, Error} else if name \<in> {''warn'', ''warning''} then {Warn, Error}
         else if name \<in> {''err'', ''error''} then {Error} else {}))"
  unfolding config_level_def Let_def
  by (cases level) (auto simp: level_from_str_def spd_levels_def spd_level_def)

lemma spd_ranks: "spd_level = (\<lambda>level. case level of Debug \<Rightarrow> 1 | Info \<Rightarrow> 2 | Warn \<Rightarrow> 3 | Error \<Rightarrow> 4)"
  by (simp add: fun_eq_iff spd_level_def)

lemma started_at_level:
  assumes "logger_start True (new_logger c) r = ((l, r1), Inr ())" "config_level c = spd_level threshold"
  shows "rg_files (log_all l ms r1) (lg_log_file c) =
    map (\<lambda>(level, msg). (spd_level level, msg)) (filter (\<lambda>(level, _). threshold \<le> level) ms)"
  using started_writes [OF assms(1), of ms] by (simp add: assms(2) less_eq_log_level_def)

end
