(* ===== verification/Wheel_Samples.thy ===== *)
theory Wheel_Samples
  imports Llm_Engine Ws_Client Logger
begin

text \<open>
  Concrete inputs for the LLM engine and the WebSocket client.
\<close>

definition sample_env :: environment where
  "sample_env = \<lparr>env_ssl_cert_file = None, env_api_key = Some ''key'', env_readable = (\<lambda>p. False)\<rparr>"

lemma sample_body:
  assumes "utf8_valid (lm_model c)"
  shows "\<exists>body. json_dump bits_float_io (chat_body c (JArray []) JNull) = Inr body"
proof (rule dump_ok)
  have "utf8_valid ''model''" "utf8_valid ''messages''" "utf8_valid ''temperature''" "utf8_valid ''max_tokens''"
    by (rule utf8_ascii; simp)+
  with assms show "json_utf8 (chat_body c (JArray []) JNull)"
    unfolding chat_body_def by (intro json_utf8_object) (simp add: json_of_int_def del: utf8_valid.simps)
qed

lemma sample_model: "utf8_valid (lm_model default_llm_config)"
  by (rule utf8_ascii) (simp add: default_llm_config_def)

lemma sample_chat:
  "\<exists>ctx. \<forall>a b e. le_config e = default_llm_config \<longrightarrow> chat bits_float_io sample_env (JArray []) a b JNull e =
     (e\<lparr>le_work := le_work e @ [(ctx, a, b)]\<rparr>, Inr ())"
proof -
  obtain body where b: "json_dump bits_float_io (chat_body default_llm_config (JArray []) JNull) = Inr body"
    using sample_body [OF sample_model] by blast
  have u: "parse_base_url default_base_url = Inr (Some (''api.deepseek.com'', 443, ''/v1''))"
    by code_simp
  have "lm_base_url default_llm_config = []" by (simp add: default_llm_config_def)
  with u b show ?thesis
    by (intro exI [of _ "chat_request sample_env default_llm_config ''api.deepseek.com'' 443 ''/v1'' body"])
      (simp add: chat_def Let_def)
qed

text \<open>A client that is started and connected, was sent a message and then lost the connection.\<close>

definition sample_ws :: ws_client where
  "sample_ws = new_ws_client
     \<lparr>wc_started := True, wc_on_message := Some 1, wc_on_error := Some 2, wc_url := ''ws://h'', wc_thread := Looping,
      wc_sched := SchedOn True,
      wc_posted := [Deliver \<lparr>wm_data = ''a'', wm_binary = False\<rparr>, Fail ''reset''],
      wc_received := [Deliver \<lparr>wm_data = ''a'', wm_binary = False\<rparr>, Fail ''reset'']\<rparr>"

lemma sample_ws_reach: "ws_reach sample_ws"
proof -
  let ?w1 = "ws_start new_ws_client"
  let ?w2 = "ws_connect ''ws://h'' [] (Some 1) (Some 2) ?w1"
  let ?w3 = "?w2\<lparr>wc_state := Open\<rparr>"
  let ?d = "Deliver \<lparr>wm_data = ''a'', wm_binary = False\<rparr>"
  let ?w4 = "?w3\<lparr>wc_posted := [?d], wc_received := [?d], wc_sched := SchedOn True\<rparr>"
  have "ws_reach ?w2" by (rule ws_reach.moves [OF ws_reach.moves [OF ws_reach.fresh ws_trans.start] ws_trans.connect])
  moreover have "ws_trans ?w2 ?w3"
    by (rule ws_trans.notify [of _ IxOpen])
      (simp_all add: ws_connect_def ix_start_def ws_start_def new_ws_client_def on_ix_event_def)
  moreover have "ws_trans ?w3 ?w4"
    by (rule ws_trans.notify [of _ "IxMessage ''a'' False"])
      (simp_all add: ws_connect_def ix_start_def ws_start_def new_ws_client_def on_ix_event_def ws_post_def)
  moreover have "ws_trans ?w4 sample_ws"
    by (rule ws_trans.notify [of _ "IxError ''reset''"])
      (simp_all add: ws_connect_def ix_start_def ws_start_def new_ws_client_def on_ix_event_def ws_post_def
        sample_ws_def ix_headers_def)
  ultimately show ?thesis by (blast intro: ws_reach.moves)
qed

lemma sample_ws_ended: "ws_reach (sample_ws\<lparr>wc_thread := Ended\<rparr>)"
  by (rule ws_reach.moves [OF sample_ws_reach]) (rule ws_trans.thread_ends; simp add: sample_ws_def new_ws_client_def)

end
