(* ===== verification/Spec2Isabelle.thy ===== *)
theory Spec2Isabelle
  imports Samples Storage_Spec Scheduler_Contracts Llm_On_Scheduler Ws_On_Scheduler Dates Cdp_Samples Wheel_Samples
begin

text \<open>
  Verification library for lynne-social, a C++ program that reads social networks through a headless
  Chrome, lets a language model judge what it read, and stores the result as JSON lines. The library
  models the C++ sources under src/src (common and wheel) and the vendored functions they depend on,
  and proves the properties C1 to C40 below.

  \<^bold>\<open>How the program is put together.\<close> Everything runs on one libuv loop. The scheduler
  (UvScheduler) owns timers, a queue of posted callbacks and works for the thread pool. The browser
  manager (CdpBrowserManager) starts Chrome on the pool, talks the DevTools protocol to it over a
  WebSocket, and keeps one context per platform; the LLM engine (DeepSeekEngine) sends requests on the
  pool and calls back on the loop; the WebSocket client (IxWsClient) posts what its own thread receives;
  the storage (JsonlStorage) writes items, reports and summaries by date; the configuration loader and
  the per-module configurations are read from JSON; the logger wraps spdlog.

  \<^bold>\<open>Theories, in the order of their imports.\<close>

  \<^item> Lynne_Prelude: exceptions (\<open>exn\<close>) and the result type of everything that can throw or is
    undefined (\<open>Inl Undefined\<close>), lists with errors, searching in strings, decimal numbers, \<open>std::stoi\<close>.
    Std_Map: \<open>std::map\<close> as a sorted association list, the model of the locale \<open>ordered_map\<close>.
  \<^item> Json, Json_Dump, Json_Parse, Json_Strings, Json_Roundtrip: the parts of nlohmann::json the program
    calls: values, accessors with their exceptions, \<open>dump\<close> with strict UTF-8, the lexer and parser.
    The locale \<open>json_text\<close> states
    what relates texts and values. The conversion between doubles and decimal text is
    a parameter (\<open>float_io\<close>) with the hypothesis \<open>float_io_ok\<close>, satisfied by \<open>bits_float_io\<close>.
  \<^item> Common_Models (common/models), Module_Models (the \<open>*_models\<close> of the wheels), Config
    (config_models and JsonConfigLoader): structs, defaults, conversions, the loader.
  \<^item> File_System, Jsonl_Storage, Dates (storage/imp/jsonl_storage): files and directories, every
    operation of the storage, and the names \<open>today_str\<close> gives to days. The locale \<open>item_store\<close> states
    what saving in batches promises. Storage_Spec: the interface as calls with replies, and the abstract store
    (items, report and summary per date) that every sequence of calls implements.
  \<^item> Uv_Loop, Uv_Scheduler, Scheduler_Safety, Scheduler_Runs (third_party/libuv and
    scheduler/imp/uv_scheduler): timers, closing handles, the async handle, an iteration, and the
    scheduler; an ownership invariant (each timer context belongs to one handle, nothing is closed
    twice) is kept by every operation and every callback, and extended to whole sessions.
  \<^item> Loop_Queue and Scheduler_Contracts: the locales \<open>loop_queue\<close> (posting to the loop) and \<open>job_table\<close>
    (jobs by name) are what the scheduler promises; it implements both. The browser manager and the
    WebSocket client see the scheduler through a queue and a wake-up flag, which meet the same contract.
  \<^item> Text_Codecs, Page_Scripts, Chrome_Launch: escaping, base64, the scripts run in pages, the HTTP
    probe, and starting Chrome with the operating system as an oracle.
  \<^item> Cdp_State, Cdp_Context, Cdp_Manager (browser/imp/cdp_browser_manager): the record \<open>manager\<close> holds
    the fields of the class; every lambda the code stores is a constructor of \<open>kont\<close> or \<open>ekont\<close> with
    what it captures (\<open>run_kont\<close>, \<open>run_ekont\<close>); a callback of the caller is a list of what it does (\<open>ucb\<close>,
    \<open>exec_acts\<close>): throw, or call the interface again. A context is an address in \<open>bm_heap\<close>; using one
    that was freed is \<open>Undefined\<close>.
  \<^item> Cdp_Safety: the locale \<open>manager_property\<close> reduces "every operation keeps P" to the primitive
    changes of the state; Cdp_Invariant interprets it for the ownership invariant \<open>bm_inv\<close> of contexts,
    pending commands and timer guards; Cdp_Runs extends it to runs, and its locale \<open>robust_property\<close>
    to runs with exceptions. Cdp_Waits follows a wait for a selector from turn to turn. Cdp_Flows computes
    the exchanges with Chrome message by message.
  \<^item> Llm_Engine, Ws_Client, Logger: the three remaining wheels, with runs of the engine and the client
    as a step relation (\<open>ws_trans\<close>, \<open>ws_reach\<close>).
  \<^item> Scheduler_Clients, Llm_On_Scheduler, Ws_On_Scheduler: the engine and the client together with the
    scheduler of Uv_Scheduler and its loop. A callback given to the scheduler is a signal that names a
    stored closure; the views of the scheduler used in Llm_Engine and Ws_Client (lists of works, a queue
    with a wake-up) are abstractions of it, by the locales \<open>simulation\<close> and \<open>total_simulation\<close>.
  \<^item> Samples, Cdp_Samples, Wheel_Samples: concrete states and runs at which the properties are applied.

  \<^bold>\<open>Reading the definitions.\<close> A definition has the name of the function it models, with a prefix where
  two classes share a name (\<open>bm_\<close> for the manager, \<open>bc_\<close> for a context, \<open>ws_\<close>, \<open>engine_\<close>, \<open>sched_\<close>,
  \<open>storage_\<close>, \<open>logger_\<close>). Machine integers keep their width (\<open>int32\<close>, \<open>u64\<close>); Strings are lists of
  bytes. An operation on state returns the new state with the result, so that the state at the moment
  of an exception is part of the model. \<open>bm_do\<close> and \<open>bm_run\<close> are what can happen to a browser manager,
  in any order: calls of the client, notifications of the socket, finished launches, turns of the loop,
  timers. Logging has no effect on the state it logs from and is left out of the other components.

  \<^bold>\<open>What the properties show.\<close> Browser contexts: a cached context is always alive, timers die with
  their context, a response is handled once, a wait calls back once,
  queued commands are sent in order, the exchange that
  obtains a context, saving and restoring sessions, stopping; and what goes wrong: two requests for one
  platform free the context of the first, a refused close leaves a closed context in the cache, the port
  of the URL is never read. Storage: it refines a store of items, reports and summaries by date; what a failure in the middle
  leaves behind. Scheduler: sessions are memory safe, jobs are replaced, callbacks run in order, stop
  ends the loop. JSON: dump and parse are inverse on valid UTF-8, with the exact domain. Models and
  configuration: round trips and errors. LLM engine: one answer per call, the parts of the base URL.
  WebSocket client: what arrives, read off the events of the socket (\<open>arrivals\<close>), is called back once and in
  order, and there is no way to connect again after the peer closed. Both are
  refined to run on the scheduler. Logger: which levels are written. Several properties of the browser
  manager hold in runs in which no exception of a callback was swallowed (\<open>bm_caught m = []\<close>); each says so.

  \<^bold>\<open>Bounds.\<close> The parser needs no fuel: its recursion ends because each token shortens the text. The
  loop over Chrome's output is bounded by 60 rounds and the HTTP probe by 5, as in the code. \<open>exec_acts\<close>
  terminates because a callback is a finite list of calls. The properties of sessions of the scheduler
  hold until the 32-bit number of one-shot timers could repeat, and say so; the command id of the
  browser manager ends the run with \<open>Undefined\<close> where the code's \<open>int\<close> would overflow.

  \<^bold>\<open>Not modelled.\<close> What Chrome, the operating system, the sockets and the HTTPS client do (they are
  oracles or parameters); the rest of the vendored libraries (spdlog's sinks and formats, IXWebSocket's
  protocol, cpp-httplib, openssl, the parts of libuv and nlohmann::json the program does not call);
  memory exhaustion; a callback of the caller that calls start, stop, step, run or health_check of the browser
  manager while the manager is calling it (a callback may throw or call every other operation, see
  \<open>exec_acts\<close>); that the schedulers of several wheels share the default loop, so that a step of one
  also turns the others (every scheduler has a loop of its own here; for the wheels this is a turn at an
  arbitrary moment, which their runs contain); the data race between the socket thread and the loop on the state of the WebSocket
  client (notifications are atomic steps of the model); the tests and the build files.

  \<^bold>\<open>Where the model decides what the code leaves open.\<close> The accumulator of \<open>base64_decode\<close> is a signed
  int that is shifted left without bound: it wraps here, as GCC and Clang define it, although C++17 calls it
  undefined. The callback of a screenshot runs before the file stream is closed: here the file is complete
  when the callback is called, so a callback that reads the file back could see less in the program. The
  text of a finite double (\<open>to_chars\<close>) is a parameter, as said above. A path is resolved by its text:
  .. and a slash at the end do not ask whether the component before is a directory.
\<close>

subsection \<open>Browser contexts\<close>

text \<open>C1: In every run of the browser manager (start, stop, calls, messages, launches, turns of the
  loop, timers, in any order) in which no exception was swallowed, a cached context is alive, belongs
  to the platform it is cached for and is cached nowhere else, and while the manager is started
  get_context for that platform gives exactly this context to the caller at once.\<close>

theorem browser_cached_context_alive:
  assumes "bm_run fl evs (create_browser c f) = (m, Inr ())" "bm_caught m = []"
    and "map_of (bm_contexts m) p = Some h"
  shows "(\<exists>ctx. map_of (bm_heap m) h = Some ctx \<and> bc_platform ctx = p) \<and>
    (\<forall>q. map_of (bm_contexts m) q = Some h \<longrightarrow> q = p) \<and>
    (bm_started m \<longrightarrow> do_get_context fl p (GetCtx ok err) m = (m, Inr (CallOk (VCtx h))))"
proof -
  note inv = run_inv [OF assms(1,2)]
  have "\<exists>ctx. map_of (bm_heap m) h = Some ctx \<and> bc_platform ctx = p"
    using bm_invD(4) [OF inv assms(3)] by (simp add: live_def)
  moreover have "q = p" if "map_of (bm_contexts m) q = Some h" for q
    using live_unique [OF bm_invD(4) [OF inv that] bm_invD(4) [OF inv assms(3)]] .
  moreover have "bm_started m \<longrightarrow> do_get_context fl p (GetCtx ok err) m = (m, Inr (CallOk (VCtx h)))"
    using assms(3) by (simp add: do_get_context_def)
  ultimately show ?thesis by blast
qed

theorem browser_cached_context_alive_witness:
  "\<exists>evs m ctx. bm_run bits_float_io evs (create_browser sample_config sample_fs) = (m, Inr ()) \<and>
     map_of (bm_heap m) 0 = Some ctx \<and> bc_platform ctx = ''x'' \<and>
     do_get_context bits_float_io ''x'' (GetCtx (Clo None NoFn) (Clo None NoFn)) m = (m, Inr (CallOk (VCtx 0)))"
proof -
  obtain evs m where m: "bm_run bits_float_io evs (create_browser sample_config sample_fs) = (m, Inr ())"
    "bm_caught m = []" "bm_started m" "map_of (bm_contexts m) = [''x'' \<mapsto> 0]"
    using sample_context unfolding sample_manager_def by blast
  from m(4) have "map_of (bm_contexts m) ''x'' = Some 0" by simp
  from browser_cached_context_alive [OF m(1,2) this] m(1,3) show ?thesis by blast
qed

text \<open>C2: In such a run a timer whose context has been destroyed does not call its callback: it is
  only taken off the list.\<close>

theorem browser_timers_die_with_context:
  assumes "bm_run fl evs (create_browser c f) = (m, Inr ())" "bm_caught m = []"
    and "i < length (bm_timers m)" "bm_timers m ! i = (delay, g, cb)"
    and "\<forall>h ctx. map_of (bm_heap m) h = Some ctx \<longrightarrow> g \<notin> set (bc_guards ctx)"
  shows "fire_timer fl i m = (m\<lparr>bm_timers := take i (bm_timers m) @ drop (Suc i) (bm_timers m)\<rparr>, Inr ())"
proof -
  from run_inv [OF assms(1,2)] have "guards_ok m" by (rule bm_invD)
  with assms(5) have "\<not> (g < length (bm_guards m) \<and> bm_guards m ! g)" by (auto simp: guards_ok_def)
  with assms(3,4) show ?thesis by (auto simp: fire_timer_def Let_def)
qed

theorem browser_timers_die_with_context_witness:
  "\<exists>evs m i delay g cb. bm_run bits_float_io evs (create_browser sample_config sample_fs) = (m, Inr ()) \<and>
     bm_timers m ! i = (delay, g, cb) \<and>
     fire_timer bits_float_io i m = (m\<lparr>bm_timers := take i (bm_timers m) @ drop (Suc i) (bm_timers m)\<rparr>, Inr ())"
proof -
  obtain evs m i delay g cb where m: "bm_run bits_float_io evs (create_browser sample_config sample_fs) = (m, Inr ())"
    "bm_caught m = []" "i < length (bm_timers m)" "bm_timers m ! i = (delay, g, cb)" "\<forall>h. map_of (bm_heap m) h = None"
    using sample_orphan_timer unfolding sample_manager_def by blast
  from browser_timers_die_with_context [OF m(1-4)] m(1,4,5) show ?thesis by (intro exI conjI) simp_all
qed

text \<open>C3: Once a response has been handled, every later message with the same id is ignored, whatever
  happens in between (also exceptions, a restart, new commands): no callback is called twice.\<close>

theorem browser_response_once:
  assumes "bm_run fl evs (create_browser c f) = (m, Inr ())"
    and "map_of (bm_pending m) (sint i) = Some ke" "is_answer fl s i" "on_ws_message fl s m = (m1, Inr ())"
    and "bm_run fl evs' m1 = (m2, r)" "is_answer fl s' i"
  shows "on_ws_message fl s' m2 = (m2, Inr ())"
proof -
  have "settled (sint i) m1" using answer_settles [OF reach_ids [OF assms(1)] assms(2-4)] .
  from settled_run.bm_run_robust [OF this, of fl evs'] assms(5) have "settled (sint i) m2" by simp
  then show ?thesis using assms(6) by (rule answer_ignored)
qed

theorem browser_response_once_witness:
  "\<exists>evs m m1 m2 s. bm_run bits_float_io evs (create_browser sample_config sample_fs) = (m, Inr ()) \<and>
     on_ws_message bits_float_io s m = (m1, Inr ()) \<and> m1 \<noteq> m \<and> bm_run bits_float_io [BeStop, BeStart] m1 = (m2, Inr ()) \<and>
     on_ws_message bits_float_io s m2 = (m2, Inr ())"
proof -
  obtain evs m s m1 m2 where m: "bm_run bits_float_io evs (create_browser sample_config sample_fs) = (m, Inr ())"
    "map_of (bm_pending m) (sint (0 :: int32)) = Some (KNothing, ENothing)" "is_answer bits_float_io s 0"
    "on_ws_message bits_float_io s m = (m1, Inr ())" "m1 \<noteq> m" "bm_run bits_float_io [BeStop, BeStart] m1 = (m2, Inr ())"
    using sample_answered unfolding sample_manager_def by blast
  from browser_response_once [OF m(1-4,6,3)] m show ?thesis by blast
qed

text \<open>C4: A wait for a selector tells its caller one thing, once: on_found because Chrome answered that the
  element exists, or on_timeout because the time is over. Whatever turn of the wait makes the call (its
  check on the loop thread, the answer or the failure of a question to Chrome), and whatever happens
  afterwards (the callback itself, calls of the client, messages, turns of the loop, a restart, with or
  without exceptions), no later turn of that wait calls anything or changes anything.\<close>

theorem browser_wait_answers_once:
  assumes "wait_turn fl w a" "a m = (m1, Inr (Some (cb, v)))" "later fl m1 m2"
  shows "wait_answer fl w a m cb v \<and> (\<forall>b. wait_turn fl w b \<longrightarrow> b m2 = (m2, Inr None))"
  using turn_answer [OF assms(1,2)] later_over [OF assms(3)] over_silent by blast

theorem browser_wait_answers_once_witness:
  "\<exists>evs m m1 m2 w s. bm_run bits_float_io evs (create_browser sample_config sample_fs) = (m, Inr ()) \<and>
     run_ekont bits_float_io (EWait w) ''x'' m = (m1, Inr (Some (Clo None (Fn 2 []), VStr s))) \<and>
     m2 = fst (call_clo bits_float_io (Clo None (Fn 2 [])) (VStr s) m1) \<and>
     run_rk bits_float_io (RWait w) (json_object [(''value'', JBool True)]) m2 = (m2, Inr None)"
proof -
  obtain evs m w c where m: "bm_run bits_float_io evs (create_browser sample_config sample_fs) = (m, Inr ())"
    "w < length (bm_waits m)" "\<not> wt_done (bm_waits m ! w)"
    "map_of (bm_heap m) (wt_ctx (bm_waits m ! w)) = Some c" "\<not> bc_closed c"
    "sint (wt_timeout (bm_waits m ! w)) \<le> waited_ms m w" "wt_lost (bm_waits m ! w) = Clo None (Fn 2 [])"
    using sample_wait unfolding sample_manager_def by blast
  from late_turn(1) [OF m(2-6), of bits_float_io "''x''"] obtain m1 s where
    t: "run_ekont bits_float_io (EWait w) ''x'' m = (m1, Inr (Some (Clo None (Fn 2 []), VStr s)))"
    unfolding m(7) by blast
  have "later bits_float_io m1 (fst (call_clo bits_float_io (Clo None (Fn 2 [])) (VStr s) m1))"
    by (intro later.intros)
  from browser_wait_answers_once [OF wait_turn.refused t this] wait_turn.answered m(1) t show ?thesis by blast
qed

text \<open>C5: The ids of the commands that wait for a response lie between 0 and the next id, in every
  run, so that they never collide with a new command; the id counter does not wrap, because the
  command that would overflow it is undefined behaviour and the run ends there.\<close>

theorem browser_ids_bounded:
  assumes "bm_run fl evs (create_browser c f) = (m, Inr ())"
  shows "(\<forall>i. map_of (bm_pending m) i \<noteq> None \<longrightarrow> 0 \<le> i \<and> i < sint (bm_cmd_id m)) \<and> 0 \<le> sint (bm_cmd_id m)"
  using reach_ids [OF assms] by (simp add: ids_ok_def)

theorem browser_ids_bounded_witness:
  "\<exists>evs m. bm_run bits_float_io evs (create_browser sample_config sample_fs) = (m, Inr ()) \<and>
     bm_cmd_id m = 5 \<and> (\<forall>i. map_of (bm_pending m) i \<noteq> None \<longrightarrow> 0 \<le> i \<and> i < 5)"
proof -
  obtain evs m where m: "bm_run bits_float_io evs (create_browser sample_config sample_fs) = (m, Inr ())" "bm_cmd_id m = 5"
    using sample_context unfolding sample_manager_def by blast
  from browser_ids_bounded [OF m(1)] m show ?thesis by auto
qed

text \<open>C6: Commands that are sent before the connection is open (when nothing was waiting before
  and the ids do not run out) are kept and, when it opens, their messages are sent in the order of the
  calls, each once: the k-th message carries the k-th next id and the method, the parameters and the
  session (when there is one) of the k-th call. Then comes Page.enable, with an empty object of
  parameters and no session, under the id that follows; after that nothing is waiting. None of the
  messages can fail to serialise when its texts are UTF-8.\<close>

theorem browser_queue_sent_in_order:
  assumes "\<not> bm_ws_ready m" "bm_pending_commands m = []" "sint (bm_cmd_id m) + int (length cs) < 2 ^ 31 - 1"
    and "list_all command_utf8 cs"
  shows "\<exists>m1 m2 ts t. issue_all fl cs m = (m1, Inr ()) \<and> bm_sent m1 = bm_sent m \<and> length ts = length cs \<and>
    (\<forall>k < length cs. case cs ! k of (meth, params, ok, err, sid) \<Rightarrow>
      json_dump fl (json_object ([(''id'', json_of_int (bm_cmd_id m + of_nat k)), (''method'', JString meth), (''params'', params)] @
        (if sid = [] then [] else [(''sessionId'', JString sid)]))) = Inr (ts ! k)) \<and>
    json_dump fl (json_object [(''id'', json_of_int (bm_cmd_id m + of_nat (length cs))), (''method'', JString ''Page.enable''),
      (''params'', JObject [])]) = Inr t \<and>
    on_ws_open fl m1 = (m2, Inr ()) \<and> bm_sent m2 = bm_sent m @ ts @ [t] \<and> bm_pending_commands m2 = [] \<and> bm_ws_ready m2"
proof -
  obtain m1 where m1: "issue_all fl cs m = (m1, Inr ())" "bm_sent m1 = bm_sent m"
    "sint (bm_cmd_id m1) = sint (bm_cmd_id m) + int (length cs)"
    "bm_pending_commands m1 = messages_from (bm_cmd_id m) cs"
    using issue_all_queues [OF assms(1), of cs fl] assms(2,3) by auto
  obtain ts where ts: "map_res (json_dump fl) (messages_from (bm_cmd_id m) cs) = Inr ts" "length ts = length cs"
    using messages_dump [OF assms(4)] by blast
  have "sint (bm_cmd_id m1) = sint (bm_cmd_id m + of_nat (length cs))"
    using m1(3) sint_plus_nat [of "bm_cmd_id m" "length cs"] assms(3) by simp
  then have id: "bm_cmd_id m1 = bm_cmd_id m + of_nat (length cs)" by (rule signed_word_eqI)
  have texts: "case cs ! k of (meth, params, ok, err, sid) \<Rightarrow>
      json_dump fl (json_object ([(''id'', json_of_int (bm_cmd_id m + of_nat k)), (''method'', JString meth), (''params'', params)] @
        (if sid = [] then [] else [(''sessionId'', JString sid)]))) = Inr (ts ! k)" if "k < length cs" for k
    using messages_texts [OF ts(1) that] by (cases "cs ! k") (simp only: cmd_message_def prod.case)
  have m1_id: "sint (bm_cmd_id m1) \<noteq> 2 ^ 31 - 1" using m1(3) assms(3) by simp
  from open_flushes [OF ts(1) [folded m1(4)] m1_id] obtain t m2 where
    t: "on_ws_open fl m1 = (m2, Inr ())" "bm_ws_ready m2" "bm_pending_commands m2 = []" "bm_sent m2 = bm_sent m1 @ ts @ [t]"
    "json_dump fl (cmd_message (bm_cmd_id m1) ''Page.enable'' (JObject []) []) = Inr t"
    by blast
  from t(5) have "json_dump fl (json_object [(''id'', json_of_int (bm_cmd_id m + of_nat (length cs))),
      (''method'', JString ''Page.enable''), (''params'', JObject [])]) = Inr t"
    by (simp only: cmd_message_def id append_Nil2 simp_thms if_True)
  with m1(1,2) ts(2) texts t(1-4) show ?thesis by auto
qed

theorem browser_queue_sent_in_order_witness:
  "let cs = [(''Page.enable'', JNull, KNothing, ENothing, []), (''Storage.getCookies'', JNull, KNothing, ENothing, [])]
   in \<exists>m1 m2 ts t. issue_all bits_float_io cs (create_browser sample_config sample_fs) = (m1, Inr ()) \<and>
        on_ws_open bits_float_io m1 = (m2, Inr ()) \<and> bm_sent m2 = ts @ [t] \<and> length ts = 2"
proof -
  let ?cs = "[(''Page.enable'', JNull, KNothing, ENothing, []), (''Storage.getCookies'', JNull, KNothing, ENothing, [])]"
  let ?m = "create_browser sample_config sample_fs"
  have "list_all command_utf8 ?cs" by (simp add: command_utf8_def utf8_names del: utf8_valid.simps(2))
  moreover have "\<not> bm_ws_ready ?m" "bm_pending_commands ?m = []" "bm_sent ?m = []" "bm_cmd_id ?m = 0"
    by (simp_all add: create_browser_def new_manager_def)
  ultimately show ?thesis
    using browser_queue_sent_in_order [of ?m ?cs bits_float_io] by auto
qed

text \<open>C7: Messages that the socket thread receives while the scheduler runs (and no launch of Chrome has just
  ended) are handled by the next turn of the loop, all of them, in the order of arrival and after those that
  were posted before: when each is the response to another pending command of the client, and the callbacks
  do nothing themselves, the turn calls the callback of each command with its result, in that order and
  once, takes exactly these commands off the table, and leaves nothing posted. When the scheduler is
  stopped, and no wake-up is left, a turn calls nothing and changes no pending command: the messages are
  kept behind those posted before.\<close>

theorem browser_messages_by_next_turn:
  assumes "bm_done m = []" "bm_posted m = map (\<lambda>r. TMessage (fst r)) before"
    and "\<forall>r \<in> set (before @ new). answers_user fl m r" "distinct (map (\<lambda>r. fst (snd r)) (before @ new))"
  shows "let arrived = fold (\<lambda>r. on_ws_event (WsMessage (fst r))) new m
    in (bm_sched m \<and> new \<noteq> [] \<longrightarrow>
         (\<exists>m'. bm_step fl arrived = (m', Inr ()) \<and> bm_posted m' = [] \<and>
            bm_log m' = bm_log m @ map (\<lambda>(s, i, j, n). (n, VJson j)) (before @ new) \<and>
            map_of (bm_pending m') = map_of (bm_pending m) |` (- set (map (\<lambda>r. sint (fst (snd r))) (before @ new))))) \<and>
       (\<not> bm_sched m \<and> \<not> bm_wake m \<longrightarrow>
         (\<exists>m'. bm_step fl arrived = (m', Inr ()) \<and> bm_log m' = bm_log m \<and> bm_pending m' = bm_pending m \<and>
            bm_posted m' = bm_posted m @ map (\<lambda>r. TMessage (fst r)) new))"
proof -
  let ?m = "m\<lparr>bm_posted := [], bm_wake := False\<rparr>"
  have fold: "fold (\<lambda>r. on_ws_event (WsMessage (fst r))) new m = fold (\<lambda>s. on_ws_event (WsMessage s)) (map fst new) m"
    by (simp add: fold_map comp_def)
  have "\<forall>r \<in> set (before @ new). answers_user fl ?m r" using assms(3) by (simp add: answers_user_def)
  from run_user_responses [OF this assms(4)] obtain m' where
    m': "run_tasks fl (map (\<lambda>r. TMessage (fst r)) (before @ new)) ?m = (m', Inr ())" "bm_posted m' = []"
    "bm_log m' = bm_log m @ map (\<lambda>(s, i, j, n). (n, VJson j)) (before @ new)"
    "map_of (bm_pending m') = map_of (bm_pending m) |` (- set (map (\<lambda>r. sint (fst (snd r))) (before @ new)))"
    by auto
  have "bm_step fl (fold (\<lambda>s. on_ws_event (WsMessage s)) (map fst new) m) = (m', Inr ())" if "bm_sched m" "new \<noteq> []"
    using messages_next_turn [OF assms(1) that(1), of "map fst new" fl] m'(1) that(2) by (simp add: assms(2) comp_def)
  moreover have "bm_step fl (fold (\<lambda>s. on_ws_event (WsMessage s)) (map fst new) m) =
      (m\<lparr>bm_posted := bm_posted m @ map (\<lambda>r. TMessage (fst r)) new\<rparr>, Inr ())" if "\<not> bm_sched m" "\<not> bm_wake m"
    using messages_while_stopped [OF assms(1) that, of fl "map fst new"] by (simp add: comp_def)
  ultimately show ?thesis using m'(2-4) by (simp add: fold Let_def del: map_append set_append)
qed

theorem browser_messages_by_next_turn_witness:
  "\<exists>m s1 s2 m'. issue_all bits_float_io
       [(''Browser.getVersion'', JNull, KUser (Clo None (Fn 1 [])), EUser (Clo None NoFn), []),
        (''Target.getTargets'', JNull, KUser (Clo None (Fn 2 [])), EUser (Clo None NoFn), [])]
       (bm_start (create_browser sample_config sample_fs)) = (m, Inr ()) \<and>
     bm_step bits_float_io (on_ws_event (WsMessage s1) (on_ws_event (WsMessage s2) m)) = (m', Inr ()) \<and>
     bm_log m' = bm_log m @ [(2, VJson JNull), (1, VJson JNull)]"
proof -
  let ?cs = "[(''Browser.getVersion'', JNull, KUser (Clo None (Fn 1 [])), EUser (Clo None NoFn), []),
        (''Target.getTargets'', JNull, KUser (Clo None (Fn 2 [])), EUser (Clo None NoFn), [])]"
  obtain m where m: "issue_all bits_float_io ?cs (bm_start (create_browser sample_config sample_fs)) = (m, Inr ())"
    "bm_done m = []" "bm_posted m = []" "bm_sched m"
    "map_of (bm_pending m) 0 = Some (KUser (Clo None (Fn 1 [])), EUser (Clo None NoFn))"
    "map_of (bm_pending m) 1 = Some (KUser (Clo None (Fn 2 [])), EUser (Clo None NoFn))"
    by (simp add: bm_start_def kill_chrome_def create_browser_def new_manager_def send_queued put_pending_def
        bump_id_def sbind_def)
  have "\<exists>s. replies bits_float_io s i JNull" for i using response_text [OF bits_float_io_ok, of JNull i] by simp
  then obtain s1 s2 where s: "replies bits_float_io s1 0 JNull" "replies bits_float_io s2 1 JNull" by metis
  let ?new = "[(s2, 1 :: int32, JNull, 2), (s1, 0, JNull, 1)]"
  have "\<forall>r \<in> set ([] @ ?new). answers_user bits_float_io m r" "distinct (map (\<lambda>r. fst (snd r)) ([] @ ?new))"
    using s m(5,6) by (simp_all add: answers_user_def)
  from browser_messages_by_next_turn [OF m(2) _ this] m(1,3,4) show ?thesis by (auto simp: Let_def)
qed

text \<open>C8: get_context for a platform without a context, of a started manager with an open connection, runs this exchange: it sends
  Target.createTarget for a blank page; when the response names a target it sends Target.attachToTarget
  for that target; when the response names a session it sends, in that session,
  Page.addScriptToEvaluateOnNewDocument with the script against detection and Page.enable, whose answer
  nobody waits for; when the response to the script arrives, the callback is called once, with a new
  context for the target and session Chrome named, which is cached for the platform. Nothing else is
  sent, and nothing else changes among contexts and pending commands.\<close>

theorem browser_get_context_flow:
  assumes "bm_started m" "bm_ws_ready m" "map_of (bm_contexts m) p = None" "ids_ok m"
    and "i = bm_cmd_id m" "sint i < 2 ^ 31 - 4" "utf8_valid T" "utf8_valid S" "S \<noteq> []"
    and "replies fl s1 i (json_object [(''targetId'', JString T)])"
    and "replies fl s2 (i + 1) (json_object [(''sessionId'', JString S)])" "replies fl s3 (i + 2) j"
  shows "\<exists>m1 m2 m3 m' t1 t2 t3 t4. do_get_context fl p (GetCtx (Clo this (Fn n [])) err) m = (m1, Inr NoCall) \<and>
    on_ws_message fl s1 m1 = (m2, Inr ()) \<and> on_ws_message fl s2 m2 = (m3, Inr ()) \<and>
    on_ws_message fl s3 m3 = (m', Inr ()) \<and>
    bm_sent m1 = bm_sent m @ [t1] \<and> bm_sent m2 = bm_sent m @ [t1, t2] \<and> bm_sent m3 = bm_sent m @ [t1, t2, t3, t4] \<and>
    bm_sent m' = bm_sent m @ [t1, t2, t3, t4] \<and>
    json_dump fl (json_object [(''id'', json_of_int i), (''method'', JString ''Target.createTarget''),
      (''params'', json_object [(''url'', JString ''about:blank'')])]) = Inr t1 \<and>
    json_dump fl (json_object [(''id'', json_of_int (i + 1)), (''method'', JString ''Target.attachToTarget''),
      (''params'', json_object [(''targetId'', JString T), (''flatten'', JBool True)])]) = Inr t2 \<and>
    json_dump fl (json_object [(''id'', json_of_int (i + 2)), (''method'', JString ''Page.addScriptToEvaluateOnNewDocument''),
      (''params'', json_object [(''source'', JString stealth_js)]), (''sessionId'', JString S)]) = Inr t3 \<and>
    json_dump fl (json_object [(''id'', json_of_int (i + 3)), (''method'', JString ''Page.enable''), (''params'', JNull),
      (''sessionId'', JString S)]) = Inr t4 \<and>
    map_of (bm_contexts m') = (map_of (bm_contexts m))(p \<mapsto> bm_next m) \<and>
    map_of (bm_heap m') = (map_of (bm_heap m))(bm_next m \<mapsto> new_context p T S) \<and>
    bm_log m' = bm_log m @ [(n, VCtx (bm_next m))] \<and>
    map_of (bm_pending m') = (map_of (bm_pending m))(sint i + 3 \<mapsto> (KNothing, ENothing))"
proof -
  have msg: "cmd_message k meth params [] = json_object [(''id'', json_of_int k), (''method'', JString meth), (''params'', params)]"
    "cmd_message k meth params S = json_object [(''id'', json_of_int k), (''method'', JString meth), (''params'', params),
       (''sessionId'', JString S)]" for k meth params
    using assms(9) by (simp_all only: cmd_message_def append.simps simp_thms if_True if_False)
  from get_context_exchange [OF assms(1-8,10-12), of this n err] show ?thesis unfolding msg by blast
qed

theorem browser_get_context_flow_witness:
  "\<exists>m m1 m2 m3 m' s1 s2 s3. ids_ok m \<and> do_get_context bits_float_io ''x'' (GetCtx (Clo None (Fn 1 [])) (Clo None NoFn)) m = (m1, Inr NoCall) \<and>
    on_ws_message bits_float_io s1 m1 = (m2, Inr ()) \<and> on_ws_message bits_float_io s2 m2 = (m3, Inr ()) \<and>
    on_ws_message bits_float_io s3 m3 = (m', Inr ()) \<and> map_of (bm_contexts m') ''x'' = Some (bm_next m)"
proof -
  obtain m where m: "bm_run bits_float_io opened_run (create_browser sample_config sample_fs) = (m, Inr ())" "ready m" "bm_cmd_id m = 1"
    using opened by blast
  obtain s1 s2 s3 where s: "replies bits_float_io s1 1 (json_object [(''targetId'', JString ''T'')])"
    "replies bits_float_io s2 (1 + 1) (json_object [(''sessionId'', JString ''S'')])" "replies bits_float_io s3 (1 + 2) JNull"
    using sample_replies by blast
  have r: "bm_started m" "bm_ws_ready m" "map_of (bm_contexts m) ''x'' = None" "1 = bm_cmd_id m" "sint (1 :: int32) < 2 ^ 31 - 4"
    using m(2,3) by (simp_all add: ready_def)
  have "''S'' \<noteq> []" by simp
  from browser_get_context_flow [OF r(1-3) reach_ids [OF m(1)] r(4,5) utf8_T_S this s, of None 1 "Clo None NoFn"]
  show ?thesis using reach_ids [OF m(1)] by (metis fun_upd_same)
qed

text \<open>C9: In a run in which no exception was swallowed: when two requests for one platform were under way, the
  second to be initialised replaces and destroys the context the first caller was given. The second caller
  gets its own context, which is alive, belongs to the platform and is now cached for it, and every
  operation the first caller then performs on its context uses a freed object.\<close>

theorem browser_second_context_destroys_first:
  assumes "bm_run fl evs (create_browser c f) = (m, Inr ())" "bm_caught m = []"
    and "map_of (bm_pending m) (sint i) = Some (KInit p h (GetCtx (Clo this (Fn n [])) err), e)"
    and "map_of (bm_contexts m) p = Some old" "replies fl s i j"
  shows "\<exists>m'. on_ws_message fl s m = (m', Inr ()) \<and> map_of (bm_contexts m') p = Some h \<and>
    (\<exists>ctx. map_of (bm_heap m') h = Some ctx \<and> bc_platform ctx = p) \<and> map_of (bm_heap m') old = None \<and>
    bm_log m' = bm_log m @ [(n, VCtx h)] \<and>
    (\<forall>this' ops ok er. api_call fl this' (Page (Ctx old) ops) ok er m' = (m', Inl Undefined))"
proof -
  from on_cached_context [OF run_inv [OF assms(1,2)] assms(3-5)] obtain m' where
    "on_ws_message fl s m = (m', Inr ())" "map_of (bm_contexts m') p = Some h" "map_of (bm_heap m') old = None"
    "\<exists>ctx. map_of (bm_heap m') h = Some ctx \<and> bc_platform ctx = p"
    "bm_log m' = bm_log m @ [(n, VCtx h)]" by (auto simp: live_def)
  then show ?thesis using dangling_call by blast
qed

theorem browser_second_context_destroys_first_witness:
  "\<exists>evs m m' h s. bm_run bits_float_io evs (create_browser sample_config sample_fs) = (m, Inr ()) \<and>
     map_of (bm_contexts m) ''x'' = Some 0 \<and> on_ws_message bits_float_io s m = (m', Inr ()) \<and> map_of (bm_contexts m') ''x'' = Some h \<and>
     api_call bits_float_io None (Page (Ctx 0) CurrentUrl) (Clo None NoFn) (Clo None NoFn) m' = (m', Inl Undefined)"
proof -
  obtain evs m h e s where m: "bm_run bits_float_io evs (create_browser sample_config sample_fs) = (m, Inr ())" "bm_caught m = []"
    "map_of (bm_pending m) (sint (7 :: int32)) = Some (KInit ''x'' h (GetCtx (Clo None (Fn 5 [])) (Clo None (Fn 6 []))), e)"
    "map_of (bm_contexts m) ''x'' = Some 0" "replies bits_float_io s 7 JNull"
    using sample_two_contexts unfolding sample_manager_def by blast
  from browser_second_context_destroys_first [OF m] m show ?thesis by blast
qed

text \<open>C10: In a started manager with an open connection: when Chrome refuses to close a target, the caller's error callback gets the message of Chrome
  and the context stays cached although it is marked as closed: get_context still hands it out, but on
  it every element operation (click, type, scroll, press_key, hover, exists, wait_for_selector) fails at
  once with "context closed" and a second close with "already closed". The operations that do not look
  at the mark (navigate, evaluate, add_init_script, current_url, screenshot, send_command and the dump
  of the page structure) act as on an open context.\<close>

theorem browser_failed_close_stays_cached:
  assumes "bm_started m" "bm_ws_ready m" "sint (bm_cmd_id m) \<noteq> 2 ^ 31 - 1"
    and "map_of (bm_contexts m) p = Some h" "map_of (bm_heap m) h = Some ctx" "\<not> bc_closed ctx" "utf8_valid (bc_target ctx)"
    and "fails fl s (bm_cmd_id m) msg"
  shows "\<exists>m1 m2. page_call fl h ctx CloseContext ok (Clo this (Fn n [])) m = (m1, Inr NoCall) \<and>
    on_ws_message fl s m1 = (m2, Inr ()) \<and> bm_log m2 = bm_log m @ [(n, VStr msg)] \<and>
    do_get_context fl p (GetCtx ok' er) m2 = (m2, Inr (CallOk (VCtx h))) \<and>
    (\<forall>css txt dx dy key timeout. \<forall>op \<in> {Click css, TypeText css txt, Scroll dx dy, PressKey key, Hover css,
        ExistsSelector css, WaitForSelector css timeout}.
      api_call fl this' (Page (Ctx h) op) ok' er m2 = (m2, Inr (CallErr ''context closed''))) \<and>
    api_call fl this' (Page (Ctx h) CloseContext) ok' er m2 = (m2, Inr (CallErr ''already closed'')) \<and>
    (\<forall>url js path meth params. \<forall>op \<in> {Navigate url, Evaluate js, AddInitScript js, CurrentUrl, Screenshot path,
        SendCommand meth params, DumpStructure}.
      api_call fl this' (Page (Ctx h) op) ok' er m2 = page_call fl h ctx op ok' er m2)"
proof -
  let ?c = "ctx\<lparr>bc_closed := True\<rparr>"
  from close_failure [OF assms] obtain m1 m2 where m: "page_call fl h ctx CloseContext ok (Clo this (Fn n [])) m = (m1, Inr NoCall)"
    "on_ws_message fl s m1 = (m2, Inr ())" "bm_log m2 = bm_log m @ [(n, VStr msg)]" "map_of (bm_contexts m2) p = Some h"
    "map_of (bm_heap m2) h = Some ?c" "bm_started m2" by blast
  have call: "api_call fl this' (Page (Ctx h) op) ok' er m2 = page_call fl h ?c op ok' er m2" for op
    using m(5) by (simp add: ctx_of_ref_def deref_def sbind_def)
  have get: "do_get_context fl p (GetCtx ok' er) m2 = (m2, Inr (CallOk (VCtx h)))"
    using m(4,6) by (simp add: do_get_context_def)
  have "bc_closed ?c" by simp
  note closed = closed_page_calls [OF this, of fl h ok' er m2]
  note unmarked = unmarked_page_calls [where fl = fl and h = h and c = ctx and b = True and ok = ok' and err = er and m = m2]
  show ?thesis
    by (rule exI [of _ m1], rule exI [of _ m2], unfold call, intro conjI) (rule m(1-3) get closed unmarked)+
qed

theorem browser_failed_close_stays_cached_witness:
  "\<exists>evs m m1 m2 s ctx. bm_run bits_float_io evs (create_browser sample_config sample_fs) = (m, Inr ()) \<and>
     page_call bits_float_io 0 ctx CloseContext (Clo None NoFn) (Clo None (Fn 3 [])) m = (m1, Inr NoCall) \<and>
     on_ws_message bits_float_io s m1 = (m2, Inr ()) \<and> bm_log m2 = bm_log m @ [(3, VStr ''T'')] \<and>
     do_get_context bits_float_io ''x'' (GetCtx (Clo None NoFn) (Clo None NoFn)) m2 = (m2, Inr (CallOk (VCtx 0)))"
proof -
  obtain evs m where m: "bm_run bits_float_io evs (create_browser sample_config sample_fs) = (m, Inr ())" "bm_started m"
    "bm_ws_ready m" "bm_cmd_id m = 5" "map_of (bm_contexts m) = [''x'' \<mapsto> 0]" "map_of (bm_heap m) = [0 \<mapsto> new_context ''x'' ''T'' ''S'']"
    using sample_context unfolding sample_manager_def by blast
  obtain s where s: "fails bits_float_io s 5 ''T''" using failure_text [OF bits_float_io_ok utf8_T_S(1)] by blast
  have c: "map_of (bm_contexts m) ''x'' = Some 0" "map_of (bm_heap m) 0 = Some (new_context ''x'' ''T'' ''S'')"
    "\<not> bc_closed (new_context ''x'' ''T'' ''S'')" "utf8_valid (bc_target (new_context ''x'' ''T'' ''S''))"
    "sint (bm_cmd_id m) \<noteq> 2 ^ 31 - 1"
    using m(4-6) utf8_T_S(1) by (simp_all add: new_context_def del: utf8_valid.simps)
  from browser_failed_close_stays_cached [OF m(2,3) c(5,1-4) s [folded m(4)], where this = None and n = 3
      and ok = "Clo None NoFn" and ok' = "Clo None NoFn" and er = "Clo None NoFn" and this' = None] obtain m1 m2 where
    "page_call bits_float_io 0 (new_context ''x'' ''T'' ''S'') CloseContext (Clo None NoFn) (Clo None (Fn 3 [])) m = (m1, Inr NoCall)"
    "on_ws_message bits_float_io s m1 = (m2, Inr ())" "bm_log m2 = bm_log m @ [(3, VStr ''T'')]"
    "do_get_context bits_float_io ''x'' (GetCtx (Clo None NoFn) (Clo None NoFn)) m2 = (m2, Inr (CallOk (VCtx 0)))"
    by (elim exE conjE)
  with m(1) show ?thesis by blast
qed

text \<open>C11: The cookies saved by save_session come back from restore_session: when the session file can be
  written, the document written is parsed again and the very cookies (up to the representation of
  numbers) are sent to Chrome as Storage.setCookies in the session of the cached context.\<close>

theorem browser_session_roundtrip:
  assumes "float_io_ok fl" "wf_json cookies" "json_utf8 cookies"
    and "writable (bm_fs m) (session_path (bm_config m) p)"
    and "bm_started m" "bm_ws_ready m" "sint (bm_cmd_id m) \<noteq> 2 ^ 31 - 1"
    and "map_of (bm_contexts m) p = Some h" "map_of (bm_heap m) h = Some ctx" "utf8_valid (bc_session ctx)"
  shows "\<exists>m1 m2 s. run_kont fl (KCookies p ok) (json_object [(''cookies'', cookies)]) m = (m1, Inr (Some (ok, VUnit))) \<and>
    restore_session fl p ok' err' m1 = (m2, Inr NoCall) \<and> bm_sent m2 = bm_sent m @ [s] \<and>
    json_dump fl (cmd_message (bm_cmd_id m) ''Storage.setCookies''
       (json_object [(''cookies'', norm_json cookies)]) (bc_session ctx)) = Inr s"
proof -
  from session_restored [OF assms, of ok ok' err'] obtain m1 s where
    "run_kont fl (KCookies p ok) (json_object [(''cookies'', cookies)]) m = (m1, Inr (Some (ok, VUnit)))" "bm_sent m1 = bm_sent m"
    "restore_session fl p ok' err' m1 = (sent_cmd (KRestored ok') (EUser err') s m1, Inr NoCall)"
    "json_dump fl (cmd_message (bm_cmd_id m) ''Storage.setCookies''
       (json_object [(''cookies'', norm_json cookies)]) (bc_session ctx)) = Inr s" by blast
  then show ?thesis
    by (intro exI [of _ m1] exI [of _ "sent_cmd (KRestored ok') (EUser err') s m1"] exI [of _ s] conjI)
      (assumption | simp only: sent_cmd_fields)+
qed

theorem browser_session_roundtrip_witness:
  "\<exists>evs m m1 m2 s. bm_run bits_float_io evs (create_browser sample_config sample_fs) = (m, Inr ()) \<and>
     run_kont bits_float_io (KCookies ''x'' (Clo None NoFn)) (json_object [(''cookies'', JArray [])]) m =
       (m1, Inr (Some (Clo None NoFn, VUnit))) \<and>
     restore_session bits_float_io ''x'' (Clo None NoFn) (Clo None NoFn) m1 = (m2, Inr NoCall) \<and> bm_sent m2 = bm_sent m @ [s]"
proof -
  obtain evs m where m: "bm_run bits_float_io evs (create_browser sample_config sample_fs) = (m, Inr ())" "bm_started m"
    "bm_ws_ready m" "bm_cmd_id m = 5" "map_of (bm_contexts m) = [''x'' \<mapsto> 0]" "map_of (bm_heap m) = [0 \<mapsto> new_context ''x'' ''T'' ''S'']"
    "setting m = (sample_fs, sample_config, 42, [])"
    using sample_context unfolding sample_manager_def by blast
  have w: "writable (bm_fs m) (session_path (bm_config m) ''x'')" using m(7) sample_writable by (simp add: setting_def)
  have c: "map_of (bm_contexts m) ''x'' = Some 0" "map_of (bm_heap m) 0 = Some (new_context ''x'' ''T'' ''S'')"
    "utf8_valid (bc_session (new_context ''x'' ''T'' ''S''))" "sint (bm_cmd_id m) \<noteq> 2 ^ 31 - 1"
    using m(4-6) utf8_T_S(2) by (simp_all add: new_context_def del: utf8_valid.simps)
  have j: "wf_json (JArray [])" "json_utf8 (JArray [])" by simp_all
  from browser_session_roundtrip [OF bits_float_io_ok j w m(2,3) c(4,1-3)] m(1) show ?thesis by blast
qed

text \<open>C12: In a run in which no exception was swallowed, stopping a started manager succeeds: every cached
  context is destroyed, Chrome is killed once if it was running, the timers are dropped and the manager
  is no longer started. Posted tasks stay queued and no callback is called.\<close>

theorem browser_stop_releases:
  assumes "bm_run fl evs (create_browser c f) = (m, Inr ())" "bm_caught m = []" "bm_started m"
  shows "\<exists>m'. bm_stop m = (m', Inr ()) \<and> bm_contexts m' = [] \<and> \<not> bm_started m' \<and> \<not> sint (bm_pid m') > 0 \<and>
    (\<forall>p h. map_of (bm_contexts m) p = Some h \<longrightarrow> map_of (bm_heap m') h = None) \<and>
    bm_killed m' = bm_killed m @ (if sint (bm_pid m) > 0 then [bm_pid m] else []) \<and>
    bm_timers m' = [] \<and> bm_posted m' = bm_posted m \<and> bm_log m' = bm_log m"
  using stop_releases [OF run_inv [OF assms(1,2)] assms(3)] by blast

theorem browser_stop_releases_witness:
  "\<exists>evs m m'. bm_run bits_float_io evs (create_browser sample_config sample_fs) = (m, Inr ()) \<and>
     map_of (bm_contexts m) ''x'' = Some 0 \<and> bm_stop m = (m', Inr ()) \<and> bm_contexts m' = [] \<and> map_of (bm_heap m') 0 = None"
proof -
  obtain evs m where m: "bm_run bits_float_io evs (create_browser sample_config sample_fs) = (m, Inr ())" "bm_caught m = []"
    "bm_started m" "map_of (bm_contexts m) = [''x'' \<mapsto> 0]"
    using sample_context unfolding sample_manager_def by blast
  from m(4) have "map_of (bm_contexts m) ''x'' = Some 0" by simp
  with browser_stop_releases [OF m(1-3)] m(1) show ?thesis by blast
qed

text \<open>C13: In the scripts of click, hover, exists and type the argument stands in a string literal that a
  JavaScript engine reads back as exactly the argument, however it is quoted or escaped, and the
  fixed rest of the script follows: no selector or text can break out of its literal. A selector with
  a line break makes the literal, and so the script, invalid; the text of type may contain them.\<close>

theorem page_scripts_quote_arguments:
  "\<exists>click_pre click_rest hover_pre hover_rest exists_pre exists_rest type_rest. \<forall>css txt.
     click_js css = click_pre @ quote_char # js_selector css @ quote_char # click_rest \<and>
     hover_js css = hover_pre @ quote_char # js_selector css @ quote_char # hover_rest \<and>
     exists_js css = exists_pre @ quote_char # js_selector css @ quote_char # exists_rest \<and>
     type_js css txt = type_head @ quote_char # js_selector css @ quote_char # type_mid @ quote_char # js_text txt @ quote_char # type_rest \<and>
     (\<forall>rest. js_read (js_selector css @ quote_char # rest) =
        (if line_feed \<in> set css \<or> carriage_return \<in> set css then None else Some (css, rest))) \<and>
     (\<forall>rest. js_read (js_text txt @ quote_char # rest) = Some (txt, rest))"
  unfolding js_read_selector js_read_text using click_js_frame hover_js_frame exists_js_frame type_js_frame by metis

text \<open>C14: A screenshot that Chrome sends in standard base64, possibly broken into lines, is written to the
  file byte for byte and the caller is told; when the file cannot be opened the error callback is told
  and nothing is written.\<close>

theorem screenshot_roundtrip:
  assumes "filter (\<lambda>c. \<not> is_space c) data = base64_encode img" "path \<noteq> []"
  shows "\<exists>m' c. run_kont fl (KShot path ok err) (json_object [(''data'', JString data)]) m = (m', Inr (Some c)) \<and>
    (if writable (bm_fs m) path then c = (ok, VUnit) \<and> slurp_file (bm_fs m') path = img
     else c = (err, VStr ''screenshot: cannot write file'') \<and> m' = m)"
  using shot_written [OF base64_roundtrip [OF assms(1)] assms(2)] shot_refused by (metis (full_types))

theorem screenshot_roundtrip_witness:
  "\<exists>m' c. run_kont bits_float_io (KShot ''/home/a.png'' (Clo None NoFn) (Clo None NoFn))
      (json_object [(''data'', JString ([line_feed] @ base64_encode [CHR 0x89, CHR ''P'', CHR ''N'', CHR 0x00]))])
      (create_browser sample_config sample_fs) = (m', Inr (Some c)) \<and>
    slurp_file (bm_fs m') ''/home/a.png'' = [CHR 0x89, CHR ''P'', CHR ''N'', CHR 0x00]"
proof -
  have "filter (\<lambda>c. \<not> is_space c) ([line_feed] @ base64_encode [CHR 0x89, CHR ''P'', CHR ''N'', CHR 0x00]) =
      base64_encode [CHR 0x89, CHR ''P'', CHR ''N'', CHR 0x00]"
    by code_simp
  moreover have "writable (bm_fs (create_browser sample_config sample_fs)) ''/home/a.png''"
    by (simp add: create_browser_def new_manager_def) code_simp
  ultimately show ?thesis
    using screenshot_roundtrip [of "[line_feed] @ base64_encode [CHR 0x89, CHR ''P'', CHR ''N'', CHR 0x00]"
        "[CHR 0x89, CHR ''P'', CHR ''N'', CHR 0x00]" "''/home/a.png''" bits_float_io
        "Clo None NoFn" "Clo None NoFn" "create_browser sample_config sample_fs"]
    by (metis list.distinct(1))
qed

text \<open>C15: The port in the URL that Chrome prints is never read: for every URL of the form
  ws://host:port/path launch_chrome succeeds with that URL, but waits for the HTTP service on the
  configured port, or on 9222, instead of the port Chrome chose, and gives up after five rounds.\<close>

theorem browser_launch_probes_wrong_port:
  assumes "find_chrome (os_executable os) path \<noteq> []" "os_pipe os" "os_fork os = Some pid"
    and "read_url 60 [] (os_polls os) = ws_prefix @ host @ CHR '':'' # tail"
    and "CHR '':'' \<notin> set host" "CHR '':'' \<notin> set tail"
  shows "\<exists>rounds. rounds \<le> 5 \<and> launch_chrome os path cdp_port st =
     (st\<lparr>ls_pid := pid, ls_url := ws_prefix @ host @ CHR '':'' # tail,
        ls_probed := Some (if cdp_port = 0 then 9222 else cdp_port, rounds)\<rparr>, Inr ())"
  using launch_probes_default [OF assms] http_rounds_bound [of 5] by (auto simp: default_port_def)

theorem browser_launch_probes_wrong_port_witness:
  "\<exists>rounds st. launch_chrome sample_os [] 0 \<lparr>ls_url = [], ls_error = [], ls_pid = - 1, ls_probed = None\<rparr> = (st, Inr ()) \<and>
     ls_url st = ''ws://127.0.0.1:35001/devtools'' \<and> ls_probed st = Some (9222, rounds)"
proof -
  have "find_chrome (os_executable sample_os) [] \<noteq> []" "os_pipe sample_os" "os_fork sample_os = Some 42"
    by (simp_all add: find_chrome_def sample_os_def chrome_candidates_def)
  moreover have "read_url 60 [] (os_polls sample_os) = ws_prefix @ ''127.0.0.1'' @ CHR '':'' # ''35001/devtools''"
    by (simp add: sample_read sample_url_def ws_prefix_def)
  ultimately show ?thesis
    using browser_launch_probes_wrong_port [of sample_os "[]" 42 "''127.0.0.1''" "''35001/devtools''" 0
        "\<lparr>ls_url = [], ls_error = [], ls_pid = - 1, ls_probed = None\<rparr>"]
    by (auto simp: ws_prefix_def)
qed

subsection \<open>Storage\<close>

text \<open>C16: The storage keeps the contract of its interface: in any sequence of saves and loads of items, reports
  and summaries, for any dates that can be stored (an empty date is today), with valid UTF-8, every call
  succeeds and returns what a store returns that holds for every date a list of items, a report and a
  summary, and afterwards the files represent that store again.\<close>

theorem storage_refines_store:
  assumes "represents fl today st dates f a" "float_io_ok fl"
    and "list_all op_good ps" "\<forall>p \<in> set ps. or_today today (op_date p) \<in> dates"
  shows "\<exists>f' b rs. storage_calls fl today st ps f = (f', map Inr rs) \<and> store_calls today ps a = (b, rs) \<and>
    represents fl today st dates f' b"
  using calls_represented [OF assms] .

theorem storage_refines_store_witness:
  "let ps = [SaveItems [sample_item, default_item] ''2024-01-02'', SaveReport ''r'' ''2024-01-03'', LoadItems [] ''x'',
       SaveReport ''s'' ''2024-01-03'', LoadReport ''2024-01-03'', LoadSummary [], LoadReport []]
   in snd (storage_calls bits_float_io ''2024-01-02'' sample_storage ps sample_fs) =
        map Inr [Done, Done, Items [norm_item sample_item], Done, Report ''s'', Summary JNull, Report []]"
proof -
  let ?ps = "[SaveItems [sample_item, default_item] ''2024-01-02'', SaveReport ''r'' ''2024-01-03'', LoadItems [] ''x'',
       SaveReport ''s'' ''2024-01-03'', LoadReport ''2024-01-03'', LoadSummary [], LoadReport []]"
  let ?D = "{''2024-01-02'', ''2024-01-03''}"
  have "fs_node sample_fs (resolve sample_fs (js_data_dir sample_storage) @ [d, x]) = None" for d x
    by (simp add: sample_fs_def)
  note empty = this
  have r: "represents bits_float_io ''2024-01-02'' sample_storage ?D sample_fs (\<lambda>_. empty_day)"
    by (rule represents_empty) (auto simp: sample_storable empty)
  have d: "\<forall>p \<in> set ?ps. or_today ''2024-01-02'' (op_date p) \<in> ?D" by (simp add: or_today_def)
  have "snd (store_calls ''2024-01-02'' ?ps (\<lambda>_. empty_day)) =
      [Done, Done, Items [norm_item sample_item], Done, Report ''s'', Summary JNull, Report []]"
    by (simp add: store_call_def or_today_def empty_day_def norm_item_def sample_item_def default_item_def)
  moreover have "list_all op_good ?ps" by (simp add: sample_items)
  ultimately show ?thesis
    unfolding Let_def using storage_refines_store [OF r bits_float_io_ok _ d] by fastforce
qed

text \<open>C17: Items saved under a date, in any number of calls of save_items, are loaded back by
  load_items in the order they were saved, after the items that were there, provided the date can
  be stored and the items are valid UTF-8; nothing but the number representation inside metrics
  changes, and no item is lost, duplicated or merged with another.\<close>

theorem storage_saves_append:
  assumes "float_io_ok fl" "storable st d f" "list_all (list_all good_item) batches"
  shows "load_items fl today st d [] (fold (\<lambda>b g. fst (save_items fl today st b d g)) batches f) =
           bind_res (load_items fl today st d [] f)
             (\<lambda>old. Inr (old @ map norm_item (concat batches)))"
proof -
  have "store_save (fl, today, st) b d = (\<lambda>g. fst (save_items fl today st b d g))" for b
    by (simp add: store_save_def fun_eq_iff)
  with js.save_in_batches [of "(fl, today, st)" d f batches] assms show ?thesis
    by (simp add: store_ok_def store_load_def)
qed

theorem storage_saves_append_witness:
  "load_items bits_float_io ''t'' sample_storage ''2024-01-02'' []
     (fold (\<lambda>b g. fst (save_items bits_float_io ''t'' sample_storage b ''2024-01-02'' g))
        [[sample_item], [default_item, sample_item]] sample_fs) =
   Inr (map norm_item [sample_item, default_item, sample_item])"
  using storage_saves_append [OF bits_float_io_ok sample_storable,
      of "''2024-01-02''" "[[sample_item], [default_item, sample_item]]" "''t''"]
  by (simp add: sample_items(1,2) sample_no_items)

text \<open>C18: When an item in the middle of a batch is not valid UTF-8, save_items throws type error 316
  and exactly the items before it have been stored; the rest of the batch is dropped.\<close>

theorem storage_failed_save_keeps_prefix:
  assumes "float_io_ok fl" "storable st d f" "list_all good_item pre"
    "\<not> json_utf8 (item_to_json bad)"
    "list_all (\<lambda>i. wf_json (ui_metrics i)) (bad # rest)"
  shows "snd (save_items fl today st (pre @ bad # rest) d f) = Inl (JsonTypeError 316) \<and>
         load_items fl today st d [] (fst (save_items fl today st (pre @ bad # rest) d f)) =
           bind_res (load_items fl today st d [] f) (\<lambda>old. Inr (old @ map norm_item pre))"
  using save_fails_at [OF assms(1-3)] assms(4,5) by blast

theorem storage_failed_save_keeps_prefix_witness:
  "snd (save_items bits_float_io ''t'' sample_storage [sample_item, bad_item, default_item] ''2024-01-02''
      sample_fs) = Inl (JsonTypeError 316) \<and>
   load_items bits_float_io ''t'' sample_storage ''2024-01-02'' []
     (fst (save_items bits_float_io ''t'' sample_storage [sample_item, bad_item, default_item]
        ''2024-01-02'' sample_fs)) = Inr [norm_item sample_item]"
  using storage_failed_save_keeps_prefix [OF bits_float_io_ok sample_storable [of "''2024-01-02''"],
      of "[sample_item]" bad_item "[default_item]" "''t''"] sample_items
  by (simp add: sample_no_items good_item_def)

text \<open>C19: Saving items under one date changes neither what load_items returns for another date, for
  any platform filter, nor any file other than the items file of that date (deeper than the
  directory of the date); and the order of saves under two dates does not matter.\<close>

theorem storage_dates_independent:
  assumes "float_io_ok fl" "storable st d f" "storable st d' f" "d \<noteq> d'" "list_all good_item is"
  shows "load_items fl today st d pf (fst (save_items fl today st is' d' f)) =
           load_items fl today st d pf f \<and>
         (\<forall>q. q \<noteq> items_file st d' f \<longrightarrow> Suc (length (resolve f (js_data_dir st))) < length q \<longrightarrow>
            fs_node (fst (save_items fl today st is' d' f)) q = fs_node f q) \<and>
         load_items fl today st d []
           (fst (save_items fl today st is' d' (fst (save_items fl today st is d f)))) =
         load_items fl today st d []
           (fst (save_items fl today st is d (fst (save_items fl today st is' d' f))))"
  using js.save_commutes_with_other [of "(fl, today, st)" d f d' "is" is'] assms
    load_other_date [OF assms(3) _ assms(4)] save_items_frame [OF assms(3)]
  by (auto simp: store_ok_def store_save_def store_load_def storable_def)

theorem storage_dates_independent_witness:
  "load_items bits_float_io ''t'' sample_storage ''2024-01-02'' ''x''
     (fst (save_items bits_float_io ''t'' sample_storage [sample_item] ''2024-01-03'' sample_fs)) = Inr []"
  using storage_dates_independent [OF bits_float_io_ok sample_storable sample_storable,
      of "''2024-01-02''" "''2024-01-03''" "[]" "''t''" "''x''" "[sample_item]"]
  by (simp add: sample_no_items)

text \<open>The platform argument of load_items is a filter: loading for a platform gives exactly the
  items of that platform, in order, and the empty platform gives all; it fails exactly when loading
  everything does.\<close>

theorem storage_platform_filter:
  "load_items fl today st date pf f = bind_res (load_items fl today st date [] f)
     (\<lambda>is. Inr (if pf = [] then is else filter (\<lambda>i. ui_platform i = pf) is))"
  by (rule load_items_filter)

text \<open>A report saved under a date is read back byte for byte, whatever it contains, replaces the
  previous one and leaves the items of the date as they were; a summary that is valid UTF-8 is read
  back up to number representation.\<close>

theorem storage_report_summary_roundtrip:
  assumes "float_io_ok fl" "storable st d f" "wf_json j" "json_utf8 j"
  shows "load_report today st d (fst (save_report today st md d f)) = Inr md \<and>
         load_items fl today st d pf (fst (save_report today st md d f)) = load_items fl today st d pf f \<and>
         load_summary fl today st d (fst (save_summary fl today st j d f)) = Inr (norm_json j) \<and>
         snd (save_summary fl today st j d f) = Inr ()"
  using report_roundtrip [OF assms(2)] summary_roundtrip [OF assms] by blast

theorem storage_report_summary_roundtrip_witness:
  "load_report ''t'' sample_storage ''2024-01-02''
     (fst (save_report ''t'' sample_storage [CHR 0xFF, CHR 0x0A] ''2024-01-02'' sample_fs)) =
     Inr [CHR 0xFF, CHR 0x0A] \<and>
   load_summary bits_float_io ''t'' sample_storage ''2024-01-02''
     (fst (save_summary bits_float_io ''t'' sample_storage (JObject [(''n'', JUnsigned 3)]) ''2024-01-02''
        sample_fs)) = Inr (JObject [(''n'', JUnsigned 3)])"
proof -
  have "json_utf8 (JObject [(''n'', JUnsigned 3)])" by code_simp
  with storage_report_summary_roundtrip [OF bits_float_io_ok sample_storable [of "''2024-01-02''"],
      of "JObject [(''n'', JUnsigned 3)]" "''t''" "[CHR 0xFF, CHR 0x0A]"]
  show ?thesis by simp
qed

text \<open>C20: save_summary truncates summary.json before it serializes the value: when the value is not
  valid UTF-8 the call throws type error 316, the previous summary is lost, and the next
  load_summary throws a parse error.\<close>

theorem storage_failed_summary_loses_old:
  assumes "storable st d f" "\<not> json_utf8 j"
  shows "snd (save_summary fl today st j d f) = Inl (JsonTypeError 316) \<and>
         load_summary fl today st d (fst (save_summary fl today st j d f)) = Inl JsonParseError"
  by (rule summary_failed [OF assms])

theorem storage_failed_summary_loses_old_witness:
  "snd (save_summary bits_float_io ''t'' sample_storage (JString [CHR 0xFF]) ''2024-01-02'' sample_fs) =
     Inl (JsonTypeError 316) \<and>
   load_summary bits_float_io ''t'' sample_storage ''2024-01-02''
     (fst (save_summary bits_float_io ''t'' sample_storage (JString [CHR 0xFF]) ''2024-01-02'' sample_fs)) =
     Inl JsonParseError"
  by (rule storage_failed_summary_loses_old [OF sample_storable]) (simp, code_simp)

text \<open>C21: list_dates gives the directories under the data directory, except the one named sessions,
  each once, in descending order of their names, whatever the order in which the system lists the
  directory; of two names that today_str gave, the one of the later day comes first.\<close>

theorem storage_list_dates:
  assumes "lists_dir readdir f" "fs_exists f (js_data_dir st)" "list_dates readdir st f = Inr ds"
  shows "set ds = {n. fs_node f (resolve f (js_data_dir st) @ [n]) = Some Dir \<and> n \<noteq> ''sessions''} \<and>
         sorted_wrt (>) ds \<and> sorted_wrt later_first ds \<and> (\<forall>readdir'. lists_dir readdir' f \<longrightarrow> list_dates readdir' st f = Inr ds)"
  using list_dates_set [OF assms(1,3,2)] list_dates_order [OF assms(1,3)] list_dates_readdir assms
    descending_later_first by metis

theorem storage_list_dates_witness:
  "list_dates (\<lambda>p. if p = [] then [''home''] else []) (new_storage ''/'') sample_fs = Inr [''home''] \<and>
   set [''home''] = {n. fs_node sample_fs (resolve sample_fs ''/'' @ [n]) = Some Dir \<and> n \<noteq> ''sessions''}"
proof -
  let ?r = "\<lambda>p :: string list. if p = [] then [''home''] else []"
  have r: "resolve sample_fs ''/'' = []" by (simp add: resolve_def path_step_def)
  have l: "lists_dir ?r sample_fs" by (auto simp: lists_dir_def sample_fs_def)
  have "list_dates ?r (new_storage ''/'') sample_fs = Inr [''home'']"
    by (simp add: list_dates_def new_storage_def r fs_exists_def)
  with storage_list_dates [OF l _ this] r show ?thesis by (simp add: new_storage_def fs_exists_def)
qed

text \<open>After a successful start the data directory exists and health_check holds; starting again
  changes nothing, and stop does not change the health of the storage.\<close>

theorem storage_lifecycle:
  assumes "storage_start st f = ((st', g), Inr ())" "\<not> js_started st" "wf_fs f"
  shows "js_started st' \<and> storage_health_check st' g \<and> storage_start st' g = ((st', g), Inr ()) \<and>
         storage_health_check (storage_stop st') g"
  using storage_start_health [OF assms(1) _ assms(3)] assms(2) by simp

theorem storage_lifecycle_witness:
  "\<exists>st' g. storage_start sample_storage sample_fs = ((st', g), Inr ()) \<and> storage_health_check st' g"
proof -
  obtain st' g where s: "storage_start sample_storage sample_fs = ((st', g), Inr ())"
    by (simp add: storage_start_def create_directories_def sample_storage_def new_storage_def
        sample_fs_def resolve_def path_step_def set_node_def)
  with storage_lifecycle [OF this _ sample_wf] show ?thesis
    by (auto simp: sample_storage_def new_storage_def)
qed

subsection \<open>Scheduler\<close>

text \<open>C22: Whatever the embedding program does on the loop thread (adding, removing and replacing jobs,
  one-shot timers, posts, pool works, steps, stop), with callbacks that themselves add, remove,
  post and throw, no libuv assertion or memory rule is violated and the ownership invariant
  holds, at least until 2^32 one-shot timer numbers could have been used; provided callbacks call
  neither start nor stop, job names do not begin with the reserved prefix, and pool bodies only
  post.\<close>

theorem scheduler_session_safe:
  assumes "list_all event_ok evs"
  shows "\<exists>k s'. k \<le> length evs \<and> session c (take k evs) = Inr s' \<and> safe s' \<and>
           (k = length evs \<or> 2 ^ 32 \<le> 2 * budget s' + event_afters (evs ! k))"
proof -
  obtain s where s: "sched_start (new_scheduler c) = Inr s" using start_new by blast
  from run_events_ok [OF started_rested(1) [OF s] assms] s show ?thesis
    by (auto simp: session_def rested_def)
qed

theorem scheduler_session_safe_witness:
  "let evs = [Call (AddJob ''poll'' 5 (Some [Emit 1, Post (Some [RemoveJob ''poll''])])), Step (1, 6),
       Call (RunBlocking (Some [Emit 2]) None), Pool 0, Step (7, 7), Call (After 3 (Some [Throw])), Shutdown]
   in \<exists>k s'. k \<le> length evs \<and> session default_scheduler_config (take k evs) = Inr s' \<and> safe s' \<and>
        (k = length evs \<or> 2 ^ 32 \<le> 2 * budget s' + event_afters (evs ! k))"
  unfolding Let_def by (rule scheduler_session_safe) (simp add: reserved_def)

text \<open>Without one-shot timers the same sessions never fail, however long they are.\<close>

theorem scheduler_jobs_never_fail:
  assumes "list_all event_ok evs" "list_all (\<lambda>ev. event_afters ev = 0) evs"
  shows "\<exists>s'. session c evs = Inr s' \<and> sched_inv s'"
proof -
  obtain s where s: "sched_start (new_scheduler c) = Inr s" using start_new by blast
  from run_events_unbounded [OF started_rested [OF s] assms] s show ?thesis
    by (auto simp: session_def rested_def safe_def)
qed

theorem scheduler_jobs_never_fail_witness:
  "\<exists>s'. session default_scheduler_config
     (Call (AddJob ''poll'' 5 (Some [Emit 1])) # replicate 1000 (Step (1, 6))) = Inr s' \<and> sched_inv s'"
  by (rule scheduler_jobs_never_fail) (simp_all add: reserved_def list_all_iff)

text \<open>C23: After stop, when the pool is idle, the next iteration of the loop frees every timer context,
  runs no callback, and run returns because nothing is alive in the loop.\<close>

theorem scheduler_stop_then_run_returns:
  assumes "sched_inv s" "us_started s" "us_work s = []" "us_done s = []" "lp_ready (us_loop s) = []"
  shows "\<exists>s1 s2. sched_stop s = Inr s1 \<and> run_loop (clock # cs) s1 = Inr s2 \<and> \<not> loop_alive s2 \<and>
           us_ctx s2 = [] \<and> lp_timers (us_loop s2) = [] \<and> us_log s2 = us_log s"
  using stopped_run_ends [OF assms, of clock cs] by blast

theorem scheduler_stop_then_run_returns_witness:
  "\<exists>s1 s2. sched_stop sample_scheduler = Inr s1 \<and> run_loop [(3, 4)] s1 = Inr s2 \<and> \<not> loop_alive s2"
  using scheduler_stop_then_run_returns [OF sample_scheduler_inv, of "(3, 4)" "[]"]
  by (auto simp: sample_scheduler_def new_scheduler_def new_loop_def)

text \<open>C24: add_job under any name succeeds, keeps the ownership invariant, and installs one running
  periodic timer (with interval 0 its period is 0, so it fires once), due the interval from now (or at the
  largest time when the sum wraps), whose context holds the callback; a job of the same name is replaced, its timer stopped and closing,
  also when it was already due in this pass; no other job is touched.\<close>

theorem scheduler_add_job_replaces:
  assumes "sched_inv s"
  shows "\<exists>s'. add_job name ms cb s = Inr s' \<and> sched_inv s' \<and>
           us_timers s' = mput name (us_next s) (us_timers s) \<and>
           map_of (us_ctx s') (us_next s) = Some \<lparr>cx_name = name, cx_callback = cb, cx_owner = True\<rparr> \<and>
           map_of (lp_timers (us_loop s')) (us_next s) =
             Some \<lparr>tm_active = True, tm_closing = False, tm_cb = Some TimerCb,
               tm_timeout = clamp_timeout (lp_time (us_loop s)) ms, tm_repeat = ms,
               tm_start_id = lp_counter (us_loop s)\<rparr> \<and>
           (\<forall>h. map_of (us_timers s) name = Some h \<longrightarrow> h \<notin> set (lp_ready (us_loop s')) \<and>
              (\<exists>t. map_of (lp_timers (us_loop s')) h = Some t \<and> tm_closing t \<and> \<not> tm_active t)) \<and>
           (\<forall>h. h \<noteq> us_next s \<longrightarrow> map_of (us_timers s) name \<noteq> Some h \<longrightarrow>
              map_of (lp_timers (us_loop s')) h = map_of (lp_timers (us_loop s)) h \<and>
              map_of (us_ctx s') h = map_of (us_ctx s) h)"
  by (rule add_job_contract [OF assms])

theorem scheduler_add_job_replaces_witness:
  "\<exists>s' s''. add_job ''j'' 5 (Some [Emit 1]) sample_scheduler = Inr s' \<and>
     add_job ''j'' 7 (Some [Emit 2]) s' = Inr s'' \<and> us_timers s'' = [(''j'', 1)]"
proof -
  obtain s' where s': "add_job ''j'' 5 (Some [Emit 1]) sample_scheduler = Inr s'" "sched_inv s'"
    "us_timers s' = mput ''j'' (us_next sample_scheduler) (us_timers sample_scheduler)"
    "us_next s' = 1"
    using scheduler_add_job_replaces [OF sample_scheduler_inv(1), of "''j''" 5 "Some [Emit 1]"]
      add_job_eq [OF sample_scheduler_inv(1), of "''j''" 5 "Some [Emit 1]"]
    by (auto simp: installed_def removed_def sample_scheduler_def new_scheduler_def)
  with scheduler_add_job_replaces [OF s'(2), of "''j''" 7 "Some [Emit 2]"] show ?thesis
    by (auto simp: sample_scheduler_def new_scheduler_def)
qed

text \<open>C25: Any sequence of calls of add_job and remove_job succeeds and acts on the scheduler as on a finite
  map from names to intervals and callbacks: afterwards the jobs are those of the map, so that for
  each name the last call decides, and names that were not mentioned keep their job.\<close>

theorem scheduler_job_table:
  assumes "sched_inv s"
  shows "\<exists>s'. for_res sched_op ps s = Inr s' \<and> sched_inv s' \<and> sched_jobs s' = fold table_op ps (sched_jobs s) \<and>
    (\<forall>name. name \<notin> op_name ` set ps \<longrightarrow> sched_jobs s' name = sched_jobs s name)"
proof -
  from table.perform_all [OF assms, of ps] obtain s' where
    "for_res sched_op ps s = Inr s'" "sched_inv s'" "sched_jobs s' = fold table_op ps (sched_jobs s)"
    by (auto simp: sched_op_perform)
  with table.other_names show ?thesis by metis
qed

theorem scheduler_job_table_witness:
  "\<exists>s'. for_res sched_op [AddOp ''a'' 5 (Some [Emit 1]), AddOp ''b'' 6 None, RemoveOp ''a'', AddOp ''b'' 7 None]
       sample_scheduler = Inr s' \<and> sched_jobs s' ''a'' = None \<and> sched_jobs s' ''b'' = Some (7, None)"
proof -
  let ?ps = "[AddOp ''a'' 5 (Some [Emit 1]), AddOp ''b'' 6 None, RemoveOp ''a'', AddOp ''b'' 7 None]"
  obtain s' where s': "for_res sched_op ?ps sample_scheduler = Inr s'"
    "sched_jobs s' = fold table_op ?ps (sched_jobs sample_scheduler)"
    using scheduler_job_table [OF sample_scheduler_inv(1)] by blast
  from s'(2) have "sched_jobs s' ''a'' = None" "sched_jobs s' ''b'' = Some (7, None)" by simp_all
  with s'(1) show ?thesis by blast
qed

text \<open>C26: The callbacks found in the post queue run exactly once each, in the order they were posted,
  whatever exceptions some of them throw, and what they post is kept for the next wake-up; so do
  the completion callbacks of finished pool works, in the order the works finished.\<close>

theorem scheduler_callbacks_fifo:
  "(drain_post_queue s = Inr s1 \<longrightarrow>
      us_log s1 = us_log s @ concat (map cb_emits (us_post_queue s)) \<and>
      us_post_queue s1 = concat (map cb_posts (us_post_queue s))) \<and>
   (after_works s = Inr s2 \<longrightarrow>
      us_log s2 = us_log s @ concat (map cb_emits (us_done s)) \<and>
      us_post_queue s2 = us_post_queue s @ concat (map cb_posts (us_done s)))"
  using drain_fifo [of s s1] run_cbs_keeps [of "us_done s" "s\<lparr>us_done := []\<rparr>" s2]
  by (auto simp: after_works_def)

theorem scheduler_callbacks_fifo_witness:
  "\<exists>s1. drain_post_queue (sample_scheduler\<lparr>us_post_queue :=
        [Some [Emit 1, Throw, Emit 9], None, Some [Post (Some [Emit 3]), Emit 2]]\<rparr>) = Inr s1 \<and>
     us_log s1 = [1, 2] \<and> us_post_queue s1 = [Some [Emit 3]]"
proof -
  let ?s = "sample_scheduler\<lparr>us_post_queue :=
      [Some [Emit 1, Throw, Emit 9], None, Some [Post (Some [Emit 3]), Emit 2]]\<rparr>"
  obtain s1 where "drain_post_queue ?s = Inr s1"
    by (simp add: drain_post_queue_def run_cb_def post_def uv_async_send_def sample_scheduler_def)
  with scheduler_callbacks_fifo [of ?s s1] show ?thesis
    by (auto simp: cb_emits_def cb_posts_def sample_scheduler_def new_scheduler_def)
qed

text \<open>A pass over the timers takes exactly those whose time has come, each once, ordered by due
  time and then by start order, and leaves no due timer behind; a timer is never taken early.\<close>

theorem timers_due_in_order:
  assumes "loop_inv lp" "lp_ready lp = []"
  shows "set (lp_ready (uv_collect_due lp)) = due_set lp \<and> distinct (lp_ready (uv_collect_due lp)) \<and>
         sorted_wrt (\<lambda>a b. \<not> timer_less_than (the (map_of (lp_timers lp) b)) (the (map_of (lp_timers lp) a)))
           (lp_ready (uv_collect_due lp)) \<and>
         due_set (uv_collect_due lp) = {} \<and>
         (\<forall>h. h \<notin> due_set lp \<longrightarrow>
            map_of (lp_timers (uv_collect_due lp)) h = map_of (lp_timers lp) h)"
  using assms(2)
  by (rule_tac uv_collect_due_spec [OF assms(1)]) (auto simp: option.map_ident)

theorem timers_due_in_order_witness:
  "set (lp_ready (uv_collect_due (new_loop 5 :: timer_kind uv_loop))) = due_set (new_loop 5 :: timer_kind uv_loop)"
  using timers_due_in_order [of "new_loop 5 :: timer_kind uv_loop"]
  by (simp add: loop_inv_def new_loop_def)

text \<open>C27: Calling stop from the callback of a one-shot timer violates the assertion of uv_close: the
  context is closed by stop and closed again when the callback returns.\<close>

theorem scheduler_stop_in_oneshot:
  assumes "sched_inv s" "us_started s" "map_of (us_timers s) name = Some h"
    "map_of (us_ctx s) h = Some c" "cx_callback c = Some [Stop]"
  shows "oneshot_timer_cb h s = Inl Undefined"
  by (rule stop_in_oneshot [OF assms])

theorem scheduler_stop_in_oneshot_witness:
  "\<exists>s. after 5 (Some [Stop]) sample_scheduler = Inr s \<and> oneshot_timer_cb 0 s = Inl Undefined"
proof -
  obtain s1 s where s: "after 5 (Some [Stop]) sample_scheduler = Inr s" "sched_inv s"
    "removed (after_name (us_counter sample_scheduler + 1))
       (sample_scheduler\<lparr>us_counter := us_counter sample_scheduler + 1\<rparr>) s1"
    "installed (after_name (us_counter sample_scheduler + 1)) (Some [Stop]) OneshotTimerCb 5 0 s1 s"
    using after_eq [OF sample_scheduler_inv(1), of 5 "Some [Stop]"] by blast
  have n: "us_next s1 = 0" using s(3) by (simp add: removed_def sample_scheduler_def new_scheduler_def)
  have "us_started s"
    using s(3,4) by (simp add: removed_def installed_def same_rest_def sample_scheduler_def)
  from scheduler_stop_in_oneshot [OF s(2) this,
      of "after_name (us_counter sample_scheduler + 1)" 0
         "\<lparr>cx_name = after_name (us_counter sample_scheduler + 1), cx_callback = Some [Stop], cx_owner = True\<rparr>"]
    s(1,4) n
  show ?thesis by (auto simp: installed_def)
qed

text \<open>A job added with interval 0 does not run on every iteration: uv_timer_again does nothing for a
  repeat of 0, so it fires once and then stays in the table of jobs without ever running again,
  whereas interval 1 runs on each of the three iterations.\<close>

theorem scheduler_zero_interval_fires_once:
  "bind_res (session default_scheduler_config [Call (AddJob ''j'' 0 (Some [Emit 1]))])
     (\<lambda>s. bind_res (run_loop [(1, 1), (2, 2), (3, 3)] s) (\<lambda>s'. Inr (us_log s', us_timers s'))) =
     Inr ([1], [(''j'', 0)]) \<and>
   bind_res (session default_scheduler_config [Call (AddJob ''j'' 1 (Some [Emit 1]))])
     (\<lambda>s. bind_res (run_loop [(1, 1), (2, 2), (3, 3)] s) (\<lambda>s'. Inr (us_log s', us_timers s'))) =
     Inr ([1, 1, 1], [(''j'', 0)])"
  by code_simp

subsection \<open>JSON text\<close>

text \<open>C28: Parsing what dump wrote, compact or indented, gives the value back: objects keep their
  members, strings every code point, numbers their value (a non-negative signed integer comes back
  unsigned, a double that is not finite as null).\<close>

theorem json_dump_parse:
  assumes "float_io_ok fl" "wf_json j"
    "json_dump fl j = Inr t \<or> json_dump_indent fl n j = Inr t"
  shows "json_parse fl t = Inr (norm_json j)"
  using assms parse_dump parse_dump_indent by blast

theorem json_dump_parse_witness:
  "\<exists>t. json_dump_indent bits_float_io 2
       (JObject [(''a'', JArray [JInteger (-3), JBool True, JFloat 7]), (''b'', JString [CHR 0x0A, CHR 0x22])]) = Inr t \<and>
     json_parse bits_float_io t =
       Inr (JObject [(''a'', JArray [JInteger (-3), JBool True, JFloat 7]), (''b'', JString [CHR 0x0A, CHR 0x22])])"
proof -
  let ?j = "JObject [(''a'', JArray [JInteger (-3), JBool True, JFloat 7]), (''b'', JString [CHR 0x0A, CHR 0x22])]"
  have j: "json_utf8 ?j" "wf_json ?j" by code_simp+
  have n: "norm_json ?j = ?j" by (simp add: sample_doubles)
  obtain t where t: "json_dump_indent bits_float_io 2 ?j = Inr t"
    using dump_val_ok_iff [of bits_float_io True 2 0 ?j] j(1) unfolding json_dump_indent_def by blast
  have "json_parse bits_float_io t = Inr (norm_json ?j)"
    by (rule json_dump_parse [OF bits_float_io_ok j(2) disjI2 [OF t]])
  with t show ?thesis unfolding n by blast
qed

text \<open>C29: The table-driven UTF-8 decoder inside dump accepts the language of the reference grammar
  utf8_valid (no overlong forms, no surrogates): dump succeeds exactly when every string and every key
  in the value is valid UTF-8; the only exception it throws is type error 316.\<close>

theorem json_dump_domain:
  "((\<exists>t. json_dump fl j = Inr t) \<longleftrightarrow> json_utf8 j) \<and>
   ((\<exists>t. json_dump_indent fl n j = Inr t) \<longleftrightarrow> json_utf8 j) \<and>
   (\<not> json_utf8 j \<longrightarrow> json_dump fl j = Inl (JsonTypeError 316) \<and> json_dump_indent fl n j = Inl (JsonTypeError 316))"
  using dump_val_ok_iff [of fl False 0 0 j] dump_val_ok_iff [of fl True n 0 j]
    dump_val_error [of fl False 0 0 j] dump_val_error [of fl True n 0 j]
  by (cases "json_dump fl j"; cases "json_dump_indent fl n j") (auto simp: json_dump_def json_dump_indent_def)

theorem json_dump_domain_witness:
  "json_dump bits_float_io (JArray [JString [CHR 0xC3]]) = Inl (JsonTypeError 316)"
proof -
  have "\<not> json_utf8 (JArray [JString [CHR 0xC3]])" by code_simp
  with json_dump_domain [of bits_float_io "JArray [JString [CHR 0xC3]]" 0] show ?thesis by blast
qed

text \<open>A compact dump is one non-empty line: it contains no line feed, whatever the strings in the
  value contain, which is what makes one item per line a valid file format.\<close>

theorem json_dump_one_line:
  assumes "float_io_ok fl" "wf_json j" "json_dump fl j = Inr t"
  shows "nl \<notin> set t \<and> t \<noteq> []"
  using jt.one_line [OF assms(1,3)] jt.not_empty [OF assms] by blast

theorem json_dump_one_line_witness:
  "\<exists>t. json_dump bits_float_io (JString [CHR 0x0A]) = Inr t \<and> nl \<notin> set t"
proof -
  have "json_utf8 (JString [CHR 0x0A])" by code_simp
  then obtain t where "json_dump bits_float_io (JString [CHR 0x0A]) = Inr t"
    using dump_val_ok_iff [of bits_float_io False 0 0 "JString [CHR 0x0A]"]
    unfolding json_dump_def by blast
  with json_dump_one_line [OF bits_float_io_ok _ this] show ?thesis by simp
qed

text \<open>C30: Parsing ends on every input and either gives a value whose objects have each key once, or
  throws a parse error or, for a number beyond the doubles, out_of_range 406.\<close>

theorem json_parse_outcome:
  "case json_parse fl s of Inr j \<Rightarrow> wf_json j | Inl e \<Rightarrow> e \<in> {JsonParseError, JsonOutOfRange 406}"
  using json_parse_cases [of fl s] by (simp add: parse_error_def split: sum.splits)

subsection \<open>Data models and configuration\<close>

text \<open>C31: An item and a run status written by to_json are read back exactly by from_json, whatever the
  variable read into held before.\<close>

theorem models_json_roundtrip:
  "item_from_json (item_to_json i) i0 = Inr i \<and> status_from_json (status_to_json r) r0 = Inr r \<and>
   browser_config_from_json (browser_config_to_json b) b0 = Inr b"
  by (simp add: item_json_roundtrip status_json_roundtrip browser_config_read)

text \<open>C32: from_json of an item accepts exactly the JSON objects in which each text field, where it is present,
  is a string, each list (content_media, llm_tags, llm_key_points) an array of strings, and the relevance
  score an integer, a boolean or a double that truncates to an int (so true and 3.9 are accepted); metrics
  may be anything. Any of the others that is there but null is rejected: null as content_media gives type error 302,
  not an empty list. from_json throws nothing but type errors 302 and 306 (a double outside int is undefined).\<close>

theorem item_from_json_domain:
  "((\<exists>i. item_from_json j i0 = Inr i) \<longleftrightarrow> (\<exists>m. j = JObject m \<and>
     (\<forall>k \<in> {''platform'', ''item_id'', ''item_type'', ''author_id'', ''author_name'', ''content_text'', ''url'',
        ''published_at'', ''fetched_at'', ''llm_relevance_reason'', ''llm_summary''}.
        \<forall>v. map_of m k = Some v \<longrightarrow> (\<exists>s. v = JString s)) \<and>
     (\<forall>k \<in> {''content_media'', ''llm_tags'', ''llm_key_points''}.
        \<forall>v. map_of m k = Some v \<longrightarrow> (\<exists>ss. v = JArray (map JString ss))) \<and>
     (\<forall>v. map_of m ''llm_relevance_score'' = Some v \<longrightarrow>
        (\<exists>w. v = JUnsigned w) \<or> (\<exists>w. v = JInteger w) \<or> (\<exists>b. v = JBool b) \<or>
        (\<exists>d t. v = JFloat d \<and> double_trunc d = Some t \<and> - (2 ^ 31) \<le> t \<and> t < 2 ^ 31)))) \<and>
   item_from_json (JObject [(''content_media'', JNull)]) i0 = Inl (JsonTypeError 302) \<and>
   (item_from_json j i0 = Inl e \<longrightarrow> e \<in> {JsonTypeError 302, JsonTypeError 306, Undefined})"
  using item_from_json_members_iff [of j i0] item_null_rejected [of i0] fails_withD [OF fails_item, of j i0 e]
  by (simp only: conv_error_def) blast

theorem item_from_json_domain_witness:
  "item_from_json (JArray []) default_item = Inl (JsonTypeError 306) \<and>
   (\<exists>i. item_from_json (JObject [(''llm_relevance_score'', JBool True), (''url'', JString ''u'')]) default_item = Inr i) \<and>
   \<not> (\<exists>i. item_from_json (JObject [(''llm_tags'', JNull)]) default_item = Inr i)"
proof -
  have "item_from_json (JArray []) default_item = Inl (JsonTypeError 306)" by code_simp
  moreover have "\<exists>i. item_from_json (JObject [(''llm_relevance_score'', JBool True), (''url'', JString ''u'')]) default_item = Inr i"
    by (subst item_from_json_domain [THEN conjunct1]) auto
  moreover have "\<not> (\<exists>i. item_from_json (JObject [(''llm_tags'', JNull)]) default_item = Inr i)"
    by (subst item_from_json_domain [THEN conjunct1]) simp
  ultimately show ?thesis by blast
qed

text \<open>C33: A configuration file holding the JSON of a configuration is loaded as exactly that
  configuration, kept in the loader, and loading again gives the same. This holds for every string in it:
  also a name in the notation of environment variables (a dollar sign and braces) is loaded as it is
  written, not replaced.\<close>

theorem config_written_then_loaded:
  assumes "float_io_ok fl" "wf_config c" "json_dump_indent fl 2 (config_json c) = Inr t"
    "files (ld_path ld) = Some t"
  shows "load fl files ld = (ld\<lparr>ld_loaded := True, ld_config := c\<rparr>, Inr c) \<and>
         reload fl files (fst (load fl files ld)) = load fl files ld"
proof -
  have "snd (load fl files ld) = Inr c"
    using load_result [of fl files ld] load_written [OF assms(1-3)] assms(4)
    by (simp add: read_file_def)
  then obtain ld' where l: "load fl files ld = (ld', Inr c)" by (cases "load fl files ld") simp
  with load_ok_stores [OF l] reload_idempotent [OF l] show ?thesis by simp
qed

theorem config_written_then_loaded_witness:
  "\<exists>t c. lc_api_key (cfg_llm c) = ''${DEEPSEEK_API_KEY}'' \<and> json_dump_indent bits_float_io 2 (config_json c) = Inr t \<and>
     snd (load bits_float_io (\<lambda>p. Some t) (new_loader ''c.json'')) = Inr c"
proof -
  let ?c = "default_config\<lparr>cfg_llm := default_llm\<lparr>lc_api_key := ''${DEEPSEEK_API_KEY}''\<rparr>\<rparr>"
  have c: "json_utf8 (config_json ?c)" by code_simp
  have w: "wf_config ?c"
    by (simp add: wf_config_def default_config_def default_llm_def sample_doubles)
  obtain t where t: "json_dump_indent bits_float_io 2 (config_json ?c) = Inr t"
    using dump_val_ok_iff [of bits_float_io True 2 0 "config_json ?c"] c
    unfolding json_dump_indent_def by blast
  have "load bits_float_io (\<lambda>p. Some t) (new_loader ''c.json'') =
      ((new_loader ''c.json'')\<lparr>ld_loaded := True, ld_config := ?c\<rparr>, Inr ?c)"
    using config_written_then_loaded [OF bits_float_io_ok w t, of "\<lambda>p. Some t" "new_loader ''c.json''"]
    by blast
  then have "snd (load bits_float_io (\<lambda>p. Some t) (new_loader ''c.json'')) = Inr ?c"
    by (rule arg_cong [of _ _ snd, THEN trans]) (rule snd_conv)
  moreover have "lc_api_key (cfg_llm ?c) = ''${DEEPSEEK_API_KEY}''" by simp
  ultimately show ?thesis using t by blast
qed

text \<open>A load that throws keeps the configuration loaded before (though the loader counts as
  loaded), and it throws only JSON parse errors, out_of_range 406 and type errors 302 and 306; a
  missing or empty file and the text null give the defaults.\<close>

theorem config_load_errors:
  "(load fl files ld = (ld', Inl e) \<longrightarrow>
      ld' = ld\<lparr>ld_loaded := True\<rparr> \<and> (parse_error e \<or> conv_error e)) \<and>
   (files (ld_path ld) = None \<or> files (ld_path ld) = Some [] \<or> files (ld_path ld) = Some ''null'' \<longrightarrow>
      snd (load fl files ld) = Inr default_config)"
  using load_error_keeps load_throws load_defaults by blast

theorem config_load_errors_witness:
  "load bits_float_io (\<lambda>p. Some ''{'') (new_loader ''c.json'') =
     ((new_loader ''c.json'')\<lparr>ld_loaded := True\<rparr>, Inl JsonParseError) \<and>
   snd (load bits_float_io (\<lambda>p. Some ''null'') (new_loader ''c.json'')) = Inr default_config"
proof -
  have "snd (load bits_float_io (\<lambda>p. Some ''{'') (new_loader ''c.json'')) = Inl JsonParseError"
    by code_simp
  then obtain ld' where l: "load bits_float_io (\<lambda>p. Some ''{'') (new_loader ''c.json'') = (ld', Inl JsonParseError)"
    by (cases "load bits_float_io (\<lambda>p. Some ''{'') (new_loader ''c.json'')") simp
  with config_load_errors [of bits_float_io "\<lambda>p. Some ''{''" "new_loader ''c.json''" ld' JsonParseError]
    config_load_errors [of bits_float_io "\<lambda>p. Some ''null''" "new_loader ''c.json''"]
  show ?thesis by auto
qed

text \<open>An empty JSON object gives every section of the configuration and every module
  configuration its documented defaults, overwriting what was there.\<close>

theorem config_defaults:
  "server_from_json (JObject []) s = Inr default_server \<and> llm_from_json (JObject []) l = Inr default_llm \<and>
   browser_from_json (JObject []) b = Inr default_browser \<and>
   llm_config_from_json (JObject []) l' = Inr default_llm_config \<and>
   browser_config_from_json (JObject []) b' = Inr default_browser_config \<and>
   scheduler_config_from_json (JObject []) sc = Inr default_scheduler_config \<and>
   storage_config_from_json (JObject []) st = Inr default_storage_config \<and>
   log_config_from_json (JObject []) lg = Inr default_log_config"
  by (simp add: sections_default module_defaults)

subsection \<open>LLM engine\<close>

text \<open>C34: Every call of chat that returns is answered exactly once: over any sequence of starts, stops,
  calls, finished requests (in any order, with any outcome) and steps, once the pool is idle and the
  loop has turned, a callback that is given for both outcomes has been called as often as it was
  given to a call of chat that returned.\<close>

theorem llm_chat_calls_back_once:
  assumes "list_all (event_pairs n) evs" "le_work (engine_run fl what evs (new_engine c)) = []"
  shows "answers n (engine_step (engine_run fl what evs (new_engine c))) = chats_with fl what n evs (new_engine c)"
  using all_answered [OF assms] .

theorem llm_chat_calls_back_once_witness:
  "let evs = [LeStart, LeChat sample_env (JArray []) (Some 1) (Some 1) JNull, LeChat sample_env (JArray []) (Some 2) (Some 2) JNull,
       LeWork 1 (HttpFailed ''timeout''), LeStep, LeWork 0 (HttpResponse 200 ''[]'')]
   in answers 1 (engine_step (engine_run bits_float_io (\<lambda>_. []) evs (new_engine default_llm_config))) = 1"
proof -
  let ?evs = "[LeStart, LeChat sample_env (JArray []) (Some 1) (Some 1) JNull, LeChat sample_env (JArray []) (Some 2) (Some 2) JNull,
       LeWork 1 (HttpFailed ''timeout''), LeStep, LeWork 0 (HttpResponse 200 ''[]'')]"
  obtain ctx where ctx: "\<And>a b e. le_config e = default_llm_config \<Longrightarrow>
      chat bits_float_io sample_env (JArray []) a b JNull e = (e\<lparr>le_work := le_work e @ [(ctx, a, b)]\<rparr>, Inr ())"
    using sample_chat by blast
  have pairs: "list_all (event_pairs 1) ?evs" by (simp add: both_or_none_def)
  have "le_work (engine_run bits_float_io (\<lambda>_. []) ?evs (new_engine default_llm_config)) = []"
    "chats_with bits_float_io (\<lambda>_. []) 1 ?evs (new_engine default_llm_config) = 1"
    by (simp_all add: ctx engine_start_def new_engine_def chat_work_def engine_step_def chats_done_def chat_done_def note_llm_def run_chat_def)
  with llm_chat_calls_back_once [OF pairs, of bits_float_io "\<lambda>_. []" default_llm_config] show ?thesis
    unfolding Let_def by metis
qed

text \<open>C35: The engine on its scheduler: in every session of starts, stops, calls of chat, finished works, steps
  and runs, whatever the clock shows, no call of the scheduler fails (the async handle is never
  initialised while it is closing, because stop steps the loop), and the session comes to exactly what
  the engine does when it sees the scheduler as a list of works on the pool and a list of finished
  works: the same requests are open, finished and answered, with the same answers in the same order.\<close>

theorem llm_engine_on_scheduler:
  "\<exists>y. for_res (sys_do fl what) evs (new_llm_system c) = Inr y \<and>
     llm_view y = engine_run fl what (map engine_sees evs) (new_engine c)"
  by (rule llm_session)

text \<open>C36: A base URL of the form scheme, host, optional port below 2^31 and optional path is split into
  its host, its port (443 or 80 by scheme when none is given) and its path, and the request goes to
  the path followed by /chat/completions. With a base URL that starts with neither https:// nor http://, an engine
  of that configuration queues nothing: it calls the error callback with the URL, at once, when one was
  given, and does nothing else.\<close>

theorem llm_base_url_parts:
  assumes "set h \<inter> {CHR '':'', CHR ''/''} = {}" "\<And>k. p = Some k \<Longrightarrow> k < 2 ^ 31" "path = [] \<or> hd path = CHR ''/''"
    and "lm_base_url (le_config e) = url_scheme secure @ url_authority h p @ path"
    and "json_dump fl (chat_body (le_config e) messages tools) = Inr body"
  shows "(\<exists>ctx. chat fl env messages on_result on_error tools e =
      (e\<lparr>le_work := le_work e @ [(ctx, on_result, on_error)]\<rparr>, Inr ()) \<and>
    ct_host ctx = h \<and> ct_port ctx = (case p of None \<Rightarrow> if secure then 443 else 80 | Some k \<Rightarrow> word_of_nat k) \<and>
    ct_path ctx = path @ ''/chat/completions'' \<and> ct_body ctx = body) \<and>
    (\<forall>e' url. lm_base_url (le_config e') = url \<and> url \<noteq> [] \<and> take 8 url \<noteq> ''https://'' \<and> take 7 url \<noteq> ''http://'' \<longrightarrow>
      chat fl env messages on_result on_error tools e' =
        (case on_error of None \<Rightarrow> e'
         | Some n \<Rightarrow> e'\<lparr>le_log := le_log e' @ [(n, LlmError (''invalid base_url: '' @ url))]\<rparr>, Inr ()))"
proof -
  have "chat fl env messages on_result on_error tools e' =
      (case on_error of None \<Rightarrow> e'
       | Some n \<Rightarrow> e'\<lparr>le_log := le_log e' @ [(n, LlmError (''invalid base_url: '' @ url))]\<rparr>, Inr ())"
    if "lm_base_url (le_config e') = url" "url \<noteq> []" "take 8 url \<noteq> ''https://''" "take 7 url \<noteq> ''http://''" for e' url
    using chat_other_scheme that by blast
  with chat_queues [OF parse_url_parts [OF assms(1-3)] assms(4,5)] show ?thesis by (auto simp: chat_request_def)
qed

theorem llm_base_url_parts_witness:
  "\<exists>ctx e'. chat bits_float_io sample_env (JArray []) (Some 1) None JNull
      (new_engine (default_llm_config\<lparr>lm_base_url := ''http://localhost:8080/v1''\<rparr>)) = (e', Inr ()) \<and>
    le_work e' = [(ctx, Some 1, None)] \<and> ct_host ctx = ''localhost'' \<and> ct_port ctx = 8080 \<and> ct_path ctx = ''/v1/chat/completions''"
proof -
  let ?e = "new_engine (default_llm_config\<lparr>lm_base_url := ''http://localhost:8080/v1''\<rparr>)"
  have "nat_str 8080 = ''8080''"
    by (simp add: nat_str.simps [of 8080] nat_str.simps [of 808] nat_str.simps [of 80] nat_str.simps [of 8] digit_char_def) code_simp
  then have u: "lm_base_url (le_config ?e) = url_scheme False @ url_authority ''localhost'' (Some 8080) @ ''/v1''"
    by (simp add: new_engine_def url_scheme_def url_authority_def)
  have "utf8_valid (lm_model (le_config ?e))" using sample_model by (simp add: new_engine_def)
  then obtain body where b: "json_dump bits_float_io (chat_body (le_config ?e) (JArray []) JNull) = Inr body"
    using sample_body by blast
  have h: "set ''localhost'' \<inter> {CHR '':'', CHR ''/''} = {}" "''/v1'' = [] \<or> hd ''/v1'' = CHR ''/''" by simp_all
  have "le_work ?e = []" by (simp add: new_engine_def)
  with llm_base_url_parts [OF h(1) _ h(2) u b, of sample_env "Some 1" None] show ?thesis
    by auto
qed

subsection \<open>WebSocket client\<close>

text \<open>C37: Whatever the user of the client, the socket thread and the loop do in which order, as long as every
  connection is opened with a callback for messages (one of A) and one for errors (one of B): the
  messages and errors that arrive while the socket thread is in its loop are each called back once, with
  what arrived and through a callback for its kind, in the order of arrival, or are still queued, in that
  order behind those; nothing is lost or doubled. (A message before the first start is undefined behaviour and
  ends the sequence of events, see ws_client_on_scheduler.) When the loop has been woken, finitely many turns
  call back everything that arrived, and a message or error that arrives while the client is started wakes
  it. A connect without a socket thread starts one. The client is started exactly while its scheduler is on.\<close>

theorem ws_messages_in_order:
  assumes "for_res ws_do es new_ws_client = Inr w" "list_all (connects_with A B) es"
  shows "(\<exists>done. arrivals es new_ws_client = done @ wc_batch w @ wc_posted w \<and>
      list_all2 (calls_one_of A B) (wc_log w) done) \<and>
    (wc_sched w = SchedOn True \<longrightarrow>
      list_all2 (calls_one_of A B) (wc_log ((ws_step ^^ ws_turns w) w)) (arrivals es new_ws_client)) \<and>
    (\<forall>ev. wc_started w \<and> wc_thread w = Looping \<and> arrival ev \<noteq> [] \<longrightarrow> (\<exists>w'. on_ix_event ev w = Inr w' \<and>
      list_all2 (calls_one_of A B) (wc_log ((ws_step ^^ ws_turns w') w')) (arrivals es new_ws_client @ arrival ev))) \<and>
    (\<forall>url headers cb1 cb2. wc_thread w = NoThread \<longrightarrow> wc_thread (ws_connect url headers cb1 cb2 w) = Looping) \<and>
    (wc_started w \<longleftrightarrow> (\<exists>b. wc_sched w = SchedOn b))"
proof -
  have "ws_seen A B [] new_ws_client" by (simp add: ws_seen_def new_ws_client_def)
  from ws_seen_run [OF assms this] have seen: "ws_seen A B (arrivals es new_ws_client) w" by simp
  have inv: "ws_inv w" by (rule ws_reach_inv [OF ws_run_reach [OF assms(1) ws_reach.fresh]])
  have "\<exists>w'. on_ix_event ev w = Inr w' \<and>
      list_all2 (calls_one_of A B) (wc_log ((ws_step ^^ ws_turns w') w')) (arrivals es new_ws_client @ arrival ev)"
    if "wc_started w" "wc_thread w = Looping" "arrival ev \<noteq> []" for ev
    using arrival_delivered [OF seen inv that] .
  with seen ws_seen_all [OF seen] inv show ?thesis
    by (simp add: ws_seen_def ws_inv_def ws_connect_def ix_start_def)
qed

theorem ws_messages_in_order_witness:
  "let es = [WeStart, WeConnect ''ws://h'' [] (Some 1) (Some 2), WeNotify IxOpen, WeNotify (IxMessage ''a'' False), WeStep,
       WeNotify (IxMessage ''b'' True), WeNotify (IxError ''reset'')];
       a = Deliver \<lparr>wm_data = ''a'', wm_binary = False\<rparr>; b = Deliver \<lparr>wm_data = ''b'', wm_binary = True\<rparr>
   in \<exists>w. for_res ws_do es new_ws_client = Inr w \<and> wc_batch w = [a] \<and> wc_posted w = [b, Fail ''reset''] \<and>
     wc_log ((ws_step ^^ ws_turns w) w) = [(1, a), (1, b), (2, Fail ''reset'')]"
proof -
  let ?es = "[WeStart, WeConnect ''ws://h'' [] (Some 1) (Some 2), WeNotify IxOpen, WeNotify (IxMessage ''a'' False), WeStep,
       WeNotify (IxMessage ''b'' True), WeNotify (IxError ''reset'')]"
  let ?a = "Deliver \<lparr>wm_data = ''a'', wm_binary = False\<rparr>"
  let ?b = "Deliver \<lparr>wm_data = ''b'', wm_binary = True\<rparr>"
  have "case for_res ws_do ?es new_ws_client of Inl _ \<Rightarrow> False
      | Inr w \<Rightarrow> wc_batch w = [?a] \<and> wc_posted w = [?b, Fail ''reset''] \<and> wc_sched w = SchedOn True"
    by code_simp
  then obtain w where w: "for_res ws_do ?es new_ws_client = Inr w" "wc_batch w = [?a]" "wc_posted w = [?b, Fail ''reset'']"
    "wc_sched w = SchedOn True"
    by (cases "for_res ws_do ?es new_ws_client") auto
  have arr: "arrivals ?es new_ws_client = [?a, ?b, Fail ''reset'']" by code_simp
  have "list_all (connects_with {1} {2}) ?es" by simp
  from ws_messages_in_order [OF w(1) this] w(4) arr
  have "list_all2 (calls_one_of {1} {2}) (wc_log ((ws_step ^^ ws_turns w) w)) [?a, ?b, Fail ''reset'']" by simp
  then have "wc_log ((ws_step ^^ ws_turns w) w) = [(1, ?a), (1, ?b), (2, Fail ''reset'')]"
    by (auto simp: list_all2_Cons2)
  with w show ?thesis by (simp add: Let_def)
qed

text \<open>C38: The client on its scheduler: whatever its user, the socket thread and the loop do, the state of the
  client together with the queue and the async handle of the scheduler is a state of the machine
  ws_reach, what was received has been run or stands in the post queue, in order, and the only thing that
  can fail next is a message or an error of the socket (no other notification and no call) before the
  first start, when post wakes a handle that was never initialised.\<close>

theorem ws_client_on_scheduler:
  assumes "for_res wsys_do es new_ws_system = Inr y"
  shows "ws_reach (ws_view y) \<and>
    wc_received (wy_client y) = wc_run (wy_client y) @ map (\<lambda>cb. wy_tasks y ! signal_of cb) (us_post_queue (wy_sched y)) \<and>
    (\<forall>e. (\<exists>y'. wsys_do e y = Inr y') \<or>
       ((\<exists>reason. e = Notify (IxError reason)) \<or> (\<exists>data binary. e = Notify (IxMessage data binary))) \<and>
       wsys_do e y = Inl Undefined \<and> us_async (wy_sched y) = AUninit)"
proof -
  note s = ws_session [OF assms]
  have ev: "(\<exists>reason. e = Notify (IxError reason)) \<or> (\<exists>data binary. e = Notify (IxMessage data binary))"
    if "\<exists>ev. e = Notify ev \<and> arrival ev \<noteq> []" for e
  proof -
    from that obtain ev where "e = Notify ev" "arrival ev \<noteq> []" by blast
    then show ?thesis by (cases ev) simp_all
  qed
  have "us_async (wy_sched y) = AUninit" if "wc_sched (ws_view y) = SchedNew"
    using that by (cases "us_async (wy_sched y)") (simp_all add: ws_view_def)
  with wsys_do_simulated [OF s(1)] ev have "\<forall>e. (\<exists>y'. wsys_do e y = Inr y') \<or>
       ((\<exists>reason. e = Notify (IxError reason)) \<or> (\<exists>data binary. e = Notify (IxMessage data binary))) \<and>
       wsys_do e y = Inl Undefined \<and> us_async (wy_sched y) = AUninit" by blast
  with s(2) ws_reach_inv [OF s(2)] show ?thesis by (simp add: ws_inv_def ws_view_def with_queue_def)
qed

theorem ws_client_on_scheduler_witness:
  "let es = [Api OpStart, Api (OpConnect ''ws://h'' [] (Some 1) None), Notify IxOpen, Notify (IxMessage ''a'' False),
       Api (OpStep (1, 2)), Notify (IxMessage ''b'' True)]
   in \<exists>y. for_res wsys_do es new_ws_system = Inr y \<and> ws_reach (ws_view y) \<and>
        wc_run (wy_client y) = [Deliver \<lparr>wm_data = ''a'', wm_binary = False\<rparr>] \<and> length (us_post_queue (wy_sched y)) = 1"
proof -
  let ?es = "[Api OpStart, Api (OpConnect ''ws://h'' [] (Some 1) None), Notify IxOpen, Notify (IxMessage ''a'' False),
       Api (OpStep (1, 2)), Notify (IxMessage ''b'' True)]"
  have "case for_res wsys_do ?es new_ws_system of Inl _ \<Rightarrow> False | Inr y \<Rightarrow>
      wc_run (wy_client y) = [Deliver \<lparr>wm_data = ''a'', wm_binary = False\<rparr>] \<and> length (us_post_queue (wy_sched y)) = 1"
    by code_simp
  then obtain y where y: "for_res wsys_do ?es new_ws_system = Inr y"
    "wc_run (wy_client y) = [Deliver \<lparr>wm_data = ''a'', wm_binary = False\<rparr>]" "length (us_post_queue (wy_sched y)) = 1"
    by (cases "for_res wsys_do ?es new_ws_system") auto
  with ws_client_on_scheduler [OF y(1)] show ?thesis unfolding Let_def by blast
qed



subsection \<open>Logger\<close>

text \<open>C40: A logger that was started writes to its file exactly the messages its level lets through, in the
  order of the calls and with their severity (debug 1, info 2, warn 3, error 4), and writes to no other file; the file
  starts empty. The name of the level, in upper or lower case, decides: trace and debug let everything
  through, info all but debug messages, warn or warning the warnings and errors, err or error the
  errors, and critical, off or any other name nothing.\<close>

theorem logger_level_filter:
  assumes "logger_start True (new_logger c) r = ((l, r1), Inr ())"
  shows "let name = map to_lower (lg_level c);
      through = (if name \<in> {''trace'', ''debug''} then {Debug, Info, Warn, Error}
        else if name = ''info'' then {Info, Warn, Error} else if name \<in> {''warn'', ''warning''} then {Warn, Error}
        else if name \<in> {''err'', ''error''} then {Error} else {})
    in rg_files (log_all l ms r1) (lg_log_file c) =
         map (\<lambda>(level, msg). (case level of Debug \<Rightarrow> 1 | Info \<Rightarrow> 2 | Warn \<Rightarrow> 3 | Error \<Rightarrow> 4, msg))
           (filter (\<lambda>(level, _). level \<in> through) ms) \<and>
       (\<forall>f. f \<noteq> lg_log_file c \<longrightarrow> rg_files (log_all l ms r1) f = rg_files r f)"
  using started_writes [OF assms, of ms] unfolding written_levels Let_def unfolding spd_ranks .

theorem logger_level_filter_witness:
  "\<exists>l r1. logger_start True (new_logger default_log_config) \<lparr>rg_lynne = None, rg_files = \<lambda>_. []\<rparr> = ((l, r1), Inr ()) \<and>
     rg_files (log_all l [(Debug, ''a''), (Warn, ''b''), (Info, ''c'')] r1) (lg_log_file default_log_config) = [(3, ''b''), (2, ''c'')]"
proof -
  obtain l r1 where "logger_start True (new_logger default_log_config) \<lparr>rg_lynne = None, rg_files = \<lambda>_. []\<rparr> = ((l, r1), Inr ())"
    by (simp add: logger_start_def new_logger_def Let_def)
  moreover have "map to_lower (lg_level default_log_config) = ''info''" by code_simp
  ultimately show ?thesis
    using logger_level_filter [of default_log_config _ _ _ "[(Debug, ''a''), (Warn, ''b''), (Info, ''c'')]"]
    by (fastforce simp: Let_def)
qed

end
